(* ===== verification/Prelude.thy ===== *)
theory Prelude
  imports Complex_Main "HOL-Library.Char_ord" "HOL-Library.List_Lexorder"
begin

text \<open>
  Shared vocabulary of the development: the collections of rewrite rules, the C integer
  conversions, the C++ standard containers the scheduler uses (\<open>std::map\<close> with string keys as a
  key-sorted association list, \<open>std::vector\<close> as a list with checked indexing) and the generic
  lemmas about them.  Strings are \<open>string\<close>: a C string is the characters before its NUL, so the
  end of a string is the empty list.
\<close>

named_theorems smap_simps \<open>what a lookup returns after an operation on a string map\<close>
named_theorems cint_simps \<open>C integer conversions on values that are in range\<close>

section \<open>C integers\<close>

text \<open>
  The scheduler computes with \<open>int\<close> (32 bit), \<open>long\<close>, \<open>long long\<close> and \<open>time_t\<close> (64 bit) and
  their unsigned variants.  The model uses \<open>int\<close>; the conversions below reduce a value to the
  width of a type wherever the source converts between signed and unsigned types or multiplies
  parsed input.
\<close>

definition to_sint :: "int \<Rightarrow> int" where
  "to_sint x = (x + 2 ^ 31) mod 2 ^ 32 - 2 ^ 31"

definition to_sll :: "int \<Rightarrow> int" where
  "to_sll x = (x + 2 ^ 63) mod 2 ^ 64 - 2 ^ 63"

definition to_ull :: "int \<Rightarrow> int" where
  "to_ull x = x mod 2 ^ 64"

lemma to_sint_id [cint_simps]: "- (2 ^ 31) \<le> x \<Longrightarrow> x < 2 ^ 31 \<Longrightarrow> to_sint x = x"
  by (simp add: to_sint_def)

lemma to_sll_id [cint_simps]: "- (2 ^ 63) \<le> x \<Longrightarrow> x < 2 ^ 63 \<Longrightarrow> to_sll x = x"
  by (simp add: to_sll_def)

lemma to_ull_id [cint_simps]: "0 \<le> x \<Longrightarrow> x < 2 ^ 64 \<Longrightarrow> to_ull x = x"
  by (simp add: to_ull_def)

lemma to_sll_bounds: "- (2 ^ 63) \<le> to_sll x \<and> to_sll x < 2 ^ 63"
  by (simp add: to_sll_def)

abbreviation RESC_UNSPECIFIED :: int where "RESC_UNSPECIFIED \<equiv> - 1"
abbreviation RESC_INFINITY :: int where "RESC_INFINITY \<equiv> - 2"

text \<open>\<open>std::numeric_limits<size_t>::max()\<close>.\<close>

definition SIZE_T_MAX :: nat where
  "SIZE_T_MAX = 2 ^ 64 - 1"

section \<open>String maps\<close>

text \<open>
  \<open>std::map<std::string, T>\<close>: an association list sorted by key.  As in C++, \<open>insert\<close> keeps the
  value of a key that is already present; a write through an iterator or a pointer is
  \<open>smap_modify\<close>.
\<close>

type_synonym 'v smap = "(string \<times> 'v) list"

definition smap_ok :: "'v smap \<Rightarrow> bool" where
  "smap_ok m \<longleftrightarrow> sorted (map fst m) \<and> distinct (map fst m)"

definition smap_find :: "'v smap \<Rightarrow> string \<Rightarrow> 'v option" where
  "smap_find m k = map_of m k"

definition smap_insert :: "string \<Rightarrow> 'v \<Rightarrow> 'v smap \<Rightarrow> 'v smap" where
  "smap_insert k v m = (if k \<in> fst ` set m then m else insort_key fst (k, v) m)"

definition smap_modify :: "string \<Rightarrow> ('v \<Rightarrow> 'v) \<Rightarrow> 'v smap \<Rightarrow> 'v smap" where
  "smap_modify k f m = map (\<lambda>(k', v). (k', if k' = k then f v else v)) m"

lemma smap_ok_Nil [simp]: "smap_ok []"
  by (simp add: smap_ok_def)

lemma smap_find_Nil [smap_simps, simp]: "smap_find [] k = None"
  by (simp add: smap_find_def)

lemma map_of_insort_new:
  "k \<notin> fst ` set m \<Longrightarrow> map_of (insort_key fst (k, v) m) k' = (if k' = k then Some v else map_of m k')"
  by (induction m) auto

lemma smap_find_insert [smap_simps]:
  "smap_find (smap_insert k v m) k' =
     (if k' = k \<and> smap_find m k = None then Some v else smap_find m k')"
  by (auto simp: smap_find_def smap_insert_def map_of_insort_new map_of_eq_None_iff)

lemma smap_find_modify [smap_simps]:
  "smap_find (smap_modify k f m) k' =
     (if k' = k then map_option f (smap_find m k) else smap_find m k')"
  by (induction m) (auto simp: smap_find_def smap_modify_def)

lemma distinct_map_fst_insort:
  "distinct (map fst m) \<Longrightarrow> k \<notin> fst ` set m \<Longrightarrow> distinct (map fst (insort_key fst (k, v) m))"
  by (induction m) (auto simp: set_insort_key)

lemma smap_ok_insert [simp]: "smap_ok m \<Longrightarrow> smap_ok (smap_insert k v m)"
  by (auto simp: smap_ok_def smap_insert_def sorted_insort_key distinct_map_fst_insort)

lemma map_fst_modify [simp]: "map fst (smap_modify k f m) = map fst m"
  by (induction m) (auto simp: smap_modify_def)

lemma smap_ok_modify [simp]: "smap_ok (smap_modify k f m) = smap_ok m"
  by (simp add: smap_ok_def)

lemma smap_find_None_iff: "smap_find m k = None \<longleftrightarrow> k \<notin> fst ` set m"
  by (simp add: smap_find_def map_of_eq_None_iff)

lemma smap_find_Some_mem: "smap_find m k = Some v \<Longrightarrow> (k, v) \<in> set m"
  by (simp add: smap_find_def map_of_SomeD)

lemma smap_find_mem: "smap_ok m \<Longrightarrow> (k, v) \<in> set m \<Longrightarrow> smap_find m k = Some v"
  by (simp add: smap_find_def smap_ok_def)

lemma smap_modify_modify:
  "smap_modify k f (smap_modify k g m) = smap_modify k (f \<circ> g) m"
  by (induction m) (auto simp: smap_modify_def)

lemma smap_modify_id: "(\<And>v. f v = v) \<Longrightarrow> smap_modify k f m = m"
  by (induction m) (auto simp: smap_modify_def)

text \<open>
  A store of records found by a key.  A client that writes a list of values with different keys
  finds every value again and nothing else changed.  \<open>keeps\<close> says which changes do not touch the key.
\<close>

locale keyed_store =
  fixes lookup :: "'s \<Rightarrow> 'k \<Rightarrow> 'v option"
    and modify :: "'k \<Rightarrow> ('v \<Rightarrow> 'v) \<Rightarrow> 's \<Rightarrow> 's"
    and keeps :: "('v \<Rightarrow> 'v) \<Rightarrow> bool"
  assumes lookup_modify:
    "keeps f \<Longrightarrow> lookup (modify k f s) k' = (if k' = k then map_option f (lookup s k) else lookup s k')"
begin

definition write_all :: "('a \<Rightarrow> 'v \<Rightarrow> 'v) \<Rightarrow> ('k \<times> 'a) list \<Rightarrow> 's \<Rightarrow> 's" where
  "write_all setv kvs s = fold (\<lambda>(k, v). modify k (setv v)) kvs s"

lemma write_all_lookup:
  assumes "\<And>v. keeps (setv v)" and "distinct (map fst kvs)"
  shows "lookup (write_all setv kvs s) k =
     (case map_of kvs k of None \<Rightarrow> lookup s k | Some v \<Rightarrow> map_option (setv v) (lookup s k))"
  using assms(2)
proof (induction kvs arbitrary: s)
  case (Cons e kvs)
  obtain k1 v1 where e: "e = (k1, v1)" by (cases e)
  have "k1 \<notin> fst ` set kvs" using Cons.prems by (simp add: e)
  then have n: "map_of kvs k1 = None" by (simp add: map_of_eq_None_iff)
  have "lookup (write_all setv (e # kvs) s) k = lookup (write_all setv kvs (modify k1 (setv v1) s)) k"
    by (simp add: write_all_def e)
  then show ?case
    using Cons n by (auto simp: e lookup_modify[OF assms(1)] split: option.splits)
qed (simp add: write_all_def)

end

interpretation smaps: keyed_store smap_find smap_modify "\<lambda>_. True"
  by unfold_locales (rule smap_find_modify)

section \<open>Options\<close>

text \<open>The first of two results that is there.\<close>

definition or_else :: "'a option \<Rightarrow> 'a option \<Rightarrow> 'a option" where
  "or_else a b = (case a of None \<Rightarrow> b | Some x \<Rightarrow> Some x)"

lemma or_else_simps [simp]: "or_else None b = b" "or_else (Some x) b = Some x" "or_else a None = a"
  by (simp_all add: or_else_def split: option.splits)

lemma map_option_or_else: "map_option f (or_else a b) = or_else (map_option f a) (map_option f b)"
  by (cases a) auto

lemma or_else_None_iff [simp]: "or_else a b = None \<longleftrightarrow> a = None \<and> b = None"
  by (cases a) auto

section \<open>Vectors\<close>

text \<open>Reading and writing a vector at an index; an index out of range is \<open>None\<close>.\<close>

definition vec_get :: "'a list \<Rightarrow> nat \<Rightarrow> 'a option" where
  "vec_get xs i = (if i < length xs then Some (xs ! i) else None)"

definition vec_set :: "'a list \<Rightarrow> nat \<Rightarrow> 'a \<Rightarrow> 'a list option" where
  "vec_set xs i v = (if i < length xs then Some (xs[i := v]) else None)"

lemma vec_get_set:
  "vec_set xs i v = Some ys \<Longrightarrow> vec_get ys j = (if j = i then Some v else vec_get xs j)"
  by (auto simp: vec_get_def vec_set_def split: if_splits)

lemma nth_update_any: "xs[i := x] ! j = (if i = j \<and> i < length xs then x else xs ! j)"
  by (cases "i < length xs") (auto simp: nth_list_update list_update_beyond)

end
