(* ===== verification/CLib.thy ===== *)
theory CLib
  imports Prelude
begin

text \<open>
  The C library functions the scheduler parses and prints with: \<open>isspace\<close>, \<open>isdigit\<close>, \<open>strtol\<close>
  (base 10, saturating at the limits of a 64 bit \<open>long\<close>), \<open>strtod\<close> on decimal notation, \<open>strchr\<close>,
  \<open>strstr\<close>, and the decimal printing that \<open>operator<<\<close> and \<open>%lld\<close> do.  A function that returns an
  end pointer returns the rest of the string.
\<close>

definition isspace :: "char \<Rightarrow> bool" where
  "isspace c \<longleftrightarrow> c \<in> set [CHR '' '', CHR 0x09, CHR 0x0A, CHR 0x0B, CHR 0x0C, CHR 0x0D]"

definition isdigit :: "char \<Rightarrow> bool" where
  "isdigit c \<longleftrightarrow> c \<in> set ''0123456789''"

definition digit_val :: "char \<Rightarrow> int" where
  "digit_val c = int (of_char c) - 48"

definition dec_value :: "string \<Rightarrow> int" where
  "dec_value ds = foldl (\<lambda>a c. 10 * a + digit_val c) 0 ds"

definition LONG_MAX :: int where "LONG_MAX = 2 ^ 63 - 1"
definition LONG_MIN :: int where "LONG_MIN = - (2 ^ 63)"

definition split_sign :: "string \<Rightarrow> bool \<times> string" where
  "split_sign t =
     (if t \<noteq> [] \<and> hd t = CHR ''-'' then (True, tl t)
      else if t \<noteq> [] \<and> hd t = CHR ''+'' then (False, tl t)
      else (False, t))"

definition strtol :: "string \<Rightarrow> int \<times> string" where
  "strtol s =
     (let (neg, u) = split_sign (dropWhile isspace s);
          ds = takeWhile isdigit u;
          v = (if neg then - dec_value ds else dec_value ds)
      in if ds = [] then (0, s)
         else (max LONG_MIN (min LONG_MAX v), dropWhile isdigit u))"

text \<open>\<open>atoi\<close> is \<open>strtol\<close> without the end pointer, converted to \<open>int\<close>.\<close>

definition atoi :: "string \<Rightarrow> int" where
  "atoi s = to_sint (fst (strtol s))"

text \<open>
  \<open>strtod\<close> on decimal notation (sign, digits, fraction, exponent), with the exact rational value
  of the notation; hexadecimal floats, infinities and NaN are not covered.
\<close>

definition split_exponent :: "string \<Rightarrow> int \<times> string" where
  "split_exponent s =
     (if s \<noteq> [] \<and> (hd s = CHR ''e'' \<or> hd s = CHR ''E'') then
        (let (neg, u) = split_sign (tl s); ds = takeWhile isdigit u
         in if ds = [] then (0, s)
            else ((if neg then - dec_value ds else dec_value ds), dropWhile isdigit u))
      else (0, s))"

definition pow10 :: "int \<Rightarrow> rat" where
  "pow10 e = (if 0 \<le> e then 10 ^ nat e else 1 / 10 ^ nat (- e))"

definition strtod :: "string \<Rightarrow> rat \<times> string" where
  "strtod s =
     (let (neg, u) = split_sign (dropWhile isspace s);
          ip = takeWhile isdigit u;
          r1 = dropWhile isdigit u;
          dot = (r1 \<noteq> [] \<and> hd r1 = CHR ''.'');
          fp = (if dot then takeWhile isdigit (tl r1) else []);
          r2 = (if dot then dropWhile isdigit (tl r1) else r1)
      in if ip = [] \<and> fp = [] then (0, s)
         else (let (e, r3) = split_exponent r2;
                   m = of_int (dec_value (ip @ fp)) * pow10 (e - int (length fp))
               in (if neg then - m else m, r3)))"

definition atof :: "string \<Rightarrow> rat" where
  "atof s = fst (strtod s)"

text \<open>\<open>strchr\<close>: the characters before the first occurrence and those after it.\<close>

definition strchr :: "string \<Rightarrow> char \<Rightarrow> (string \<times> string) option" where
  "strchr s c =
     (if c \<in> set s then Some (takeWhile (\<lambda>x. x \<noteq> c) s, tl (dropWhile (\<lambda>x. x \<noteq> c) s)) else None)"

fun is_prefix :: "string \<Rightarrow> string \<Rightarrow> bool" where
  "is_prefix [] s = True"
| "is_prefix (x # xs) [] = False"
| "is_prefix (x # xs) (y # ys) = (x = y \<and> is_prefix xs ys)"

text \<open>\<open>strstr(s, p) != NULL\<close>.\<close>

fun has_substr :: "string \<Rightarrow> string \<Rightarrow> bool" where
  "has_substr [] p = is_prefix p []"
| "has_substr (x # xs) p = (is_prefix p (x # xs) \<or> has_substr xs p)"

section \<open>Decimal printing\<close>

definition digit_char :: "nat \<Rightarrow> char" where
  "digit_char d = char_of (48 + d)"

fun show_nat :: "nat \<Rightarrow> string" where
  "show_nat n = (if n < 10 then [digit_char n] else show_nat (n div 10) @ [digit_char (n mod 10)])"

declare show_nat.simps [simp del]

definition show_int :: "int \<Rightarrow> string" where
  "show_int x = (if x < 0 then CHR ''-'' # show_nat (nat (- x)) else show_nat (nat x))"

lemma digit_val_char: "d < 10 \<Longrightarrow> digit_val (digit_char d) = int d"
  by (simp add: digit_val_def digit_char_def)

lemma isdigit_code: "isdigit c \<longleftrightarrow> 48 \<le> (of_char c :: nat) \<and> (of_char c :: nat) < 58"
proof
  assume "isdigit c"
  then show "48 \<le> (of_char c :: nat) \<and> (of_char c :: nat) < 58"
    by (auto simp: isdigit_def)
next
  assume r: "48 \<le> (of_char c :: nat) \<and> (of_char c :: nat) < 58"
  have c: "c = char_of (of_char c :: nat)" by simp
  obtain k where k: "k = (of_char c :: nat)" by simp
  with r have "k = 48 \<or> k = 49 \<or> k = 50 \<or> k = 51 \<or> k = 52 \<or> k = 53 \<or> k = 54 \<or> k = 55
      \<or> k = 56 \<or> k = 57"
    by presburger
  with c k show "isdigit c"
    by (elim disjE) (simp_all add: isdigit_def char_of_def bit_iff_odd)
qed

lemma isdigit_digit_char [simp]: "d < 10 \<Longrightarrow> isdigit (digit_char d)"
  by (simp add: isdigit_code digit_char_def)

lemma not_isspace_isdigit: "isdigit c \<Longrightarrow> \<not> isspace c"
  by (auto simp: isdigit_def isspace_def)

lemma isdigit_not_sign: "isdigit c \<Longrightarrow> c \<noteq> CHR ''-'' \<and> c \<noteq> CHR ''+''"
  by (auto simp: isdigit_def)

lemma show_nat_digits: "\<forall>c \<in> set (show_nat n). isdigit c"
proof (induction n rule: show_nat.induct)
  case (1 n)
  then show ?case by (subst show_nat.simps) auto
qed

lemma show_nat_not_Nil [simp]: "show_nat n \<noteq> []"
  by (subst show_nat.simps) simp

lemma dec_value_snoc: "dec_value (ds @ [c]) = 10 * dec_value ds + digit_val c"
  by (simp add: dec_value_def)

lemma dec_value_show_nat: "dec_value (show_nat n) = int n"
proof (induction n rule: show_nat.induct)
  case (1 n)
  show ?case
  proof (cases "n < 10")
    case True
    then show ?thesis by (subst show_nat.simps) (simp add: dec_value_def digit_val_char)
  next
    case False
    then have "dec_value (show_nat n) = 10 * int (n div 10) + int (n mod 10)"
      using 1 by (subst show_nat.simps) (simp add: dec_value_snoc digit_val_char)
    then show ?thesis by presburger
  qed
qed

lemma dropWhile_no_hd: "xs \<noteq> [] \<Longrightarrow> \<not> P (hd xs) \<Longrightarrow> dropWhile P xs = xs"
  by (cases xs) auto

text \<open>A printed number followed by a non-digit is read back, and the rest is what followed.\<close>

lemma strtol_show_nat:
  assumes "int n \<le> LONG_MAX" and "rest = [] \<or> \<not> isdigit (hd rest)"
  shows "strtol (show_nat n @ rest) = (int n, rest)"
proof -
  let ?d = "show_nat n"
  have hd: "isdigit (hd (?d @ rest))"
    using show_nat_digits[of n] by (simp add: hd_append)
  have sp: "dropWhile isspace (?d @ rest) = ?d @ rest"
    by (rule dropWhile_no_hd) (use hd not_isspace_isdigit in auto)
  have sg: "split_sign (?d @ rest) = (False, ?d @ rest)"
    using isdigit_not_sign[OF hd] by (simp add: split_sign_def)
  have rest': "takeWhile isdigit rest = []" "dropWhile isdigit rest = rest"
    using assms(2) by (cases rest; simp)+
  have tw: "takeWhile isdigit (?d @ rest) = ?d" "dropWhile isdigit (?d @ rest) = rest"
    using show_nat_digits[of n] rest' by (simp_all add: takeWhile_append dropWhile_append)
  show ?thesis
    using assms(1) by (simp add: strtol_def sp sg tw dec_value_show_nat LONG_MIN_def)
qed

lemmas strtol_show_nat_end = strtol_show_nat [where rest = "[]", simplified]

lemma strtol_bounds: "LONG_MIN \<le> fst (strtol s) \<and> fst (strtol s) \<le> LONG_MAX"
proof -
  have c: "LONG_MIN \<le> max LONG_MIN (min LONG_MAX v) \<and> max LONG_MIN (min LONG_MAX v) \<le> LONG_MAX" for v
    by (simp add: LONG_MIN_def LONG_MAX_def)
  have z: "LONG_MIN \<le> 0" "0 \<le> LONG_MAX"
    by (simp_all add: LONG_MIN_def LONG_MAX_def)
  show ?thesis by (simp add: strtol_def Let_def split_def c z del: max.bounded_iff)
qed

lemma show_nat_inj: "show_nat m = show_nat n \<Longrightarrow> m = n"
  by (metis dec_value_show_nat of_nat_eq_iff)

lemma strchr_None_iff: "strchr s c = None \<longleftrightarrow> c \<notin> set s"
  by (simp add: strchr_def)

lemma strchr_Nil [simp]: "strchr [] c = None"
  by (simp add: strchr_def)

lemma strchr_Cons [simp]:
  "strchr (x # s) c =
     (if x = c then Some ([], s) else map_option (\<lambda>(a, b). (x # a, b)) (strchr s c))"
  by (simp add: strchr_def)

lemma strchr_Some: "strchr s c = Some (a, b) \<Longrightarrow> s = a @ c # b \<and> c \<notin> set a"
  by (induction s arbitrary: a) (auto split: if_splits)

lemma strchr_append [simp]: "c \<notin> set a \<Longrightarrow> strchr (a @ c # b) c = Some (a, b)"
  by (induction a) auto

lemma strchr_shorter: "strchr s c = Some (a, b) \<Longrightarrow> length b < length s"
  by (auto dest: strchr_Some)

end
