(* ===== verification/MiscHelpers.thy ===== *)
theory MiscHelpers
  imports CLib
begin

text \<open>
  The text helpers of \<open>src/base/MiscHelpers.cpp\<close> and \<open>src/misc.cpp\<close>: splitting comma separated
  lists, converting resource strings with units to numbers, and the comment test of the
  configuration files.
\<close>

section \<open>Definitions\<close>

text \<open>\<open>is_num\<close>: everything that begins with a digit is a number.\<close>

definition is_num :: "string \<Rightarrow> bool" where
  "is_num value = (value \<noteq> [] \<and> isdigit (hd value))"

text \<open>
  \<open>comma_list_to_set\<close>: the words in the order the loop inserts them.  Blanks after a comma are
  skipped, blanks before it are kept.
\<close>

function comma_words :: "string \<Rightarrow> string list" where
  "comma_words list =
     (case strchr list (CHR '','') of
        None \<Rightarrow> [list]
      | Some (word, tok) \<Rightarrow> word # comma_words (dropWhile isspace tok))"
  by pat_completeness auto
termination
  by (relation "measure length")
    (auto dest!: strchr_shorter intro: le_less_trans [OF length_dropWhile_le])

declare comma_words.simps [simp del]

definition comma_list_to_set :: "string \<Rightarrow> string set \<Rightarrow> string set" where
  "comma_list_to_set list s = s \<union> set (comma_words list)"

text \<open>
  \<open>res_to_num\<close>.  \<open>KILO\<close> is an \<open>unsigned long\<close>, so \<open>count /= KILO\<close> divides the unsigned
  reading of \<open>count\<close>.
\<close>

definition KILO :: int where "KILO = 1024"
definition MEGATOKILO :: int where "MEGATOKILO = 1024"
definition GIGATOKILO :: int where "GIGATOKILO = 1048576"
definition TERATOKILO :: int where "TERATOKILO = 1073741824"
definition SIZE_OF_WORD :: int where "SIZE_OF_WORD = 8"

definition div_kilo :: "int \<Rightarrow> int" where
  "div_kilo count = to_sll (to_ull count div KILO)"

text \<open>The \<open>count\<close> of a time and the end pointer, from the text after the first colon.\<close>

definition time_count :: "int \<Rightarrow> string \<Rightarrow> string \<Rightarrow> int \<times> string" where
  "time_count count endp rest =
     (let (count2, endp2) = strtol rest
      in if endp2 \<noteq> [] \<and> hd endp2 = CHR '':'' then
           (let (secs, endp') = strtol (tl endp2);
                c = to_sll (to_sll (to_sll (count * 3600) + to_sll (count2 * 60)) + secs)
            in (if endp' \<noteq> [] then RESC_UNSPECIFIED else c, endp'))
         else (to_sll (to_sll (count * 60) + count2), endp))"

definition res_to_num :: "string \<Rightarrow> int" where
  "res_to_num res_str =
     (let (count0, endp0) = strtol res_str;
          e = (if endp0 = [] then None else Some (hd endp0));
          (count, endp, multiplier) =
            (if e = Some (CHR '':'') then
               (let (c, endp') = time_count count0 endp0 (tl endp0) in (c, endp', 1))
             else if e = Some (CHR ''k'') \<or> e = Some (CHR ''K'') then (count0, endp0, 1)
             else if e = Some (CHR ''m'') \<or> e = Some (CHR ''M'') then (count0, endp0, MEGATOKILO)
             else if e = Some (CHR ''g'') \<or> e = Some (CHR ''G'') then (count0, endp0, GIGATOKILO)
             else if e = Some (CHR ''t'') \<or> e = Some (CHR ''T'') then (count0, endp0, TERATOKILO)
             else if e = Some (CHR ''b'') \<or> e = Some (CHR ''B'') then (div_kilo count0, endp0, 1)
             else if e = Some (CHR ''w'') then (div_kilo count0, endp0, SIZE_OF_WORD)
             else (count0, endp0, 1));
          multiplier' =
            (if endp \<noteq> [] \<and> tl endp \<noteq> [] \<and> hd (tl endp) = CHR ''w''
             then multiplier * SIZE_OF_WORD else multiplier)
      in to_sll (count * multiplier'))"

text \<open>\<open>skip_line\<close> of the configuration readers: blank lines and comments.\<close>

definition skip_line :: "string \<Rightarrow> bool" where
  "skip_line line =
     (let l = dropWhile isspace line
      in l = [] \<or> hd l = CHR ''#'' \<or> hd l = CHR ''*'')"

text \<open>
  \<open>break_comma_list\<close> and the \<open>strtok\<close> it loops over: maximal runs of characters that are not
  delimiters, so empty words disappear.
\<close>

function strtok_words :: "char set \<Rightarrow> string \<Rightarrow> string list" where
  "strtok_words delim s =
     (let t = dropWhile (\<lambda>c. c \<in> delim) s
      in if t = [] then []
         else takeWhile (\<lambda>c. c \<notin> delim) t # strtok_words delim (dropWhile (\<lambda>c. c \<notin> delim) t))"
  by pat_completeness auto

lemma strtok_rest_shorter:
  assumes "dropWhile (\<lambda>c. c \<in> D) s \<noteq> []"
  shows "length (dropWhile (\<lambda>c. c \<notin> D) (dropWhile (\<lambda>c. c \<in> D) s)) < length s"
proof -
  obtain x xs where t: "dropWhile (\<lambda>c. c \<in> D) s = x # xs"
    using assms by (cases "dropWhile (\<lambda>c. c \<in> D) s") auto
  then have "x \<notin> D" by (metis hd_dropWhile list.sel(1) list.distinct(1))
  then have "length (dropWhile (\<lambda>c. c \<notin> D) (x # xs)) \<le> length xs"
    by (simp add: length_dropWhile_le)
  moreover have "length (x # xs) \<le> length s"
    using length_dropWhile_le[of "\<lambda>c. c \<in> D" s] t by simp
  ultimately show ?thesis using t by simp
qed

termination strtok_words
  by (relation "measure (\<lambda>(d, s). length s)") (auto simp: strtok_rest_shorter)

declare strtok_words.simps [simp del]

definition break_comma_list :: "string option \<Rightarrow> string list option" where
  "break_comma_list list = map_option (strtok_words {CHR '',''}) list"

section \<open>Comma separated lists\<close>

lemma comma_words_no_comma: "w \<in> set (comma_words s) \<Longrightarrow> CHR '','' \<notin> set w"
proof (induction s rule: comma_words.induct)
  case (1 s)
  then show ?case
    by (subst (asm) (2) comma_words.simps)
      (auto split: option.splits dest: strchr_Some simp: strchr_None_iff)
qed

lemma comma_words_not_Nil: "comma_words s \<noteq> []"
  by (subst comma_words.simps) (auto split: option.splits)

fun comma_join :: "string list \<Rightarrow> string" where
  "comma_join [] = []"
| "comma_join [w] = w"
| "comma_join (w # ws) = w @ CHR '','' # comma_join ws"

definition comma_word_ok :: "string \<Rightarrow> bool" where
  "comma_word_ok w \<longleftrightarrow> CHR '','' \<notin> set w \<and> (w \<noteq> [] \<longrightarrow> \<not> isspace (hd w))"

lemma comma_join_hd:
  "\<forall>w \<in> set ws. comma_word_ok w \<Longrightarrow> comma_join ws \<noteq> [] \<Longrightarrow> \<not> isspace (hd (comma_join ws))"
proof (induction ws rule: comma_join.induct)
  case (3 w v vs)
  then show ?case by (cases w) (auto simp: comma_word_ok_def isspace_def)
qed (auto simp: comma_word_ok_def)

lemma comma_words_join:
  "ws \<noteq> [] \<Longrightarrow> \<forall>w \<in> set ws. comma_word_ok w \<Longrightarrow> comma_words (comma_join ws) = ws"
proof (induction ws rule: comma_join.induct)
  case (2 w)
  then show ?case
    by (subst comma_words.simps) (simp add: comma_word_ok_def flip: strchr_None_iff)
next
  case (3 w v vs)
  have d: "dropWhile isspace (comma_join (v # vs)) = comma_join (v # vs)"
    using comma_join_hd[of "v # vs"] 3
    by (cases "comma_join (v # vs) = []") (auto intro: dropWhile_no_hd)
  from 3 have "CHR '','' \<notin> set w" by (simp add: comma_word_ok_def)
  then show ?case
    using 3 d by (subst comma_words.simps) simp
qed simp

section \<open>Resource values\<close>

lemma res_to_num_plain:
  "int n \<le> LONG_MAX \<Longrightarrow> res_to_num (show_nat n) = int n"
  by (simp add: res_to_num_def strtol_show_nat_end LONG_MAX_def to_sll_id)

text \<open>One lemma for the unit suffixes: a suffix is a unit letter and a second letter that is not \<open>w\<close>.\<close>

lemma res_to_num_unit:
  assumes "int n \<le> LONG_MAX"
    and "u \<in> set ''kKmMgGtT''" and "rest = [] \<or> hd rest \<noteq> CHR ''w''"
  shows "res_to_num (show_nat n @ u # rest) =
     to_sll (int n * (if u \<in> set ''kK'' then 1 else if u \<in> set ''mM'' then MEGATOKILO
                      else if u \<in> set ''gG'' then GIGATOKILO else TERATOKILO))"
proof -
  have "\<not> isdigit u" using assms(2) by (auto simp: isdigit_def)
  then have "strtol (show_nat n @ u # rest) = (int n, u # rest)"
    using assms(1) by (intro strtol_show_nat) auto
  moreover have "u = CHR ''k'' \<or> u = CHR ''K'' \<or> u = CHR ''m'' \<or> u = CHR ''M'' \<or> u = CHR ''g'' \<or>
      u = CHR ''G'' \<or> u = CHR ''t'' \<or> u = CHR ''T''"
    using assms(2) by simp
  moreover have "\<not> (rest \<noteq> [] \<and> hd rest = CHR ''w'')" using assms(3) by blast
  ultimately show ?thesis
    by (elim disjE; simp add: res_to_num_def; blast)
qed

lemma res_to_num_KB: "int n \<le> LONG_MAX \<Longrightarrow> res_to_num (show_nat n @ ''KB'') = int n"
  using res_to_num_unit[of n "CHR ''K''" "''B''"] by (simp add: LONG_MAX_def to_sll_id)

lemma res_to_num_mb:
  "int n * 1024 \<le> LONG_MAX \<Longrightarrow> res_to_num (show_nat n @ ''mb'') = int n * 1024"
  using res_to_num_unit[of n "CHR ''m''" "''b''"]
  by (simp add: LONG_MAX_def MEGATOKILO_def to_sll_id)

lemma isdigit_colon [simp]: "\<not> isdigit (CHR '':'')"
  by (simp add: isdigit_def)

lemma res_to_num_hms:
  assumes "int h * 3600 + int m * 60 + int s \<le> LONG_MAX"
  shows "res_to_num (show_nat h @ CHR '':'' # show_nat m @ CHR '':'' # show_nat s) =
     int h * 3600 + int m * 60 + int s"
proof -
  have b: "int h \<le> LONG_MAX" "int m \<le> LONG_MAX" "int s \<le> LONG_MAX"
    using assms by simp_all
  have 1: "strtol (show_nat h @ CHR '':'' # show_nat m @ CHR '':'' # show_nat s)
      = (int h, CHR '':'' # show_nat m @ CHR '':'' # show_nat s)"
    by (rule strtol_show_nat) (use b in auto)
  have 2: "strtol (show_nat m @ CHR '':'' # show_nat s) = (int m, CHR '':'' # show_nat s)"
    by (rule strtol_show_nat) (use b in auto)
  have 3: "strtol (show_nat s) = (int s, [])"
    by (rule strtol_show_nat_end) (use b in auto)
  have w: "to_sll (int h * 3600) = int h * 3600" "to_sll (int m * 60) = int m * 60"
    "to_sll (int h * 3600 + int m * 60) = int h * 3600 + int m * 60"
    "to_sll (int h * 3600 + int m * 60 + int s) = int h * 3600 + int m * 60 + int s"
    using assms by (simp_all add: LONG_MAX_def to_sll_id)
  show ?thesis by (simp add: res_to_num_def 1 2 3 time_count_def w)
qed

lemma res_to_num_bounds: "- (2 ^ 63) \<le> res_to_num s \<and> res_to_num s < 2 ^ 63"
  unfolding res_to_num_def Let_def split_def by (rule to_sll_bounds)

text \<open>A negative number of bytes is divided as an unsigned value and becomes a huge positive one.\<close>

lemma div_kilo_neg:
  assumes "- (2 ^ 63) \<le> c" "c < 0"
  shows "div_kilo c = (2 ^ 64 + c) div 1024"
proof -
  have "to_ull c = (c + 2 ^ 64) mod 2 ^ 64" by (simp add: to_ull_def)
  also have "\<dots> = c + 2 ^ 64" by (rule mod_pos_pos_trivial) (use assms in simp_all)
  finally have "to_ull c = 2 ^ 64 + c" by simp
  moreover have "0 \<le> (2 ^ 64 + c) div 1024" "(2 ^ 64 + c) div 1024 < 2 ^ 63"
    using assms by auto
  ultimately show ?thesis by (simp add: div_kilo_def KILO_def to_sll_id del: div_add_self1)
qed

end
