(* ===== verification/Resource.thy ===== *)
theory Resource
  imports MiscHelpers
begin

text \<open>
  Resources: \<open>src/base/Resource.cpp\<close>, \<open>src/base/DynamicResource.cpp\<close> and
  \<open>src/base/ResourceSet.cpp\<close>.  A \<open>ResourceSet\<close> maps names to shared pointers, so the model keeps the
  resources in an explicit store (\<open>rheap\<close>) and a set holds addresses into it: copying a set
  allocates, joining two sets may share.  The locale \<open>reservable\<close> states what the scheduler relies
  on when it books and unbooks amounts; it is interpreted on both kinds of resource.
\<close>

section \<open>A single resource\<close>

datatype CheckResult = CheckAvailable | CheckOccupied | CheckNonFit

datatype ResourceType = ResourceStatic | ResourceDynamic | ResourceString

record resource =
  r_type :: ResourceType
  r_name :: string
  r_str_val :: string
  r_avail :: int
  r_max :: int
  r_assign :: int

definition new_resource :: "string \<Rightarrow> resource" where
  "new_resource name =
     \<lparr>r_type = ResourceStatic, r_name = name, r_str_val = [],
      r_avail = RESC_UNSPECIFIED, r_max = RESC_INFINITY, r_assign = RESC_UNSPECIFIED\<rparr>"

definition set_capacity :: "resource \<Rightarrow> string \<Rightarrow> resource" where
  "set_capacity r value =
     (if is_num value then
        r\<lparr>r_max := res_to_num value, r_str_val := value, r_type := ResourceStatic\<rparr>
      else
        r\<lparr>r_max := RESC_UNSPECIFIED, r_avail := RESC_UNSPECIFIED, r_assign := RESC_UNSPECIFIED,
          r_str_val := value, r_type := ResourceString\<rparr>)"

definition set_avail :: "resource \<Rightarrow> string \<Rightarrow> resource" where
  "set_avail r value =
     (if is_num value then
        r\<lparr>r_avail := res_to_num value, r_max := RESC_UNSPECIFIED, r_str_val := value,
          r_type := ResourceDynamic\<rparr>
      else
        r\<lparr>r_avail := 0, r_max := RESC_UNSPECIFIED, r_str_val := value, r_type := ResourceString\<rparr>)"

definition set_utilization :: "resource \<Rightarrow> int \<Rightarrow> resource" where
  "set_utilization r value = r\<lparr>r_assign := value\<rparr>"

definition set_utilization_str :: "resource \<Rightarrow> string \<Rightarrow> resource" where
  "set_utilization_str r value = set_utilization r (res_to_num value)"

definition consume_resource :: "resource \<Rightarrow> int \<Rightarrow> resource" where
  "consume_resource r value = r\<lparr>r_assign := r_assign r + value\<rparr>"

definition consume_resource_str :: "resource \<Rightarrow> string \<Rightarrow> resource" where
  "consume_resource_str r value = consume_resource r (res_to_num value)"

definition freeup_resource :: "resource \<Rightarrow> int \<Rightarrow> resource" where
  "freeup_resource r value = r\<lparr>r_assign := r_assign r - value\<rparr>"

definition freeup_resource_str :: "resource \<Rightarrow> string \<Rightarrow> resource" where
  "freeup_resource_str r value = freeup_resource r (res_to_num value)"

definition reset_resource :: "resource \<Rightarrow> resource" where
  "reset_resource r =
     r\<lparr>r_type := ResourceStatic, r_avail := RESC_UNSPECIFIED, r_max := RESC_UNSPECIFIED,
       r_assign := RESC_UNSPECIFIED\<rparr>"

definition is_string :: "resource \<Rightarrow> bool" where
  "is_string r = (r_type r = ResourceString)"

definition check_numeric_fit :: "resource \<Rightarrow> int \<Rightarrow> CheckResult" where
  "check_numeric_fit r amount =
     (if r_max r \<noteq> RESC_INFINITY \<and> r_max r \<noteq> RESC_UNSPECIFIED \<and> r_max r < amount then CheckNonFit
      else if r_max r = RESC_UNSPECIFIED \<or> r_max r = RESC_INFINITY then
        (if r_avail r - r_assign r \<ge> amount then CheckAvailable else CheckOccupied)
      else (if r_max r - r_assign r \<ge> amount then CheckAvailable else CheckOccupied))"

definition check_fit :: "resource \<Rightarrow> string \<Rightarrow> CheckResult" where
  "check_fit r value =
     (if is_string r then (if r_str_val r \<noteq> value then CheckNonFit else CheckAvailable)
      else check_numeric_fit r (res_to_num value))"

section \<open>Dynamic resources\<close>

record dynamic_resource =
  dr_avail :: int
  dr_assigned :: int
  dr_reported_use :: int
  dr_scheduled_use :: int
  dr_name :: string

definition empty_dynamic_resource :: dynamic_resource where
  "empty_dynamic_resource =
     \<lparr>dr_avail = - 1, dr_assigned = 0, dr_reported_use = - 1, dr_scheduled_use = 0, dr_name = []\<rparr>"

text \<open>The constructor from a string \<open>avail;used\<close>.\<close>

definition new_dynamic_resource :: "string \<Rightarrow> string \<Rightarrow> dynamic_resource" where
  "new_dynamic_resource name value =
     (let (v1, i1) = strtol value;
          v2 = (if i1 \<noteq> [] \<and> hd i1 = CHR '';'' then
                  (let (v, i2) = strtol (tl i1) in if i2 \<noteq> [] then - 1 else v)
                else - 1)
      in \<lparr>dr_avail = v1, dr_assigned = 0, dr_reported_use = v2, dr_scheduled_use = 0, dr_name = name\<rparr>)"

definition add_assigned :: "dynamic_resource \<Rightarrow> int \<Rightarrow> dynamic_resource" where
  "add_assigned d v = d\<lparr>dr_assigned := dr_assigned d + v\<rparr>"

definition add_scheduled :: "dynamic_resource \<Rightarrow> int \<Rightarrow> dynamic_resource" where
  "add_scheduled d v = d\<lparr>dr_scheduled_use := dr_scheduled_use d + v\<rparr>"

definition remove_scheduled :: "dynamic_resource \<Rightarrow> int \<Rightarrow> dynamic_resource" where
  "remove_scheduled d v = d\<lparr>dr_scheduled_use := dr_scheduled_use d - v\<rparr>"

definition would_fit :: "dynamic_resource \<Rightarrow> int \<Rightarrow> bool" where
  "would_fit d amount =
     (if dr_reported_use d \<ge> 0 then
        (let dynamic = dr_scheduled_use d - dr_reported_use d;
             dynamic' = (if dynamic < 0 then 0 else dynamic)
         in dr_avail d - dr_assigned d - dynamic' \<ge> amount)
      else dr_avail d - dr_assigned d \<ge> amount)"

section \<open>Sets of resources\<close>

type_synonym rheap = "resource list"
type_synonym resource_set = "nat smap"

definition rs_get_resource :: "resource_set \<Rightarrow> string \<Rightarrow> nat option" where
  "rs_get_resource s name = smap_find s name"

definition get_alloc_resource :: "rheap \<Rightarrow> resource_set \<Rightarrow> string \<Rightarrow> rheap \<times> resource_set \<times> nat" where
  "get_alloc_resource h s name =
     (case smap_find s name of
        None \<Rightarrow> (h @ [new_resource name], smap_insert name (length h) s, length h)
      | Some a \<Rightarrow> (h, s, a))"

text \<open>The copy constructor and the assignment operator: every resource is copied into a new cell.\<close>

fun copy_entries :: "rheap \<Rightarrow> resource_set \<Rightarrow> resource_set \<Rightarrow> rheap \<times> resource_set" where
  "copy_entries h acc [] = (h, acc)"
| "copy_entries h acc ((k, a) # rest) =
     copy_entries (h @ [h ! a]) (smap_insert k (length h) acc) rest"

definition copy_resource_set :: "rheap \<Rightarrow> resource_set \<Rightarrow> rheap \<times> resource_set" where
  "copy_resource_set h src = copy_entries h [] src"

fun join_entries :: "rheap \<Rightarrow> resource_set \<Rightarrow> resource_set \<Rightarrow> rheap \<times> resource_set" where
  "join_entries h s [] = (h, s)"
| "join_entries h s ((k, b) # rest) =
     (case smap_find s k of
        Some a \<Rightarrow>
          join_entries (h[a := set_utilization (h ! a) (max (r_assign (h ! a)) (r_assign (h ! b)))]) s rest
      | None \<Rightarrow> join_entries h (smap_insert k b s) rest)"

definition join_resources :: "rheap \<Rightarrow> resource_set \<Rightarrow> resource_set \<Rightarrow> rheap \<times> resource_set" where
  "join_resources h s right = join_entries h s right"

text \<open>What a set shows for a name: the resource its pointer leads to.\<close>

definition rs_lookup :: "rheap \<Rightarrow> resource_set \<Rightarrow> string \<Rightarrow> resource option" where
  "rs_lookup h s name = map_option (\<lambda>a. h ! a) (smap_find s name)"

definition rs_addrs :: "resource_set \<Rightarrow> nat set" where
  "rs_addrs s = snd ` set s"

text \<open>Every pointer leads into the store, and no two names share a resource.\<close>

definition rs_ok :: "rheap \<Rightarrow> resource_set \<Rightarrow> bool" where
  "rs_ok h s \<longleftrightarrow> smap_ok s \<and> (\<forall>a \<in> rs_addrs s. a < length h) \<and> distinct (map snd s)"

section \<open>Booking and releasing\<close>

text \<open>
  What a client may rely on when it books an amount against a capacity: releasing undoes a booking,
  bookings add up, a booking never makes room, and a smaller request fits where a larger one does.
\<close>

locale reservable =
  fixes reserve :: "'r \<Rightarrow> int \<Rightarrow> 'r"
    and release :: "'r \<Rightarrow> int \<Rightarrow> 'r"
    and fits :: "'r \<Rightarrow> int \<Rightarrow> bool"
  assumes release_reserve: "release (reserve r v) v = r"
    and reserve_reserve: "reserve (reserve r v) w = reserve r (v + w)"
    and release_release: "release (release r v) w = release r (v + w)"
    and fits_reserve: "0 \<le> v \<Longrightarrow> fits (reserve r v) a \<Longrightarrow> fits r a"
    and fits_less: "fits r a \<Longrightarrow> b \<le> a \<Longrightarrow> fits r b"
begin

definition reserve_all :: "int list \<Rightarrow> 'r \<Rightarrow> 'r" where
  "reserve_all vs r = fold (\<lambda>v s. reserve s v) vs r"

lemma reserve_all_sum: "reserve_all (v # vs) r = reserve r (v + sum_list vs)"
proof (induction vs arbitrary: v r)
  case Nil
  then show ?case by (simp add: reserve_all_def)
next
  case (Cons w ws)
  have "reserve_all (v # w # ws) r = reserve_all (w # ws) (reserve r v)"
    by (simp add: reserve_all_def)
  also have "\<dots> = reserve (reserve r v) (w + sum_list ws)" by (rule Cons)
  finally show ?case by (simp add: reserve_reserve)
qed

lemma reserve_commute: "reserve (reserve r v) w = reserve (reserve r w) v"
  by (simp add: reserve_reserve add.commute)

lemma release_all:
  "fold (\<lambda>v s. release s v) vs (reserve_all vs r) = r"
proof (cases vs)
  case Nil
  then show ?thesis by (simp add: reserve_all_def)
next
  case (Cons v ws)
  have rel: "fold (\<lambda>v s. release s v) (v # ws) s = release s (v + sum_list ws)" for s
    by (induction ws arbitrary: v s) (simp_all add: release_release add.assoc)
  show ?thesis
    using Cons rel[of "reserve_all vs r"] reserve_all_sum[of v ws r] release_reserve by simp
qed

lemma still_full:
  assumes "\<forall>v \<in> set vs. 0 \<le> v" and "\<not> fits r a"
  shows "\<not> fits (reserve_all vs r) a"
  using assms
proof (induction vs arbitrary: r)
  case Nil
  then show ?case by (simp add: reserve_all_def)
next
  case (Cons v vs)
  then have "\<not> fits (reserve r v) a" using fits_reserve by auto
  then show ?case using Cons by (simp add: reserve_all_def)
qed

end

definition resource_fits :: "resource \<Rightarrow> int \<Rightarrow> bool" where
  "resource_fits r a = (check_numeric_fit r a = CheckAvailable)"

lemmas resource_defs =
  set_utilization_def consume_resource_def freeup_resource_def check_numeric_fit_def resource_fits_def

lemmas dynamic_defs = add_assigned_def add_scheduled_def remove_scheduled_def would_fit_def

interpretation static: reservable consume_resource freeup_resource resource_fits
  by unfold_locales (auto simp: resource_defs algebra_simps split: if_splits)

interpretation dynamic: reservable add_scheduled remove_scheduled would_fit
  by unfold_locales (auto simp: dynamic_defs Let_def algebra_simps split: if_splits)

lemma resource_fits_cases:
  "resource_fits r a \<longleftrightarrow>
     (if r_max r = RESC_UNSPECIFIED \<or> r_max r = RESC_INFINITY then a \<le> r_avail r - r_assign r
      else a \<le> r_max r \<and> a \<le> r_max r - r_assign r)"
  by (auto simp: resource_fits_def check_numeric_fit_def)

text \<open>A resource with a capacity, and utilisation within it.\<close>

definition within_capacity :: "resource \<Rightarrow> bool" where
  "within_capacity r \<longleftrightarrow> 0 \<le> r_max r \<and> 0 \<le> r_assign r \<and> r_assign r \<le> r_max r"

lemma consume_within_capacity:
  "within_capacity r \<Longrightarrow> 0 \<le> v \<Longrightarrow> check_numeric_fit r v = CheckAvailable \<Longrightarrow>
     within_capacity (consume_resource r v)"
  by (auto simp: within_capacity_def resource_defs split: if_splits)

section \<open>Sets: allocation, copying, joining\<close>

lemma rs_ok_Nil [simp]: "rs_ok h []"
  by (simp add: rs_ok_def rs_addrs_def)

lemma rs_addrs_insert:
  "smap_find s k = None \<Longrightarrow> rs_addrs (smap_insert k a s) = insert a (rs_addrs s)"
  by (auto simp: rs_addrs_def smap_insert_def smap_find_None_iff set_insort_key)

lemma rs_find_addr: "smap_find s k = Some a \<Longrightarrow> a \<in> rs_addrs s"
  by (force simp: rs_addrs_def dest: smap_find_Some_mem)

lemma mset_snd_insort:
  "distinct (map snd (insort_key fst (k, a) s)) \<longleftrightarrow> a \<notin> snd ` set s \<and> distinct (map snd s)"
  by (induction s) (auto simp: set_insort_key)

lemma rs_ok_insert:
  assumes "rs_ok h s" "smap_find s k = None" "a < length h'" "length h \<le> length h'" "a \<notin> rs_addrs s"
  shows "rs_ok h' (smap_insert k a s)"
  using assms rs_addrs_insert[OF assms(2), of a]
  by (auto simp: rs_ok_def smap_insert_def smap_find_None_iff mset_snd_insort rs_addrs_def
      smap_ok_def sorted_insort_key distinct_map_fst_insort)

lemma rs_ok_mono: "rs_ok h s \<Longrightarrow> length h \<le> length h' \<Longrightarrow> rs_ok h' s"
  by (auto simp: rs_ok_def)

lemma rs_ok_fresh: "rs_ok h s \<Longrightarrow> length h \<notin> rs_addrs s"
  by (auto simp: rs_ok_def)

lemma rs_inj:
  "rs_ok h s \<Longrightarrow> smap_find s k = Some a \<Longrightarrow> smap_find s k' = Some a \<Longrightarrow> k' = k"
  by (force simp: rs_ok_def distinct_map inj_on_def dest!: smap_find_Some_mem)

lemma rs_addr_less: "rs_ok h s \<Longrightarrow> smap_find s k = Some a \<Longrightarrow> a < length h"
  using rs_find_addr by (auto simp: rs_ok_def)

lemma rs_lookup_append: "rs_ok h s \<Longrightarrow> rs_lookup (h @ x) s k = rs_lookup h s k"
  by (cases "smap_find s k") (auto simp: rs_lookup_def nth_append dest: rs_addr_less)

lemma rs_lookup_insert:
  "smap_find s k = None \<Longrightarrow>
     rs_lookup h (smap_insert k a s) k' = (if k' = k then Some (h ! a) else rs_lookup h s k')"
  by (simp add: rs_lookup_def smap_simps)

lemma get_alloc_resource_ok:
  assumes "rs_ok h s" and "get_alloc_resource h s name = (h', s', a)"
  shows "rs_ok h' s' \<and> smap_find s' name = Some a \<and> a < length h' \<and> length h \<le> length h' \<and>
     (\<forall>k. k \<noteq> name \<longrightarrow> rs_lookup h' s' k = rs_lookup h s k) \<and>
     rs_lookup h' s' name = Some (case rs_lookup h s name of None \<Rightarrow> new_resource name | Some r \<Rightarrow> r)"
proof (cases "smap_find s name")
  case None
  then have eq: "h' = h @ [new_resource name]" "s' = smap_insert name (length h) s" "a = length h"
    using assms(2) by (auto simp: get_alloc_resource_def)
  have "rs_ok h' s'"
    unfolding eq by (rule rs_ok_insert[OF assms(1) None]) (use rs_ok_fresh[OF assms(1)] in auto)
  moreover have "rs_lookup h s name = None" using None by (simp add: rs_lookup_def)
  ultimately show ?thesis
    using None
    by (simp add: eq smap_simps rs_lookup_insert rs_lookup_append[OF assms(1)])
next
  case (Some b)
  then have "h' = h" "s' = s" "a = b" using assms(2) by (auto simp: get_alloc_resource_def)
  moreover have "b < length h" using assms(1) rs_find_addr[OF Some] by (auto simp: rs_ok_def)
  ultimately show ?thesis using assms(1) Some by (simp add: rs_lookup_def)
qed

text \<open>
  Copying: the copy shows the same resources, in cells that did not exist before, and no existing
  cell changes.
\<close>

lemma copy_entries_spec:
  assumes "copy_entries h acc src = (h', s')"
    and "rs_ok h acc" and "\<forall>(k, a) \<in> set src. a < n" and "n \<le> length h"
    and "distinct (map fst src)" and "\<forall>k \<in> fst ` set src. smap_find acc k = None"
    and "\<forall>a \<in> rs_addrs acc. n \<le> a"
  shows "rs_ok h' s' \<and> take (length h) h' = h \<and> length h \<le> length h' \<and> (\<forall>a \<in> rs_addrs s'. n \<le> a) \<and>
     (\<forall>k. rs_lookup h' s' k =
        (case map_of src k of Some a \<Rightarrow> Some (h ! a) | None \<Rightarrow> rs_lookup h acc k))"
  using assms
proof (induction src arbitrary: h acc)
  case Nil
  then show ?case by simp
next
  case (Cons e src)
  obtain k a where e: "e = (k, a)" by (cases e)
  let ?h = "h @ [h ! a]" and ?acc = "smap_insert k (length h) acc"
  have kn: "smap_find acc k = None" using Cons.prems(6) e by simp
  have ok: "rs_ok ?h ?acc"
    by (rule rs_ok_insert[OF Cons.prems(2) kn]) (use rs_ok_fresh[OF Cons.prems(2)] in auto)
  have ge: "\<forall>b \<in> rs_addrs ?acc. n \<le> b"
    using Cons.prems(4,7) rs_addrs_insert[OF kn, of "length h"] by auto
  have fresh: "\<forall>k' \<in> fst ` set src. smap_find ?acc k' = None"
    using Cons.prems(5,6) e by (auto simp: smap_simps)
  have "rs_ok h' s' \<and> take (length ?h) h' = ?h \<and> length ?h \<le> length h' \<and> (\<forall>a \<in> rs_addrs s'. n \<le> a) \<and>
     (\<forall>k'. rs_lookup h' s' k' =
        (case map_of src k' of Some b \<Rightarrow> Some (?h ! b) | None \<Rightarrow> rs_lookup ?h ?acc k'))"
    using Cons.prems e ok ge fresh by (intro Cons.IH) auto
  moreover have "take (length h) h' = h" if "take (length ?h) h' = ?h"
    using that by (metis append_eq_conv_conj length_append le_add1 take_take min.absorb1)
  moreover have "map_of src k' = Some b \<Longrightarrow> ?h ! b = h ! b" for k' b
    using Cons.prems(3,4) by (auto simp: nth_append dest!: map_of_SomeD)
  moreover have "k \<notin> fst ` set src" using Cons.prems(5) e by simp
  moreover have "rs_lookup ?h ?acc k' = (if k' = k then Some (h ! a) else rs_lookup h acc k')" for k'
    by (simp add: rs_lookup_insert[OF kn] rs_lookup_append[OF Cons.prems(2)])
  ultimately show ?case
    by (auto simp: e map_of_eq_None_iff split: option.splits)
qed

lemma copy_resource_set_spec:
  assumes "rs_ok h src" and "copy_resource_set h src = (h', s')"
  shows "rs_ok h' s' \<and> take (length h) h' = h \<and> (\<forall>a \<in> rs_addrs s'. length h \<le> a) \<and>
     (\<forall>k. rs_lookup h' s' k = rs_lookup h src k)"
proof -
  have "rs_ok h' s' \<and> take (length h) h' = h \<and> length h \<le> length h' \<and> (\<forall>a \<in> rs_addrs s'. length h \<le> a) \<and>
     (\<forall>k. rs_lookup h' s' k =
        (case map_of src k of Some a \<Rightarrow> Some (h ! a) | None \<Rightarrow> rs_lookup h [] k))"
    using assms unfolding copy_resource_set_def
    by (intro copy_entries_spec) (auto simp: rs_ok_def smap_ok_def rs_addrs_def)
  then show ?thesis
    by (auto simp: rs_lookup_def smap_find_def split: option.splits)
qed

text \<open>
  Joining two sets that live in disjoint cells: a name both sides have gets the larger utilisation
  in the left cell; a name only the right side has is added as a pointer to the right side's cell.
\<close>

definition joined_cell :: "rheap \<Rightarrow> resource_set \<Rightarrow> string \<Rightarrow> nat \<Rightarrow> resource" where
  "joined_cell h right k a =
     (case map_of right k of
        None \<Rightarrow> h ! a
      | Some b \<Rightarrow> set_utilization (h ! a) (max (r_assign (h ! a)) (r_assign (h ! b))))"

definition joined :: "rheap \<Rightarrow> resource_set \<Rightarrow> resource_set \<Rightarrow> rheap \<Rightarrow> resource_set \<Rightarrow> bool" where
  "joined h s right h' s' \<longleftrightarrow>
     length h' = length h \<and> smap_ok s' \<and>
     (\<forall>k. smap_find s' k = (case smap_find s k of Some a \<Rightarrow> Some a | None \<Rightarrow> map_of right k)) \<and>
     (\<forall>a. a \<notin> rs_addrs s \<longrightarrow> h' ! a = h ! a) \<and>
     (\<forall>k a. smap_find s k = Some a \<longrightarrow> h' ! a = joined_cell h right k a)"

lemma joined_new:
  assumes "smap_find s k = None" and "map_of right k = None"
    and "joined h (smap_insert k b s) right h' s'"
  shows "joined h s ((k, b) # right) h' s'"
  unfolding joined_def
proof (intro conjI allI impI)
  let ?s = "smap_insert k b s"
  have fk: "smap_find ?s k = Some b" using assms(1) by (simp add: smap_simps)
  have fo: "k' \<noteq> k \<Longrightarrow> smap_find ?s k' = smap_find s k'" for k' by (simp add: smap_simps)
  show "length h' = length h" "smap_ok s'" using assms(3) by (auto simp: joined_def)
  show "smap_find s' k' = (case smap_find s k' of Some a \<Rightarrow> Some a | None \<Rightarrow> map_of ((k, b) # right) k')" for k'
    using assms fk fo[of k'] by (cases "k' = k") (auto simp: joined_def split: option.splits)
  show "h' ! a = h ! a" if "a \<notin> rs_addrs s" for a
  proof (cases "a = b")
    case True
    then show ?thesis using assms fk by (auto simp: joined_def joined_cell_def)
  next
    case False
    then show ?thesis
      using assms(3) that rs_addrs_insert[OF assms(1), of b] by (auto simp: joined_def)
  qed
  show "h' ! c = joined_cell h ((k, b) # right) k' c" if "smap_find s k' = Some c" for k' c
  proof -
    have "k' \<noteq> k" using that assms(1) by auto
    then show ?thesis using assms(3) that fo[of k'] by (simp add: joined_def joined_cell_def)
  qed
qed

lemma joined_old:
  assumes "smap_find s k = Some a" and "map_of right k = None" and "rs_ok h s"
    and "rs_addrs s \<inter> snd ` set right = {}"
    and "joined (h[a := set_utilization (h ! a) (max (r_assign (h ! a)) (r_assign (h ! b)))]) s right h' s'"
  shows "joined h s ((k, b) # right) h' s'"
  unfolding joined_def
proof (intro conjI allI impI)
  have al: "a < length h" "a \<in> rs_addrs s" using assms(1,3) rs_addr_less rs_find_addr by blast+
  show "length h' = length h" "smap_ok s'" using assms(5) by (auto simp: joined_def)
  show "smap_find s' k' = (case smap_find s k' of Some a \<Rightarrow> Some a | None \<Rightarrow> map_of ((k, b) # right) k')" for k'
    using assms(1,5) by (auto simp: joined_def split: option.splits)
  show "h' ! c = h ! c" if "c \<notin> rs_addrs s" for c
  proof -
    have "c \<noteq> a" using that al by auto
    then show ?thesis using assms(5) that by (auto simp: joined_def)
  qed
  show "h' ! c = joined_cell h ((k, b) # right) k' c" if f: "smap_find s k' = Some c" for k' c
  proof (cases "k' = k")
    case True
    then show ?thesis using assms f al by (simp add: joined_def joined_cell_def)
  next
    case False
    then have "c \<noteq> a" using rs_inj[OF assms(3,1)] f by auto
    moreover have "map_of right k' = Some d \<Longrightarrow> d \<noteq> a" for d
      using assms(4) al by (force dest!: map_of_SomeD)
    ultimately show ?thesis
      using assms(5) f False by (auto simp: joined_def joined_cell_def split: option.splits)
  qed
qed

lemma join_entries_spec:
  assumes "join_entries h s right = (h', s')"
    and "rs_ok h s" and "distinct (map fst right)" and "\<forall>(k, b) \<in> set right. b < length h"
    and "rs_addrs s \<inter> snd ` set right = {}" and "distinct (map snd right)"
  shows "joined h s right h' s'"
  using assms
proof (induction right arbitrary: h s)
  case Nil
  then show ?case by (auto simp: joined_def joined_cell_def rs_ok_def split: option.splits)
next
  case (Cons e right)
  obtain k b where e: "e = (k, b)" by (cases e)
  have kn: "map_of right k = None" using Cons.prems(3) e by (simp add: map_of_eq_None_iff)
  show ?case
  proof (cases "smap_find s k")
    case None
    have "rs_ok h (smap_insert k b s)"
      by (rule rs_ok_insert[OF Cons.prems(2) None]) (use Cons.prems(4,5) e in auto)
    then have "joined h (smap_insert k b s) right h' s'"
      using Cons.prems None e rs_addrs_insert[OF None, of b] by (intro Cons.IH) auto
    then show ?thesis using joined_new[OF None kn] e by simp
  next
    case (Some a)
    let ?h = "h[a := set_utilization (h ! a) (max (r_assign (h ! a)) (r_assign (h ! b)))]"
    have "rs_ok ?h s" using Cons.prems(2) by (auto simp: rs_ok_def)
    then have "joined ?h s right h' s'"
      using Cons.prems Some e by (intro Cons.IH) auto
    moreover have "rs_addrs s \<inter> snd ` set right = {}" using Cons.prems(5) by auto
    ultimately show ?thesis using joined_old[OF Some kn Cons.prems(2)] e by simp
  qed
qed

lemma join_resources_spec:
  assumes "rs_ok h s" and "rs_ok h right" and "rs_addrs s \<inter> rs_addrs right = {}"
    and "join_resources h s right = (h', s')"
  shows "joined h s right h' s'"
  using assms unfolding join_resources_def
  by (intro join_entries_spec) (auto simp: rs_ok_def smap_ok_def rs_addrs_def)

end
