(* ===== verification/PropRegistry.thy ===== *)
theory PropRegistry
  imports Prelude
begin

text \<open>
  The property registry (\<open>src/base/PropRegistry.cpp\<close>): every string resource gets an identifier and
  every value of it an identifier within that resource.  The invariant \<open>reg_ok\<close> ties the two
  directions (name to identifier, identifier to name) together; the locale \<open>id_registry\<close> is what the
  nodes and the placement search rely on.
\<close>

record prop_registry =
  p_properties :: "nat smap"
  p_prop_index :: "string list"
  p_values :: "nat smap list"
  p_val_index :: "string list list"

definition empty_registry :: prop_registry where
  "empty_registry = \<lparr>p_properties = [], p_prop_index = [], p_values = [], p_val_index = []\<rparr>"

text \<open>The first half of \<open>register_property\<close>: the index of the property, registering it if new.\<close>

definition register_name :: "prop_registry \<Rightarrow> string \<Rightarrow> prop_registry \<times> nat" where
  "register_name g property =
     (case smap_find (p_properties g) property of
        None \<Rightarrow>
          (let pi = p_prop_index g @ [property]; index = length pi - 1
           in (g\<lparr>p_prop_index := pi,
                 p_properties := smap_insert property index (p_properties g),
                 p_values := p_values g @ [[]],
                 p_val_index := p_val_index g @ [[]]\<rparr>, index))
      | Some index \<Rightarrow> (g, index))"

text \<open>The second half: the index of the value within the property.\<close>

definition register_value :: "prop_registry \<Rightarrow> nat \<Rightarrow> string \<Rightarrow> prop_registry \<times> nat" where
  "register_value g index value =
     (case smap_find (p_values g ! index) value of
        None \<Rightarrow>
          (let vi = p_val_index g ! index @ [value]; vindex = length vi - 1
           in (g\<lparr>p_val_index := (p_val_index g)[index := vi],
                 p_values := (p_values g)[index := smap_insert value vindex (p_values g ! index)]\<rparr>, vindex))
      | Some vindex \<Rightarrow> (g, vindex))"

definition register_property :: "prop_registry \<Rightarrow> string \<Rightarrow> string \<Rightarrow> prop_registry \<times> nat \<times> nat" where
  "register_property g property value =
     (let (g1, index) = register_name g property;
          (g2, vindex) = register_value g1 index value
      in (g2, index, vindex))"

definition get_property_id :: "prop_registry \<Rightarrow> string \<Rightarrow> bool \<times> nat" where
  "get_property_id g property =
     (case smap_find (p_properties g) property of None \<Rightarrow> (False, 0) | Some i \<Rightarrow> (True, i))"

definition get_value_id :: "prop_registry \<Rightarrow> nat \<Rightarrow> string \<Rightarrow> bool \<times> nat" where
  "get_value_id g property_id value =
     (if property_id \<ge> length (p_prop_index g) then (False, 0)
      else case smap_find (p_values g ! property_id) value of
             None \<Rightarrow> (False, 0) | Some v \<Rightarrow> (True, v))"

definition prop_count :: "prop_registry \<Rightarrow> nat" where
  "prop_count g = length (p_prop_index g)"

definition value_count :: "prop_registry \<Rightarrow> nat \<Rightarrow> bool \<times> nat" where
  "value_count g property_id =
     (if property_id \<ge> length (p_prop_index g) then (False, 0)
      else (True, length (p_val_index g ! property_id)))"

section \<open>The invariant\<close>

text \<open>A map and an index describe each other.\<close>

definition index_ok :: "nat smap \<Rightarrow> string list \<Rightarrow> bool" where
  "index_ok m xs \<longleftrightarrow>
     smap_ok m \<and> (\<forall>k i. smap_find m k = Some i \<longleftrightarrow> i < length xs \<and> xs ! i = k)"

definition reg_ok :: "prop_registry \<Rightarrow> bool" where
  "reg_ok g \<longleftrightarrow>
     index_ok (p_properties g) (p_prop_index g) \<and>
     length (p_values g) = length (p_prop_index g) \<and>
     length (p_val_index g) = length (p_prop_index g) \<and>
     (\<forall>i < length (p_prop_index g). index_ok (p_values g ! i) (p_val_index g ! i))"

lemma index_ok_empty [simp]: "index_ok [] []"
  by (simp add: index_ok_def)

lemma index_ok_find: "index_ok m xs \<Longrightarrow> smap_find m k = Some i \<longleftrightarrow> i < length xs \<and> xs ! i = k"
  by (simp add: index_ok_def)

lemma index_ok_snoc:
  assumes "index_ok m xs" and "smap_find m k = None"
  shows "index_ok (smap_insert k (length xs) m) (xs @ [k])"
  unfolding index_ok_def
proof (intro conjI allI)
  show "smap_ok (smap_insert k (length xs) m)" using assms(1) by (simp add: index_ok_def)
  fix k' i
  have none: "\<not> (i < length xs \<and> xs ! i = k)" using index_ok_find[OF assms(1), of k i] assms(2) by simp
  show "smap_find (smap_insert k (length xs) m) k' = Some i \<longleftrightarrow>
      i < length (xs @ [k]) \<and> (xs @ [k]) ! i = k'"
  proof (cases "k' = k")
    case True
    then show ?thesis using none assms(2) by (auto simp: smap_simps nth_append less_Suc_eq)
  next
    case False
    then show ?thesis
      using index_ok_find[OF assms(1), of k' i] by (auto simp: smap_simps nth_append less_Suc_eq)
  qed
qed

lemma reg_ok_empty: "reg_ok empty_registry"
  by (simp add: reg_ok_def empty_registry_def)

lemma register_name_ok:
  assumes "reg_ok g" and "register_name g p = (g', i)"
  shows "reg_ok g' \<and> i < prop_count g' \<and> smap_find (p_properties g') p = Some i \<and>
     prop_count g \<le> prop_count g' \<and>
     (\<forall>q j. smap_find (p_properties g) q = Some j \<longrightarrow> smap_find (p_properties g') q = Some j) \<and>
     (\<forall>j v w. j < prop_count g \<longrightarrow> smap_find (p_values g ! j) v = Some w \<longrightarrow>
        smap_find (p_values g' ! j) v = Some w)"
proof (cases "smap_find (p_properties g) p")
  case None
  then have eq: "g' = g\<lparr>p_prop_index := p_prop_index g @ [p],
                 p_properties := smap_insert p (length (p_prop_index g)) (p_properties g),
                 p_values := p_values g @ [[]], p_val_index := p_val_index g @ [[]]\<rparr>"
    "i = length (p_prop_index g)"
    using assms(2) by (auto simp: register_name_def Let_def)
  show ?thesis
    using assms(1) None
    by (auto simp: eq reg_ok_def prop_count_def smap_simps index_ok_snoc nth_append less_Suc_eq)
next
  case (Some j)
  then have "g' = g" "i = j" using assms(2) by (auto simp: register_name_def)
  moreover have "j < prop_count g"
    using Some assms(1) index_ok_find by (auto simp: reg_ok_def prop_count_def)
  ultimately show ?thesis using assms(1) Some by simp
qed

lemma register_value_ok:
  assumes "reg_ok g" and "i < prop_count g" and "register_value g i v = (g', w)"
  shows "reg_ok g' \<and> p_properties g' = p_properties g \<and> prop_count g' = prop_count g \<and>
     smap_find (p_values g' ! i) v = Some w \<and> w < length (p_val_index g' ! i) \<and>
     (\<forall>j u x. j < prop_count g \<longrightarrow> smap_find (p_values g ! j) u = Some x \<longrightarrow>
        smap_find (p_values g' ! j) u = Some x)"
proof (cases "smap_find (p_values g ! i) v")
  case None
  then have eq: "g' = g\<lparr>p_val_index := (p_val_index g)[i := p_val_index g ! i @ [v]],
      p_values := (p_values g)[i := smap_insert v (length (p_val_index g ! i)) (p_values g ! i)]\<rparr>"
    "w = length (p_val_index g ! i)"
    using assms(3) by (auto simp: register_value_def Let_def)
  show ?thesis
    using assms(1,2) None
    by (auto simp: eq reg_ok_def prop_count_def smap_simps index_ok_snoc nth_list_update)
next
  case (Some x)
  then have "g' = g" "w = x" using assms(3) by (auto simp: register_value_def)
  moreover have "x < length (p_val_index g ! i)"
    using Some assms(1,2) index_ok_find by (auto simp: reg_ok_def prop_count_def)
  ultimately show ?thesis using assms(1) Some by simp
qed

section \<open>The interface\<close>

text \<open>
  Identifiers as the rest of the scheduler sees them: registering returns identifiers that the
  lookups find again, identifiers already handed out never change, and equal identifiers mean equal
  names.
\<close>

locale id_registry =
  fixes register :: "'g \<Rightarrow> string \<Rightarrow> string \<Rightarrow> 'g \<times> nat \<times> nat"
    and name_id :: "'g \<Rightarrow> string \<Rightarrow> nat option"
    and value_id :: "'g \<Rightarrow> nat \<Rightarrow> string \<Rightarrow> nat option"
    and inv :: "'g \<Rightarrow> bool"
  assumes register_inv: "inv g \<Longrightarrow> register g p v = (g', i, w) \<Longrightarrow> inv g'"
    and register_name_id: "inv g \<Longrightarrow> register g p v = (g', i, w) \<Longrightarrow> name_id g' p = Some i"
    and register_value_id: "inv g \<Longrightarrow> register g p v = (g', i, w) \<Longrightarrow> value_id g' i v = Some w"
    and name_stable: "inv g \<Longrightarrow> register g p v = (g', i, w) \<Longrightarrow> name_id g q = Some j \<Longrightarrow> name_id g' q = Some j"
    and value_stable: "inv g \<Longrightarrow> register g p v = (g', i, w) \<Longrightarrow> value_id g j u = Some x \<Longrightarrow> value_id g' j u = Some x"
    and name_inj: "inv g \<Longrightarrow> name_id g p = Some i \<Longrightarrow> name_id g q = Some i \<Longrightarrow> p = q"
    and value_inj: "inv g \<Longrightarrow> value_id g i u = Some x \<Longrightarrow> value_id g i v = Some x \<Longrightarrow> u = v"
begin

fun register_all :: "'g \<Rightarrow> (string \<times> string) list \<Rightarrow> 'g" where
  "register_all g [] = g"
| "register_all g ((p, v) # rest) = register_all (fst (register g p v)) rest"

lemma register_all_stable:
  "inv g \<Longrightarrow> inv (register_all g pvs) \<and>
     (name_id g q = Some j \<longrightarrow> name_id (register_all g pvs) q = Some j) \<and>
     (value_id g j u = Some x \<longrightarrow> value_id (register_all g pvs) j u = Some x)"
proof (induction pvs arbitrary: g)
  case Nil
  then show ?case by simp
next
  case (Cons pv rest)
  obtain p v g' i w where r: "pv = (p, v)" "register g p v = (g', i, w)"
    by (cases pv, cases "register g (fst pv) (snd pv)") auto
  show ?case
    using Cons r register_inv[of g p v] name_stable[of g p v] value_stable[of g p v] by auto
qed

lemma register_same_iff:
  assumes "inv g" and "register g p v = (g', i, w)" and "register g' q u = (g'', j, x)"
  shows "(i = j \<longleftrightarrow> p = q) \<and> (i = j \<longrightarrow> (w = x \<longleftrightarrow> v = u))"
proof -
  have g': "inv g'" "name_id g' p = Some i" "value_id g' i v = Some w"
    using assms(1,2) register_inv register_name_id register_value_id by blast+
  have g'': "inv g''" "name_id g'' q = Some j" "value_id g'' j u = Some x"
    using g'(1) assms(3) register_inv register_name_id register_value_id by blast+
  have st: "name_id g'' p = Some i" "value_id g'' i v = Some w"
    using g' assms(3) name_stable value_stable by blast+
  show ?thesis
    using st g'' name_inj[OF g''(1)] value_inj[OF g''(1)] by (metis option.inject)
qed

end

definition name_id_of :: "prop_registry \<Rightarrow> string \<Rightarrow> nat option" where
  "name_id_of g p = (let (found, i) = get_property_id g p in if found then Some i else None)"

definition value_id_of :: "prop_registry \<Rightarrow> nat \<Rightarrow> string \<Rightarrow> nat option" where
  "value_id_of g i v = (let (found, w) = get_value_id g i v in if found then Some w else None)"

lemma name_id_of_find: "name_id_of g p = smap_find (p_properties g) p"
  by (simp add: name_id_of_def get_property_id_def split: option.splits)

lemma value_id_of_find:
  "value_id_of g i v = (if i < prop_count g then smap_find (p_values g ! i) v else None)"
  by (simp add: value_id_of_def get_value_id_def prop_count_def split: option.splits)

lemma register_property_split:
  "register_property g p v = (g', i, w) \<Longrightarrow>
     \<exists>g1. register_name g p = (g1, i) \<and> register_value g1 i v = (g', w)"
  by (auto simp: register_property_def Let_def split: prod.splits)

interpretation props: id_registry register_property name_id_of value_id_of reg_ok
proof
  fix g p v g' i w assume g: "reg_ok g" and r: "register_property g p v = (g', i, w)"
  obtain g1 where g1: "register_name g p = (g1, i)" "register_value g1 i v = (g', w)"
    using register_property_split[OF r] by blast
  note n = register_name_ok[OF g g1(1)]
  then have v: "reg_ok g' \<and> p_properties g' = p_properties g1 \<and> prop_count g' = prop_count g1 \<and>
     smap_find (p_values g' ! i) v = Some w \<and> w < length (p_val_index g' ! i) \<and>
     (\<forall>j u x. j < prop_count g1 \<longrightarrow> smap_find (p_values g1 ! j) u = Some x \<longrightarrow>
        smap_find (p_values g' ! j) u = Some x)"
    using register_value_ok[OF _ _ g1(2)] by blast
  show "reg_ok g'" using v by simp
  show "name_id_of g' p = Some i" using n v by (simp add: name_id_of_find)
  show "value_id_of g' i v = Some w" using n v by (simp add: value_id_of_find)
  show "name_id_of g' q = Some j" if "name_id_of g q = Some j" for q j
    using that n v by (simp add: name_id_of_find)
  show "value_id_of g' j u = Some x" if "value_id_of g j u = Some x" for j u x
    using that n v by (auto simp: value_id_of_find split: if_splits)
next
  fix g p i q assume "reg_ok g" "name_id_of g p = Some i" "name_id_of g q = Some i"
  then show "p = q" by (auto simp: name_id_of_find reg_ok_def index_ok_def)
next
  fix g i u x v assume "reg_ok g" "value_id_of g i u = Some x" "value_id_of g i v = Some x"
  then show "u = v"
    by (auto simp: value_id_of_find reg_ok_def index_ok_def prop_count_def split: if_splits)
qed

text \<open>The identifiers of a property's values are exactly the numbers below its count.\<close>

lemma value_ids_dense:
  assumes "reg_ok g" and "value_count g i = (True, n)"
  shows "w < n \<longleftrightarrow> (\<exists>v. get_value_id g i v = (True, w))"
proof -
  have i: "i < length (p_prop_index g)" "n = length (p_val_index g ! i)"
    using assms(2) by (auto simp: value_count_def split: if_splits)
  then have "index_ok (p_values g ! i) (p_val_index g ! i)"
    using assms(1) by (simp add: reg_ok_def)
  then have "smap_find (p_values g ! i) v = Some w \<longleftrightarrow> w < n \<and> p_val_index g ! i ! w = v" for v
    using i by (simp add: index_ok_find)
  moreover have "get_value_id g i v = (True, w) \<longleftrightarrow> smap_find (p_values g ! i) v = Some w" for v
    using i by (simp add: get_value_id_def split: option.splits)
  ultimately show ?thesis by blast
qed

end
