(* ===== verification/NodeData.thy ===== *)
theory NodeData
  imports Resource PropRegistry
begin

text \<open>
  The node data the PBS server reports: \<open>src/base/NodeState.cpp\<close> and \<open>src/base/NodeData.cpp\<close>.  The
  class hierarchy \<open>NodeState <- NodeData <- NodeLogic <- node_info\<close> is a chain of record extensions.
  Building a node allocates resources in the store and registers string properties, so the
  constructor threads an environment (\<open>nd_env\<close>) through the attribute list; an exception ends it and
  leaves the environment as it is at that point.
\<close>

section \<open>Node state\<close>

record node_state =
  ns_down :: bool
  ns_free :: bool
  ns_offline :: bool
  ns_unknown :: bool
  ns_reserved :: bool
  ns_job_excl :: bool
  ns_job_share :: bool
  ns_busy :: bool

definition reset_state :: "string \<Rightarrow> 'a node_state_scheme \<Rightarrow> 'a node_state_scheme" where
  "reset_state state n =
     n\<lparr>ns_down := (if has_substr state ''down'' then True else ns_down n),
       ns_free := (if has_substr state ''free'' then True else ns_free n),
       ns_offline := (if has_substr state ''offline'' then True else ns_offline n),
       ns_reserved := (if has_substr state ''reserve'' then True else ns_reserved n),
       ns_busy := (if has_substr state ''busy'' then True else ns_busy n),
       ns_job_share := (if has_substr state ''job-sharing'' then True else ns_job_share n),
       ns_job_excl := (if has_substr state ''job-exclusive'' then True else ns_job_excl n),
       ns_unknown := (if has_substr state ''state-unknown'' then True else ns_unknown n)\<rparr>"

section \<open>Node data\<close>

datatype node_type = NodeTimeshared | NodeCluster | NodeVirtual | NodeCloud

record node_data = node_state +
  nd_phys_props :: "string set"
  nd_virt_props :: "string set"
  nd_priority :: int
  nd_type :: node_type
  nd_no_multinode :: bool
  nd_no_starving :: bool
  nd_core_total :: int
  nd_core_free :: int
  nd_ded_queue_name :: string
  nd_admin_slot_enabled :: bool
  nd_admin_slot_avail :: bool
  nd_node_cost :: rat
  nd_node_spec :: rat
  nd_avail_before :: int
  nd_avail_after :: int
  nd_resc :: resource_set
  nd_reg_props :: "nat list"
  nd_name :: string
  nd_jobs :: "string set"
  nd_exclusively_assigned :: bool
  nd_scratch_pool :: string

text \<open>An attribute of a batch status reply, and the reply for one object.\<close>

record attrl =
  at_name :: string
  at_resource :: string
  at_value :: string

record batch_status =
  bs_name :: string
  bs_attribs :: "attrl list"

record nd_env =
  e_heap :: rheap
  e_reg :: prop_registry

datatype node_error = Invalid_Argument string | Reg_Prop_Out_Of_Range nat nat

text \<open>
  The member initialisers leave \<open>p_no_starving\<close>, \<open>p_core_total\<close> and \<open>p_core_free\<close> unset: their values
  before the attributes are read are an argument of the model.
\<close>

record raw_fields =
  raw_no_starving :: bool
  raw_core_total :: int
  raw_core_free :: int

definition init_node_data :: "raw_fields \<Rightarrow> string \<Rightarrow> node_data" where
  "init_node_data raw name =
     \<lparr>ns_down = False, ns_free = False, ns_offline = False, ns_unknown = False, ns_reserved = False,
      ns_job_excl = False, ns_job_share = False, ns_busy = False,
      nd_phys_props = {}, nd_virt_props = {}, nd_priority = 0, nd_type = NodeCluster,
      nd_no_multinode = False, nd_no_starving = raw_no_starving raw,
      nd_core_total = raw_core_total raw, nd_core_free = raw_core_free raw,
      nd_ded_queue_name = [], nd_admin_slot_enabled = False, nd_admin_slot_avail = False,
      nd_node_cost = 1, nd_node_spec = 10, nd_avail_before = 0, nd_avail_after = 0,
      nd_resc = [], nd_reg_props = replicate 100 SIZE_T_MAX, nd_name = name, nd_jobs = {},
      nd_exclusively_assigned = False, nd_scratch_pool = []\<rparr>"

text \<open>\<open>strtol\<close> with the check \<open>data == end\<close> of the setters: nothing was converted.\<close>

definition parse_long :: "string \<Rightarrow> string \<Rightarrow> node_error + int" where
  "parse_long msg data =
     (let (v, rest) = strtol data in if rest = data then Inl (Invalid_Argument msg) else Inr v)"

definition parse_double :: "string \<Rightarrow> string \<Rightarrow> node_error + rat" where
  "parse_double msg data =
     (let (v, rest) = strtod data in if rest = data then Inl (Invalid_Argument msg) else Inr v)"

definition is_True :: "string \<Rightarrow> bool" where
  "is_True value = (value = ''True'')"

definition set_type :: "string \<Rightarrow> node_error + node_type" where
  "set_type data =
     (if data = ''time-shared'' then Inr NodeTimeshared
      else if data = ''cluster'' then Inr NodeCluster
      else if data = ''cloud'' then Inr NodeCloud
      else if data = ''virtual'' then Inr NodeVirtual
      else Inl (Invalid_Argument ''Unable to convert node type value.''))"

text \<open>
  \<open>add_reg_props\<close>: the vector is grown when the property identifier is beyond its end; a write
  that is still out of range is an error.
\<close>

definition grow_reg_props :: "nat list \<Rightarrow> nat \<Rightarrow> nat list" where
  "grow_reg_props props propid =
     (if propid \<ge> length props
      then props @ replicate (max 50 (propid - length props)) SIZE_T_MAX
      else props)"

definition add_reg_props :: "'a node_data_scheme \<Rightarrow> nat \<Rightarrow> nat \<Rightarrow> node_error + 'a node_data_scheme" where
  "add_reg_props n propid valueid =
     (let props = grow_reg_props (nd_reg_props n) propid
      in case vec_set props propid valueid of
           None \<Rightarrow> Inl (Reg_Prop_Out_Of_Range propid (length props))
         | Some props' \<Rightarrow> Inr (n\<lparr>nd_reg_props := props'\<rparr>))"

definition has_reg_prop :: "'a node_data_scheme \<Rightarrow> nat \<Rightarrow> nat \<Rightarrow> bool" where
  "has_reg_prop n propid valueid =
     (if propid \<ge> length (nd_reg_props n) then False
      else if nd_reg_props n ! propid \<noteq> valueid then False else True)"

text \<open>Registering the value of a string resource and noting it on the node.\<close>

definition register_string :: "nd_env \<Rightarrow> 'a node_data_scheme \<Rightarrow> string \<Rightarrow> string \<Rightarrow>
    nd_env \<times> (node_error + 'a node_data_scheme)" where
  "register_string env n name value =
     (let (g, propid, valueid) = register_property (e_reg env) name value
      in (env\<lparr>e_reg := g\<rparr>, add_reg_props n propid valueid))"

definition set_resource_capacity :: "nd_env \<Rightarrow> 'a node_data_scheme \<Rightarrow> string \<Rightarrow> string \<Rightarrow>
    nd_env \<times> (node_error + 'a node_data_scheme)" where
  "set_resource_capacity env n name value =
     (let (h, s, a) = get_alloc_resource (e_heap env) (nd_resc n) name;
          r = set_capacity (h ! a) value;
          env' = env\<lparr>e_heap := h[a := r]\<rparr>;
          n' = n\<lparr>nd_resc := s\<rparr>
      in if is_string r then register_string env' n' name value else (env', Inr n'))"

definition set_resource_utilisation :: "nd_env \<Rightarrow> 'a node_data_scheme \<Rightarrow> string \<Rightarrow> string \<Rightarrow>
    nd_env \<times> (node_error + 'a node_data_scheme)" where
  "set_resource_utilisation env n name value =
     (let (h, s, a) = get_alloc_resource (e_heap env) (nd_resc n) name
      in (env\<lparr>e_heap := h[a := set_utilization_str (h ! a) value]\<rparr>, Inr (n\<lparr>nd_resc := s\<rparr>)))"

definition set_resource_dynamic :: "nd_env \<Rightarrow> 'a node_data_scheme \<Rightarrow> string \<Rightarrow> string \<Rightarrow>
    nd_env \<times> (node_error + 'a node_data_scheme)" where
  "set_resource_dynamic env n name value =
     (let (h, s, a) = get_alloc_resource (e_heap env) (nd_resc n) name;
          r = set_avail (reset_resource (h ! a)) value;
          env' = env\<lparr>e_heap := h[a := r]\<rparr>;
          n' = n\<lparr>nd_resc := s\<rparr>
      in if is_string r then register_string env' n' name value else (env', Inr n'))"

text \<open>The setters that touch only the node: one attribute of the reply.\<close>

definition simple_attr :: "'a node_data_scheme \<Rightarrow> string \<Rightarrow> string \<Rightarrow> node_error + 'a node_data_scheme" where
  "simple_attr n name v =
     (if name = ''properties'' then Inr (n\<lparr>nd_phys_props := comma_list_to_set v (nd_phys_props n)\<rparr>)
      else if name = ''additional_properties'' then
        Inr (n\<lparr>nd_virt_props := comma_list_to_set v (nd_virt_props n)\<rparr>)
      else if name = ''state'' then Inr (reset_state v n)
      else if name = ''node_priority'' then
        map_sum id (\<lambda>x. n\<lparr>nd_priority := x\<rparr>)
          (parse_long ''Unable to convert node priority value to a number.'' v)
      else if name = ''ntype'' then map_sum id (\<lambda>t. n\<lparr>nd_type := t\<rparr>) (set_type v)
      else if name = ''no_multinode_jobs'' then Inr (n\<lparr>nd_no_multinode := is_True v\<rparr>)
      else if name = ''no_starving_jobs'' then Inr (n\<lparr>nd_no_starving := is_True v\<rparr>)
      else if name = ''np'' then
        map_sum id (\<lambda>x. n\<lparr>nd_core_total := to_sint x\<rparr>)
          (parse_long ''Unable to convert total cores value to a number.'' v)
      else if name = ''npfree'' then
        map_sum id (\<lambda>x. n\<lparr>nd_core_free := to_sint x\<rparr>)
          (parse_long ''Unable to convert free cores value to a number.'' v)
      else if name = ''queue'' then Inr (n\<lparr>nd_ded_queue_name := v\<rparr>)
      else if name = ''admin_slot_available'' then Inr (n\<lparr>nd_admin_slot_avail := is_True v\<rparr>)
      else if name = ''admin_slot_enabled'' then Inr (n\<lparr>nd_admin_slot_enabled := is_True v\<rparr>)
      else if name = ''fairshare_coef'' then
        map_sum id (\<lambda>x. n\<lparr>nd_node_cost := x\<rparr>)
          (parse_double ''Unable to convert node cost value to a number.'' v)
      else if name = ''machine_spec'' then
        map_sum id (\<lambda>x. n\<lparr>nd_node_spec := x\<rparr>)
          (parse_double ''Unable to convert node spec value to a number.'' v)
      else if name = ''available_after'' then
        map_sum id (\<lambda>x. n\<lparr>nd_avail_after := x\<rparr>)
          (parse_long ''Unable to convert available after value to a number.'' v)
      else if name = ''available_before'' then
        map_sum id (\<lambda>x. n\<lparr>nd_avail_before := x\<rparr>)
          (parse_long ''Unable to convert available before value to a number.'' v)
      else if name = ''jobs'' then Inr (n\<lparr>nd_jobs := comma_list_to_set v (nd_jobs n)\<rparr>)
      else if name = ''exclusively_assigned'' then Inr (n\<lparr>nd_exclusively_assigned := is_True v\<rparr>)
      else Inr n)"

definition node_attr :: "nd_env \<Rightarrow> 'a node_data_scheme \<Rightarrow> attrl \<Rightarrow>
    nd_env \<times> (node_error + 'a node_data_scheme)" where
  "node_attr env n a =
     (if at_name a = ''resources_total'' then
        set_resource_capacity env n (at_resource a) (at_value a)
      else if at_name a = ''resources_used'' then
        set_resource_utilisation env n (at_resource a) (at_value a)
      else (env, simple_attr n (at_name a) (at_value a)))"

fun node_attrs :: "nd_env \<Rightarrow> 'a node_data_scheme \<Rightarrow> attrl list \<Rightarrow>
    nd_env \<times> (node_error + 'a node_data_scheme)" where
  "node_attrs env n [] = (env, Inr n)"
| "node_attrs env n (a # as) =
     (case node_attr env n a of
        (env', Inl e) \<Rightarrow> (env', Inl e)
      | (env', Inr n') \<Rightarrow> node_attrs env' n' as)"

definition new_node_data :: "raw_fields \<Rightarrow> nd_env \<Rightarrow> batch_status \<Rightarrow> nd_env \<times> (node_error + node_data)" where
  "new_node_data raw env st = node_attrs env (init_node_data raw (bs_name st)) (bs_attribs st)"

text \<open>Reading access.\<close>

definition nd_get_resource :: "rheap \<Rightarrow> 'a node_data_scheme \<Rightarrow> string \<Rightarrow> resource option" where
  "nd_get_resource h n name = rs_lookup h (nd_resc n) name"

definition has_phys_prop :: "'a node_data_scheme \<Rightarrow> string \<Rightarrow> bool" where
  "has_phys_prop n name = (name \<in> nd_phys_props n)"

definition has_virt_prop :: "'a node_data_scheme \<Rightarrow> string \<Rightarrow> bool" where
  "has_virt_prop n name = (name \<in> nd_virt_props n)"

definition has_jobs :: "'a node_data_scheme \<Rightarrow> bool" where
  "has_jobs n = (nd_jobs n \<noteq> {})"

definition set_scratch_pool :: "string \<Rightarrow> 'a node_data_scheme \<Rightarrow> 'a node_data_scheme" where
  "set_scratch_pool pool n = n\<lparr>nd_scratch_pool := pool\<rparr>"

section \<open>State flags\<close>

text \<open>\<open>reset_state\<close> only ever raises flags.\<close>

lemma reset_state_flags:
  "ns_down (reset_state s n) = (has_substr s ''down'' \<or> ns_down n)"
  "ns_free (reset_state s n) = (has_substr s ''free'' \<or> ns_free n)"
  "ns_offline (reset_state s n) = (has_substr s ''offline'' \<or> ns_offline n)"
  "ns_unknown (reset_state s n) = (has_substr s ''state-unknown'' \<or> ns_unknown n)"
  by (simp_all add: reset_state_def)

section \<open>Registered properties\<close>

lemma length_grow_reg_props:
  "length (grow_reg_props ps i) = (if i < length ps then length ps else length ps + max 50 (i - length ps))"
  by (simp add: grow_reg_props_def)

lemma grow_reg_props_covers: "i < length (grow_reg_props ps i) \<longleftrightarrow> i < length ps + 50"
  by (auto simp: length_grow_reg_props)

lemma nth_grow_reg_props: "j < length ps \<Longrightarrow> grow_reg_props ps i ! j = ps ! j"
  by (simp add: grow_reg_props_def nth_append)

lemma add_reg_props_cases:
  "add_reg_props n i v =
     (if i < length (nd_reg_props n) + 50
      then Inr (n\<lparr>nd_reg_props := (grow_reg_props (nd_reg_props n) i)[i := v]\<rparr>)
      else Inl (Reg_Prop_Out_Of_Range i i))"
  by (auto simp: add_reg_props_def vec_set_def grow_reg_props_covers Let_def length_grow_reg_props)

lemma has_reg_prop_add:
  assumes "add_reg_props n i v = Inr n'" and "w \<noteq> SIZE_T_MAX"
  shows "has_reg_prop n' j w = (if j = i then v = w else has_reg_prop n j w)"
proof -
  from assms(1) have i: "i < length (nd_reg_props n) + 50"
    and n': "n' = n\<lparr>nd_reg_props := (grow_reg_props (nd_reg_props n) i)[i := v]\<rparr>"
    by (auto simp: add_reg_props_cases split: if_splits)
  have ge: "length (nd_reg_props n) \<le> length (grow_reg_props (nd_reg_props n) i)"
    by (simp add: length_grow_reg_props)
  show ?thesis
  proof (cases "j = i")
    case True
    then show ?thesis using i n' grow_reg_props_covers[of i "nd_reg_props n"] by (auto simp: has_reg_prop_def)
  next
    case False
    have "grow_reg_props (nd_reg_props n) i ! j = SIZE_T_MAX"
      if "length (nd_reg_props n) \<le> j" "j < length (grow_reg_props (nd_reg_props n) i)"
      using that by (auto simp: grow_reg_props_def nth_append split: if_splits)
    then show ?thesis
      using False assms(2) n' ge
      by (cases "j < length (nd_reg_props n)") (auto simp: has_reg_prop_def nth_grow_reg_props)
  qed
qed

section \<open>The invariant of a node\<close>

text \<open>
  A node is consistent with its environment when its resource set is well formed, the registry is,
  and every string resource of the node carries the identifiers of its name and value.
\<close>

definition string_noted :: "nd_env \<Rightarrow> 'a node_data_scheme \<Rightarrow> string \<Rightarrow> string \<Rightarrow> bool" where
  "string_noted env n name value \<longleftrightarrow>
     (\<exists>i w. name_id_of (e_reg env) name = Some i \<and> value_id_of (e_reg env) i value = Some w \<and>
        has_reg_prop n i w)"

definition nd_ok :: "nd_env \<Rightarrow> 'a node_data_scheme \<Rightarrow> bool" where
  "nd_ok env n \<longleftrightarrow>
     rs_ok (e_heap env) (nd_resc n) \<and> reg_ok (e_reg env) \<and>
     (\<forall>k r. nd_get_resource (e_heap env) n k = Some r \<longrightarrow> is_string r \<longrightarrow>
        string_noted env n k (r_str_val r))"

text \<open>Value identifiers are \<open>size_t\<close>; the largest one marks an unset entry.\<close>

definition reg_small :: "prop_registry \<Rightarrow> bool" where
  "reg_small g \<longleftrightarrow> (\<forall>i v w. value_id_of g i v = Some w \<longrightarrow> w < SIZE_T_MAX)"

lemma rs_lookup_update:
  assumes "rs_ok h s" and "smap_find s k = Some a"
  shows "rs_lookup (h[a := r]) s k' = (if k' = k then Some r else rs_lookup h s k')"
proof -
  have "a < length h" using rs_addr_less[OF assms] .
  moreover have "smap_find s k' = Some b \<Longrightarrow> k' \<noteq> k \<Longrightarrow> b \<noteq> a" for b
    using rs_inj[OF assms] by auto
  ultimately show ?thesis using assms(2) by (auto simp: rs_lookup_def map_option_case split: option.splits)
qed

text \<open>Writing one resource of a node, allocated on demand: the other names are not touched.\<close>

lemma alloc_update_spec:
  assumes "rs_ok h s" and "get_alloc_resource h s name = (h', s', a)"
  shows "rs_ok (h'[a := r]) s' \<and>
     rs_lookup (h'[a := r]) s' k = (if k = name then Some r else rs_lookup h s k)"
proof -
  note g = get_alloc_resource_ok[OF assms]
  then have "rs_ok (h'[a := r]) s'" by (auto simp: rs_ok_def)
  then show ?thesis using g rs_lookup_update[of h' s' name a r k] by auto
qed

lemma register_string_ok:
  assumes "rs_ok (e_heap env) (nd_resc n)" and "reg_ok (e_reg env)"
    and "\<And>k r. k \<noteq> name \<Longrightarrow> nd_get_resource (e_heap env) n k = Some r \<Longrightarrow> is_string r \<Longrightarrow>
           string_noted env n k (r_str_val r)"
    and "\<And>r. nd_get_resource (e_heap env) n name = Some r \<Longrightarrow> is_string r \<Longrightarrow> r_str_val r = value"
    and "register_string env n name value = (env', Inr n')"
    and small: "reg_small (e_reg env')"
  shows "nd_ok env' n'"
proof -
  obtain g i w where reg: "register_property (e_reg env) name value = (g, i, w)"
    by (cases "register_property (e_reg env) name value") auto
  then have env': "env' = env\<lparr>e_reg := g\<rparr>" and add: "add_reg_props n i w = Inr n'"
    using assms(5) by (auto simp: register_string_def)
  have ids: "reg_ok g" "name_id_of g name = Some i" "value_id_of g i value = Some w"
    using props.register_inv[OF assms(2) reg] props.register_name_id[OF assms(2) reg]
      props.register_value_id[OF assms(2) reg] by auto
  have resc: "nd_resc n' = nd_resc n"
    using add by (auto simp: add_reg_props_cases split: if_splits)
  have wm: "x \<noteq> SIZE_T_MAX" if "value_id_of g j v = Some x" for j v x
    using small that env' by (auto simp: reg_small_def)
  have keep: "string_noted env' n' k v" if "k \<noteq> name" "string_noted env n k v" for k v
  proof -
    obtain j x where jx: "name_id_of (e_reg env) k = Some j" "value_id_of (e_reg env) j v = Some x"
        "has_reg_prop n j x"
      using \<open>string_noted env n k v\<close> by (auto simp: string_noted_def)
    then have "name_id_of g k = Some j" "value_id_of g j v = Some x"
      using props.name_stable[OF assms(2) reg] props.value_stable[OF assms(2) reg] by auto
    moreover have "j \<noteq> i" using props.name_inj[OF ids(1)] calculation(1) ids(2) that(1) by auto
    ultimately show ?thesis
      using has_reg_prop_add[OF add wm] jx(3) env' by (fastforce simp: string_noted_def)
  qed
  have new: "string_noted env' n' name value"
    using ids env' has_reg_prop_add[OF add wm[OF ids(3)]] by (auto simp: string_noted_def)
  show ?thesis
    unfolding nd_ok_def
  proof (intro conjI allI impI)
    show "rs_ok (e_heap env') (nd_resc n')" using assms(1) resc env' by simp
    show "reg_ok (e_reg env')" using ids(1) env' by simp
    fix k r assume "nd_get_resource (e_heap env') n' k = Some r" "is_string r"
    then have "nd_get_resource (e_heap env) n k = Some r" using resc env' by (simp add: nd_get_resource_def)
    then show "string_noted env' n' k (r_str_val r)"
      using assms(3,4) \<open>is_string r\<close> keep new by (cases "k = name") auto
  qed
qed

text \<open>Registration only adds: identifiers handed out stay.\<close>

definition reg_extends :: "prop_registry \<Rightarrow> prop_registry \<Rightarrow> bool" where
  "reg_extends g g' \<longleftrightarrow>
     (\<forall>q j. name_id_of g q = Some j \<longrightarrow> name_id_of g' q = Some j) \<and>
     (\<forall>j u x. value_id_of g j u = Some x \<longrightarrow> value_id_of g' j u = Some x)"

lemma reg_extends_refl [simp]: "reg_extends g g"
  by (simp add: reg_extends_def)

lemma reg_extends_trans: "reg_extends a b \<Longrightarrow> reg_extends b c \<Longrightarrow> reg_extends a c"
  by (simp add: reg_extends_def)

lemma reg_small_anti: "reg_small g' \<Longrightarrow> reg_extends g g' \<Longrightarrow> reg_small g"
  unfolding reg_extends_def reg_small_def by blast

lemma register_string_extends:
  assumes "reg_ok (e_reg env)" and "register_string env n name value = (env', x)"
  shows "reg_ok (e_reg env') \<and> reg_extends (e_reg env) (e_reg env') \<and> e_heap env' = e_heap env"
proof -
  obtain g i w where reg: "register_property (e_reg env) name value = (g, i, w)"
    by (cases "register_property (e_reg env) name value") auto
  then have "env' = env\<lparr>e_reg := g\<rparr>" using assms(2) by (auto simp: register_string_def)
  then show ?thesis
    using props.register_inv[OF assms(1) reg] props.name_stable[OF assms(1) reg]
      props.value_stable[OF assms(1) reg] by (auto simp: reg_extends_def)
qed

text \<open>
  The three ways a resource of a node is written share one argument: the resource is allocated on
  demand, written, and registered when it is a string resource.
\<close>

definition write_resource :: "nd_env \<Rightarrow> 'a node_data_scheme \<Rightarrow> string \<Rightarrow> (resource \<Rightarrow> resource) \<Rightarrow> string \<Rightarrow>
    nd_env \<times> (node_error + 'a node_data_scheme)" where
  "write_resource env n name f value =
     (let (h, s, a) = get_alloc_resource (e_heap env) (nd_resc n) name;
          env' = env\<lparr>e_heap := h[a := f (h ! a)]\<rparr>;
          n' = n\<lparr>nd_resc := s\<rparr>
      in if is_string (f (h ! a)) then register_string env' n' name value else (env', Inr n'))"

lemma set_resource_capacity_write:
  "set_resource_capacity env n name value = write_resource env n name (\<lambda>r. set_capacity r value) value"
  by (simp add: set_resource_capacity_def write_resource_def Let_def)

lemma set_resource_dynamic_write:
  "set_resource_dynamic env n name value =
     write_resource env n name (\<lambda>r. set_avail (reset_resource r) value) value"
  by (simp add: set_resource_dynamic_def write_resource_def Let_def)

lemma string_noted_resc [simp]:
  "string_noted (env\<lparr>e_heap := h\<rparr>) (n\<lparr>nd_resc := s\<rparr>) k v = string_noted env n k v"
  by (simp add: string_noted_def has_reg_prop_def)

lemma write_resource_extends:
  assumes "reg_ok (e_reg env)" and "write_resource env n name f value = (env', x)"
  shows "reg_ok (e_reg env') \<and> reg_extends (e_reg env) (e_reg env')"
proof -
  obtain h s a where g: "get_alloc_resource (e_heap env) (nd_resc n) name = (h, s, a)"
    by (cases "get_alloc_resource (e_heap env) (nd_resc n) name") auto
  let ?env = "env\<lparr>e_heap := h[a := f (h ! a)]\<rparr>" and ?n = "n\<lparr>nd_resc := s\<rparr>"
  show ?thesis
  proof (cases "is_string (f (h ! a))")
    case True
    then have "register_string ?env ?n name value = (env', x)"
      using assms(2) g by (simp add: write_resource_def)
    then show ?thesis using register_string_extends[of ?env ?n] assms(1) by simp
  next
    case False
    then show ?thesis using assms g by (auto simp: write_resource_def)
  qed
qed

lemma write_resource_ok:
  assumes "nd_ok env n" and "\<And>r. is_string (f r) \<Longrightarrow> r_str_val (f r) = value"
    and "write_resource env n name f value = (env', Inr n')" and "reg_small (e_reg env')"
  shows "nd_ok env' n'"
proof -
  obtain h s a where g: "get_alloc_resource (e_heap env) (nd_resc n) name = (h, s, a)"
    by (cases "get_alloc_resource (e_heap env) (nd_resc n) name") auto
  let ?env = "env\<lparr>e_heap := h[a := f (h ! a)]\<rparr>" and ?n = "n\<lparr>nd_resc := s\<rparr>"
  have rs: "rs_ok (e_heap ?env) (nd_resc ?n)"
    and look: "nd_get_resource (e_heap ?env) ?n k =
        (if k = name then Some (f (h ! a)) else nd_get_resource (e_heap env) n k)" for k
    using alloc_update_spec[OF _ g, of "f (h ! a)"] assms(1)
    by (auto simp: nd_ok_def nd_get_resource_def)
  have reg: "reg_ok (e_reg ?env)" using assms(1) by (simp add: nd_ok_def)
  have old: "string_noted ?env ?n k (r_str_val r)"
    if "k \<noteq> name" "nd_get_resource (e_heap ?env) ?n k = Some r" "is_string r" for k r
    using that look[of k] assms(1) by (simp add: nd_ok_def)
  show ?thesis
  proof (cases "is_string (f (h ! a))")
    case True
    then have r: "register_string ?env ?n name value = (env', Inr n')"
      using assms(3) g by (simp add: write_resource_def)
    show ?thesis
    proof (rule register_string_ok[OF rs reg old _ r assms(4)])
      fix r assume "nd_get_resource (e_heap ?env) ?n name = Some r" "is_string r"
      then show "r_str_val r = value" using look[of name] assms(2)[of "h ! a"] by simp
    qed
  next
    case False
    then have "env' = ?env" "n' = ?n" using assms(3) g by (simp_all add: write_resource_def)
    then show ?thesis
      using rs reg old look False unfolding nd_ok_def by (metis option.inject)
  qed
qed

lemma set_utilisation_extends:
  "set_resource_utilisation env n name value = (env', x) \<Longrightarrow> e_reg env' = e_reg env"
  by (auto simp: set_resource_utilisation_def split: prod.splits)

lemma is_string_set_capacity: "is_string (set_capacity r v) \<Longrightarrow> r_str_val (set_capacity r v) = v"
  by (auto simp: set_capacity_def is_string_def)

lemma is_string_set_avail: "is_string (set_avail r v) \<Longrightarrow> r_str_val (set_avail r v) = v"
  by (auto simp: set_avail_def is_string_def)

lemma set_resource_utilisation_ok:
  assumes "nd_ok env n" and "set_resource_utilisation env n name value = (env', Inr n')"
  shows "nd_ok env' n'"
proof -
  obtain h s a where g: "get_alloc_resource (e_heap env) (nd_resc n) name = (h, s, a)"
    by (cases "get_alloc_resource (e_heap env) (nd_resc n) name") auto
  let ?r = "set_utilization_str (h ! a) value"
  have eq: "env' = env\<lparr>e_heap := h[a := ?r]\<rparr>" "n' = n\<lparr>nd_resc := s\<rparr>"
    using assms(2) g by (auto simp: set_resource_utilisation_def)
  have rsok: "rs_ok (e_heap env) (nd_resc n)" using assms(1) by (simp add: nd_ok_def)
  note up = alloc_update_spec[OF rsok g, of ?r] and ga = get_alloc_resource_ok[OF rsok g]
  have cell: "h ! a = (case nd_get_resource (e_heap env) n name of None \<Rightarrow> new_resource name | Some r \<Rightarrow> r)"
    using ga by (auto simp: nd_get_resource_def rs_lookup_def)
  have "string_noted env n k (r_str_val r)"
    if "nd_get_resource (e_heap env') n' k = Some r" "is_string r" for k r
  proof (cases "k = name")
    case True
    then have r: "r = ?r" using that up eq by (simp add: nd_get_resource_def)
    then have "is_string (h ! a)" "r_str_val r = r_str_val (h ! a)"
      using that(2) by (simp_all add: set_utilization_str_def set_utilization_def is_string_def)
    then have "nd_get_resource (e_heap env) n name = Some (h ! a)"
      using cell by (cases "nd_get_resource (e_heap env) n name") (auto simp: new_resource_def is_string_def)
    then show ?thesis
      using assms(1) True \<open>is_string (h ! a)\<close> \<open>r_str_val r = _\<close> by (auto simp: nd_ok_def)
  next
    case False
    then show ?thesis using that up eq assms(1) by (simp add: nd_get_resource_def nd_ok_def)
  qed
  then show ?thesis using assms(1) up unfolding nd_ok_def eq by simp
qed

text \<open>The simple setters leave the resources and the registered properties alone.\<close>

definition keeps_resc :: "'a node_data_scheme \<Rightarrow> node_error + 'a node_data_scheme \<Rightarrow> bool" where
  "keeps_resc n x \<longleftrightarrow>
     (case x of Inl e \<Rightarrow> True | Inr n' \<Rightarrow> nd_resc n' = nd_resc n \<and> nd_reg_props n' = nd_reg_props n)"

lemma keeps_resc_if: "keeps_resc n x \<Longrightarrow> keeps_resc n y \<Longrightarrow> keeps_resc n (if c then x else y)"
  by simp

lemma keeps_resc_map_sum:
  "(\<And>v. keeps_resc n (Inr (f v))) \<Longrightarrow> keeps_resc n (map_sum id f x)"
  by (cases x) (simp_all add: keeps_resc_def)

lemma simple_attr_keeps: "keeps_resc n (simple_attr n name v)"
  unfolding simple_attr_def
  by (intro keeps_resc_if keeps_resc_map_sum) (simp_all add: keeps_resc_def reset_state_def)

lemma simple_attr_frame:
  "simple_attr n name v = Inr n' \<Longrightarrow> nd_resc n' = nd_resc n \<and> nd_reg_props n' = nd_reg_props n"
  using simple_attr_keeps[of n name v] by (simp add: keeps_resc_def)

lemma node_attr_extends:
  assumes "reg_ok (e_reg env)" and "node_attr env n a = (env', x)"
  shows "reg_ok (e_reg env') \<and> reg_extends (e_reg env) (e_reg env')"
  using assms set_utilisation_extends write_resource_extends
  by (fastforce simp: node_attr_def set_resource_capacity_write split: if_splits)

lemma node_attr_ok:
  assumes "nd_ok env n" and "node_attr env n a = (env', Inr n')" and "reg_small (e_reg env')"
  shows "nd_ok env' n'"
proof -
  consider "at_name a = ''resources_total''" | "at_name a = ''resources_used''"
    | "at_name a \<noteq> ''resources_total'' \<and> at_name a \<noteq> ''resources_used''" by blast
  then show ?thesis
  proof cases
    case 1
    then show ?thesis
      using assms write_resource_ok[OF assms(1) is_string_set_capacity]
      by (simp add: node_attr_def set_resource_capacity_write)
  next
    case 2
    then show ?thesis using assms set_resource_utilisation_ok by (simp add: node_attr_def)
  next
    case 3
    then have e: "env' = env" and "simple_attr n (at_name a) (at_value a) = Inr n'"
      using assms(2) by (auto simp: node_attr_def)
    then have f: "nd_resc n' = nd_resc n" "nd_reg_props n' = nd_reg_props n"
      using simple_attr_frame by blast+
    show ?thesis
      using assms(1) unfolding e nd_ok_def nd_get_resource_def string_noted_def has_reg_prop_def f .
  qed
qed

lemma reg_extends_node:
  "reg_ok (e_reg env) \<Longrightarrow> node_attrs env n as = (env', x) \<Longrightarrow>
     reg_ok (e_reg env') \<and> reg_extends (e_reg env) (e_reg env')"
proof (induction as arbitrary: env n)
  case (Cons a as)
  obtain env1 y where 1: "node_attr env n a = (env1, y)" by (cases "node_attr env n a")
  note e = node_attr_extends[OF Cons.prems(1) 1]
  show ?case
  proof (cases y)
    case (Inl err)
    then show ?thesis using Cons.prems(2) 1 e by simp
  next
    case (Inr n1)
    then have "node_attrs env1 n1 as = (env', x)" using Cons.prems(2) 1 by simp
    then show ?thesis using Cons.IH e reg_extends_trans by blast
  qed
qed simp

lemma node_attrs_ok:
  "nd_ok env n \<Longrightarrow> node_attrs env n as = (env', Inr n') \<Longrightarrow> reg_small (e_reg env') \<Longrightarrow> nd_ok env' n'"
proof (induction as arbitrary: env n)
    case (Cons a as)
    then obtain env1 n1 where 1: "node_attr env n a = (env1, Inr n1)" "node_attrs env1 n1 as = (env', Inr n')"
      by (auto split: prod.splits sum.splits)
    have "reg_ok (e_reg env1)" using node_attr_extends[OF _ 1(1)] Cons.prems(1) by (simp add: nd_ok_def)
    then have "reg_small (e_reg env1)" using reg_extends_node[OF _ 1(2)] Cons.prems(3) reg_small_anti by blast
    then show ?case using node_attr_ok[OF Cons.prems(1) 1(1)] Cons.IH 1(2) Cons.prems(3) by blast
qed simp

lemma nd_ok_init: "reg_ok (e_reg env) \<Longrightarrow> nd_ok env (init_node_data raw name)"
  by (simp add: nd_ok_def init_node_data_def nd_get_resource_def rs_lookup_def)

lemma new_node_data_ok:
  "reg_ok (e_reg env) \<Longrightarrow> new_node_data raw env st = (env', Inr n) \<Longrightarrow> reg_small (e_reg env') \<Longrightarrow> nd_ok env' n"
  unfolding new_node_data_def by (rule node_attrs_ok[OF nd_ok_init])

text \<open>On a consistent node the identifier comparison decides string equality.\<close>

lemma string_noted_decides:
  assumes "nd_ok env n" and "nd_get_resource (e_heap env) n p = Some r" and "is_string r"
    and "name_id_of (e_reg env) p = Some i" and "value_id_of (e_reg env) i v = Some w"
  shows "has_reg_prop n i w \<longleftrightarrow> r_str_val r = v"
proof -
  obtain x where x: "value_id_of (e_reg env) i (r_str_val r) = Some x" "has_reg_prop n i x"
    using assms(1-4) unfolding nd_ok_def string_noted_def by (metis option.inject)
  have "has_reg_prop n i w \<longleftrightarrow> w = x" using x(2) by (auto simp: has_reg_prop_def split: if_splits)
  moreover have "w = x \<longleftrightarrow> r_str_val r = v"
    using x(1) assms(5) props.value_inj[of "e_reg env" i] assms(1) by (auto simp: nd_ok_def)
  ultimately show ?thesis by simp
qed

end
