(* ===== verification/SiteCache.thy ===== *)
theory SiteCache
  imports Resource
begin

text \<open>
  The site specific decoders of \<open>src/site_pbs_cache.cpp\<close> and \<open>src/legacy/site_pbs_cache_common.c\<close>:
  the magrathea state of a virtual node, the property lists of bootable images, and the
  attributes of a cluster metric.
\<close>

datatype MagratheaState =
    MagratheaStateNone | MagratheaStateRemoved | MagratheaStateDown | MagratheaStateDownBootable
  | MagratheaStateBooting | MagratheaStateFree | MagratheaStateFreeBootable
  | MagratheaStateOccupiedWouldPreempt | MagratheaStateOccupied | MagratheaStateRunningPreemptible
  | MagratheaStateRunningPriority | MagratheaStateRunning | MagratheaStateRunningCluster
  | MagratheaStatePreempted | MagratheaStateFrozen | MagratheaStateDownDisappeared
  | MagratheaStateShuttingDown

definition magrathea_words :: "(string \<times> MagratheaState) list" where
  "magrathea_words =
     [(''removed'', MagratheaStateRemoved), (''down'', MagratheaStateDown),
      (''down-bootable'', MagratheaStateDownBootable), (''booting'', MagratheaStateBooting),
      (''free'', MagratheaStateFree), (''free-bootable'', MagratheaStateFreeBootable),
      (''occupied-would-preempt'', MagratheaStateOccupiedWouldPreempt),
      (''occupied'', MagratheaStateOccupied), (''running-preemptible'', MagratheaStateRunningPreemptible),
      (''running-priority'', MagratheaStateRunningPriority), (''running'', MagratheaStateRunning),
      (''running-cluster'', MagratheaStateRunningCluster), (''preempted'', MagratheaStatePreempted),
      (''frozen'', MagratheaStateFrozen), (''down-disappeared'', MagratheaStateDownDisappeared),
      (''shutting-down'', MagratheaStateShuttingDown)]"

text \<open>
  \<open>magrathea_decode_new\<close> with a non-null state pointer: the return code is zero (\<open>True\<close>) or not, the
  state written, and the rebootable flag, which keeps its old value when there is nothing to decode.
\<close>

definition magrathea_decode_new :: "resource option \<Rightarrow> bool \<Rightarrow> bool \<times> MagratheaState \<times> bool" where
  "magrathea_decode_new res is_rebootable =
     (case res of
        None \<Rightarrow> (False, MagratheaStateNone, is_rebootable)
      | Some r \<Rightarrow>
          (if r_str_val r = [] then (False, MagratheaStateNone, is_rebootable)
           else
             (let reb = has_substr (r_str_val r) ''dynamic_reboot=1'';
                  s = takeWhile (\<lambda>c. c \<noteq> CHR '':'' \<and> c \<noteq> CHR '';'') (r_str_val r)
              in case map_of magrathea_words s of
                   None \<Rightarrow> (False, MagratheaStateNone, reb)
                 | Some st \<Rightarrow> (True, st, reb))))"

record repository_alternatives =
  ra_name :: string
  ra_proplist :: "string option"
  ra_mark :: int

definition dup_bootable_alternatives ::
    "repository_alternatives list option \<Rightarrow> repository_alternatives list option" where
  "dup_bootable_alternatives old = map_option (map (\<lambda>a.
     \<lparr>ra_name = ra_name a, ra_proplist = ra_proplist a, ra_mark = ra_mark a\<rparr>)) old"

text \<open>
  \<open>alternative_has_property\<close>: the loop over \<open>strstr\<close> occurrences, one character at a time.
  \<open>start\<close> says whether the current position is the pointer \<open>list\<close>, which moves one past every
  rejected occurrence; \<open>prev\<close> is the character before the current position.
\<close>

fun alt_scan :: "bool \<Rightarrow> char option \<Rightarrow> string \<Rightarrow> string \<Rightarrow> bool" where
  "alt_scan start prev prop [] =
     (prop = [] \<and> (start \<or> prev = Some (CHR '','')))"
| "alt_scan start prev prop (x # xs) =
     (if is_prefix prop (x # xs) then
        (let cc = drop (length prop) (x # xs)
         in if (start \<or> prev = Some (CHR '','')) \<and> (cc = [] \<or> hd cc = CHR '','') then True
            else alt_scan True (Some x) prop xs)
      else alt_scan False (Some x) prop xs)"

definition alternative_has_property :: "repository_alternatives \<Rightarrow> string \<Rightarrow> bool" where
  "alternative_has_property r prop =
     (case ra_proplist r of None \<Rightarrow> False | Some list \<Rightarrow> alt_scan True None prop list)"

definition find_alternative_with_property ::
    "repository_alternatives list \<Rightarrow> string \<Rightarrow> repository_alternatives option" where
  "find_alternative_with_property list prop = List.find (\<lambda>a. alternative_has_property a prop) list"

text \<open>
  \<open>retrieve_cluster_attr\<close>: the text after the first occurrence of \<open>name=\<close>, up to a separator.
\<close>

fun after_substr :: "string \<Rightarrow> string \<Rightarrow> string option" where
  "after_substr p [] = (if p = [] then Some [] else None)"
| "after_substr p (x # xs) =
     (if is_prefix p (x # xs) then Some (drop (length p) (x # xs)) else after_substr p xs)"

definition retrieve_cluster_attr :: "string option \<Rightarrow> string \<Rightarrow> string option" where
  "retrieve_cluster_attr metric name =
     (case metric of
        None \<Rightarrow> None
      | Some m \<Rightarrow>
          map_option (takeWhile (\<lambda>c. c \<noteq> CHR '';'' \<and> c \<noteq> CHR '':'' \<and> c \<noteq> CHR 0x0A))
            (after_substr (name @ ''='') m))"

section \<open>Decoding\<close>

lemma dup_bootable_alternatives_id [simp]: "dup_bootable_alternatives x = x"
  by (cases x) (auto simp: dup_bootable_alternatives_def intro!: map_idI)

lemma magrathea_unknown_is_none:
  "magrathea_decode_new res reb = (False, st, reb') \<Longrightarrow> st = MagratheaStateNone"
  by (auto simp: magrathea_decode_new_def Let_def split: option.splits if_splits)

lemma magrathea_known_not_none:
  "magrathea_decode_new res reb = (True, st, reb') \<Longrightarrow> st \<noteq> MagratheaStateNone"
proof -
  assume "magrathea_decode_new res reb = (True, st, reb')"
  then obtain s where "map_of magrathea_words s = Some st"
    by (auto simp: magrathea_decode_new_def Let_def split: option.splits if_splits)
  then have "st \<in> snd ` set magrathea_words" by (force dest: map_of_SomeD)
  then show ?thesis by (auto simp: magrathea_words_def)
qed

lemma is_prefix_append [simp]: "is_prefix p (p @ s)"
  by (induction p) auto

lemma is_prefix_iff: "is_prefix p s \<longleftrightarrow> (\<exists>t. s = p @ t)"
  by (induction p s rule: is_prefix.induct) auto

text \<open>Scanning one word that differs from the property reaches the comma behind it.\<close>

lemma alt_scan_append:
  assumes "CHR '','' \<notin> set w"
  shows "alt_scan start prev pr (CHR '','' # rest) \<Longrightarrow> pr \<noteq> [] \<Longrightarrow> CHR '','' \<notin> set pr \<Longrightarrow>
     alt_scan start' prev' pr (w @ CHR '','' # rest)"
proof (induction w arbitrary: start' prev')
  case Nil
  have np: "\<not> is_prefix pr (CHR '','' # rest)" using Nil.prems by (cases pr) auto
  then show ?case using Nil.prems by simp
next
  case (Cons x w)
  then show ?case by (simp add: Let_def)
qed

lemma alt_scan_word:
  assumes "pr \<noteq> []" "CHR '','' \<notin> set pr" "start \<or> prev = Some (CHR '','')"
    and "rest = [] \<or> hd rest = CHR '',''"
  shows "alt_scan start prev pr (pr @ rest)"
proof -
  obtain x xs where p: "pr = x # xs" using assms(1) by (cases pr) auto
  have "is_prefix pr (pr @ rest)" by simp
  then show ?thesis using assms p by (simp add: Let_def)
qed

lemma alt_scan_complete:
  "pr \<noteq> [] \<Longrightarrow> CHR '','' \<notin> set pr \<Longrightarrow> \<forall>w \<in> set ws. CHR '','' \<notin> set w \<Longrightarrow> pr \<in> set ws \<Longrightarrow>
     start \<or> prev = Some (CHR '','') \<Longrightarrow> alt_scan start prev pr (comma_join ws)"
proof (induction ws arbitrary: start prev rule: comma_join.induct)
  case (2 w)
  then show ?case using alt_scan_word[of pr start prev "[]"] by simp
next
  case (3 w v vs)
  show ?case
  proof (cases "w = pr")
    case True
    then show ?thesis using 3 alt_scan_word[of pr start prev] by simp
  next
    case False
    then have "alt_scan False (Some (CHR '','')) pr (comma_join (v # vs))"
      using 3 by (intro "3.IH") auto
    moreover have "\<not> is_prefix pr (CHR '','' # comma_join (v # vs))"
      using 3 by (cases pr) auto
    ultimately have "alt_scan start prev pr (CHR '','' # comma_join (v # vs))" by simp
    then show ?thesis using 3 alt_scan_append[of w] by simp
  qed
qed simp

text \<open>A property of an image that is one of the comma separated words is found.\<close>

lemma alternative_has_property_complete:
  "ra_proplist r = Some (comma_join ws) \<Longrightarrow> pr \<in> set ws \<Longrightarrow> pr \<noteq> [] \<Longrightarrow>
     \<forall>w \<in> set ws. CHR '','' \<notin> set w \<Longrightarrow> alternative_has_property r pr"
  using alt_scan_complete[of pr ws True None] by (auto simp: alternative_has_property_def)

end
