(* ===== verification/NodeSpec.thy ===== *)
theory NodeSpec
  imports SiteCache
begin

text \<open>
  The parsed node specification (\<open>src/nodespec.h\<close>), the resource metadata
  (\<open>src/SchedulerCore_RescInfoDb.cpp\<close>) and the assignment of a specification to a node
  (\<open>src/logic/JobAssign.cpp\<close>).  The text parser of node specifications belongs to the torque library;
  it is a parameter wherever a job needs it.
\<close>

section \<open>Node specifications\<close>

datatype ScratchType = ScratchNone | ScratchAny | ScratchLocal | ScratchSSD | ScratchShared

record pars_prop =
  pp_name :: string
  pp_value :: "string option"

text \<open>Counts and amounts are unsigned in the source, so they are natural numbers here.\<close>

record pars_spec_node =
  ps_node_count :: nat
  ps_alternative :: "string option"
  ps_host :: "string option"
  ps_procs :: nat
  ps_mem :: nat
  ps_vmem :: nat
  ps_scratch :: nat
  ps_scratch_type :: ScratchType
  ps_properties :: "pars_prop list"

record pars_spec =
  sp_is_exclusive :: bool
  sp_nodes :: "pars_spec_node list"
  sp_total_nodes :: nat
  sp_total_procs :: nat

section \<open>Resource metadata\<close>

datatype reschecksource = ResCheckNone | ResCheckStat | ResCheckCache | ResCheckBoth | ResCheckDynamic

record resc_info =
  ri_name :: string
  ri_comment :: string
  ri_source :: reschecksource

text \<open>An unordered map; the list order is the iteration order.\<close>

type_synonym resc_info_db = "(string \<times> resc_info) list"

definition db_insert :: "resc_info_db \<Rightarrow> string \<Rightarrow> string \<Rightarrow> reschecksource \<Rightarrow> resc_info_db \<times> bool" where
  "db_insert db name comment source =
     (case map_of db name of
        Some i \<Rightarrow> (db, False)
      | None \<Rightarrow> (db @ [(name, \<lparr>ri_name = name, ri_comment = comment, ri_source = source\<rparr>)], True))"

text \<open>One entry of the property tree \<open>read_info\<close> returns: name, \<open>err\<close> text and \<open>type\<close>.\<close>

definition source_of_type :: "string \<Rightarrow> reschecksource" where
  "source_of_type type =
     (if type = ''dynamic'' then ResCheckDynamic
      else if type = ''cache'' then ResCheckCache
      else if type = ''status'' then ResCheckStat
      else ResCheckNone)"

fun read_db :: "resc_info_db \<Rightarrow> (string \<times> string \<times> string) list \<Rightarrow> resc_info_db" where
  "read_db db [] = db"
| "read_db db ((name, err, type) # rest) = read_db (fst (db_insert db name err (source_of_type type))) rest"

definition res_check_type :: "resc_info_db \<Rightarrow> string \<Rightarrow> reschecksource" where
  "res_check_type db res_name =
     (case map_of db res_name of None \<Rightarrow> ResCheckNone | Some i \<Rightarrow> ri_source i)"

section \<open>Assignments\<close>

datatype AssignStringMode = FullAssignString | RescOnlyAssignString | NumericOnlyAssignString

record job_assign =
  ja_flag_fairshare :: bool
  ja_scratch_type :: ScratchType
  ja_boot_alternative :: "repository_alternatives option"
  ja_nodespec :: "pars_spec_node option"
  ja_virtual_assignment :: bool

definition new_job_assign :: job_assign where
  "new_job_assign =
     \<lparr>ja_flag_fairshare = False, ja_scratch_type = ScratchNone, ja_boot_alternative = None,
      ja_nodespec = None, ja_virtual_assignment = False\<rparr>"

definition set_fairshare_flag :: "'a job_assign_scheme \<Rightarrow> 'a job_assign_scheme" where
  "set_fairshare_flag j = j\<lparr>ja_flag_fairshare := True\<rparr>"

definition unset_fairshare_flag :: "'a job_assign_scheme \<Rightarrow> 'a job_assign_scheme" where
  "unset_fairshare_flag j = j\<lparr>ja_flag_fairshare := False\<rparr>"

definition set_scratch_assign :: "ScratchType \<Rightarrow> 'a job_assign_scheme \<Rightarrow> 'a job_assign_scheme" where
  "set_scratch_assign s j = j\<lparr>ja_scratch_type := s\<rparr>"

definition set_selected_alternative ::
    "repository_alternatives option \<Rightarrow> 'a job_assign_scheme \<Rightarrow> 'a job_assign_scheme" where
  "set_selected_alternative a j = j\<lparr>ja_boot_alternative := a\<rparr>"

definition set_assignment :: "pars_spec_node \<Rightarrow> 'a job_assign_scheme \<Rightarrow> 'a job_assign_scheme" where
  "set_assignment spec j = j\<lparr>ja_nodespec := Some spec\<rparr>"

definition set_virtual_assignment :: "'a job_assign_scheme \<Rightarrow> 'a job_assign_scheme" where
  "set_virtual_assignment j = j\<lparr>ja_virtual_assignment := True\<rparr>"

definition has_assignment :: "'a job_assign_scheme \<Rightarrow> bool" where
  "has_assignment j = (ja_nodespec j \<noteq> None)"

definition has_selected_alternative :: "'a job_assign_scheme \<Rightarrow> bool" where
  "has_selected_alternative j = (ja_boot_alternative j \<noteq> None)"

definition clean_assign :: "'a job_assign_scheme \<Rightarrow> 'a job_assign_scheme" where
  "clean_assign j =
     j\<lparr>ja_nodespec := None, ja_boot_alternative := None, ja_scratch_type := ScratchNone,
       ja_flag_fairshare := False, ja_virtual_assignment := False\<rparr>"

text \<open>One property of the specification, as \<open>get_assign_string\<close> prints or skips it.\<close>

definition assign_prop_string :: "resc_info_db \<Rightarrow> string \<Rightarrow> AssignStringMode \<Rightarrow> pars_prop \<Rightarrow> string" where
  "assign_prop_string db node_name mode p =
     (if node_name = pp_name p then []
      else
        (let skip = (res_check_type db (pp_name p) = ResCheckDynamic \<or>
                     res_check_type db (pp_name p) = ResCheckCache)
         in if \<not> skip \<and>
               (mode = FullAssignString \<or>
                (mode = RescOnlyAssignString \<and> pp_value p \<noteq> None) \<or>
                (mode = NumericOnlyAssignString \<and>
                   (case pp_value p of None \<Rightarrow> False | Some v \<Rightarrow> atoi v > 0)))
            then '':'' @ pp_name p @ (case pp_value p of None \<Rightarrow> [] | Some v \<Rightarrow> ''='' @ v)
            else []))"

definition scratch_mb :: "nat \<Rightarrow> nat" where
  "scratch_mb kb = (kb + 1023) div 1024"

definition assign_scratch_string :: "ScratchType \<Rightarrow> nat \<Rightarrow> string" where
  "assign_scratch_string type scratch =
     (if type \<noteq> ScratchNone then
        '':scratch_type='' @
        (if type = ScratchSSD then ''ssd'' else if type = ScratchShared then ''shared''
         else if type = ScratchLocal then ''local'' else []) @
        '':scratch_volume='' @ show_nat (scratch_mb scratch) @ ''mb'' @
        (if type = ScratchLocal then '':scratch_local='' @ show_nat (scratch_mb scratch) @ ''mb''
         else if type = ScratchSSD then '':scratch_ssd='' @ show_nat (scratch_mb scratch) @ ''mb''
         else [])
      else [])"

text \<open>\<open>get_assign_string\<close>; the source dereferences the assignment without a check, \<open>None\<close> is that.\<close>

definition get_assign_string :: "resc_info_db \<Rightarrow> 'a job_assign_scheme \<Rightarrow> string \<Rightarrow> AssignStringMode \<Rightarrow> string option" where
  "get_assign_string db j node_name mode =
     (case ja_nodespec j of
        None \<Rightarrow> None
      | Some spec \<Rightarrow> Some (
          ''host='' @ node_name @ '':ppn='' @ show_nat (ps_procs spec) @
          (if ps_mem spec \<noteq> 0 then '':mem='' @ show_nat (ps_mem spec) @ ''KB'' else []) @
          (if ps_vmem spec \<noteq> 0 then '':vmem='' @ show_nat (ps_vmem spec) @ ''KB'' else []) @
          concat (map (assign_prop_string db node_name mode) (ps_properties spec)) @
          assign_scratch_string (ja_scratch_type j) (ps_scratch spec) @
          (case ja_boot_alternative j of None \<Rightarrow> [] | Some a \<Rightarrow> '':alternative='' @ ra_name a)))"

lemma clean_assign_new: "job_assign.truncate (clean_assign j) = new_job_assign"
  by (simp add: clean_assign_def new_job_assign_def job_assign.truncate_def)

lemma has_assignment_simps [simp]:
  "has_assignment (set_assignment spec j)"
  "\<not> has_assignment (clean_assign j)"
  "has_assignment (set_scratch_assign s j) = has_assignment j"
  "has_assignment (set_selected_alternative a j) = has_assignment j"
  by (simp_all add: has_assignment_def set_assignment_def clean_assign_def set_scratch_assign_def
      set_selected_alternative_def)

text \<open>The metadata keep the first registration of a name.\<close>

lemma res_check_type_insert:
  "res_check_type (fst (db_insert db name comment source)) n =
     (if n = name \<and> map_of db name = None then source else res_check_type db n)"
  by (cases "map_of db name"; cases "map_of db n")
    (auto simp: db_insert_def res_check_type_def map_add_def)

text \<open>The volume printed in megabytes covers the request in kilobytes, by less than a megabyte.\<close>

lemma scratch_mb_covers: "s \<le> 1024 * scratch_mb s \<and> 1024 * scratch_mb s < s + 1024"
proof -
  have "(s + 1023) div 1024 * 1024 + (s + 1023) mod 1024 = s + 1023" by (rule div_mult_mod_eq)
  moreover have "(s + 1023) mod 1024 < 1024" by (rule mod_less_divisor) simp
  ultimately show ?thesis unfolding scratch_mb_def by linarith
qed

end
