(* ===== verification/Ordering.thy ===== *)
theory Ordering
  imports Prelude "HOL-Library.Product_Lexorder" "HOL-Library.Multiset"
begin

text \<open>
  Sorting with a comparison function.  \<open>std::sort\<close> requires a strict weak order: the locale
  \<open>strict_weak\<close> states that, and proves what a sort with such an order returns.  \<open>keyed_order\<close> is the
  common case of a comparison by a key; the comparison functions of the scheduler are interpreted
  in the theories that define them.
\<close>

text \<open>
  \<open>std::sort\<close>, as a stable insertion sort: where the order leaves elements equivalent, this is one
  of the results the standard allows.
\<close>

fun insert_by :: "('a \<Rightarrow> 'a \<Rightarrow> bool) \<Rightarrow> 'a \<Rightarrow> 'a list \<Rightarrow> 'a list" where
  "insert_by lt x [] = [x]"
| "insert_by lt x (y # ys) = (if lt y x then y # insert_by lt x ys else x # y # ys)"

definition sort_by :: "('a \<Rightarrow> 'a \<Rightarrow> bool) \<Rightarrow> 'a list \<Rightarrow> 'a list" where
  "sort_by lt xs = foldr (insert_by lt) xs []"

lemma mset_insert_by [simp]: "mset (insert_by lt x ys) = add_mset x (mset ys)"
  by (induction ys) auto

lemma set_insert_by [simp]: "set (insert_by lt x ys) = insert x (set ys)"
  by (induction ys) auto

lemma mset_sort_by [simp]: "mset (sort_by lt xs) = mset xs"
  by (induction xs) (auto simp: sort_by_def)

lemma set_sort_by [simp]: "set (sort_by lt xs) = set xs"
  using mset_sort_by[of lt xs] by (metis set_mset_mset)

lemma length_sort_by [simp]: "length (sort_by lt xs) = length xs"
  using mset_sort_by[of lt xs] by (metis size_mset)

lemma distinct_sort_by [simp]: "distinct (sort_by lt xs) = distinct xs"
  using mset_sort_by[of lt xs] by (metis mset_eq_imp_distinct_iff)

locale strict_weak =
  fixes lt :: "'a \<Rightarrow> 'a \<Rightarrow> bool"
  assumes irrefl: "\<not> lt x x"
    and trans: "lt x y \<Longrightarrow> lt y z \<Longrightarrow> lt x z"
    and split: "lt x z \<Longrightarrow> lt x y \<or> lt y z"
begin

lemma asym: "lt x y \<Longrightarrow> \<not> lt y x"
  using irrefl trans by blast

lemma not_lt_trans: "\<not> lt y x \<Longrightarrow> \<not> lt z y \<Longrightarrow> \<not> lt z x"
  using split by blast

lemma sorted_insert_by:
  "sorted_wrt (\<lambda>x y. \<not> lt y x) ys \<Longrightarrow> sorted_wrt (\<lambda>x y. \<not> lt y x) (insert_by lt x ys)"
proof (induction ys)
  case (Cons y ys)
  show ?case
  proof (cases "lt y x")
    case True
    then show ?thesis using Cons asym[OF True] by simp
  next
    case False
    then have "\<forall>z \<in> set ys. \<not> lt z x" using Cons.prems not_lt_trans[OF False] by simp
    then show ?thesis using Cons.prems False by simp
  qed
qed simp

lemma sorted_sort_by: "sorted_wrt (\<lambda>x y. \<not> lt y x) (sort_by lt xs)"
  by (induction xs) (simp_all add: sort_by_def sorted_insert_by)

lemma first_is_least:
  assumes "sort_by lt xs = y # ys" and "x \<in> set xs"
  shows "\<not> lt x y"
proof -
  have "x \<in> set (y # ys)" using assms set_sort_by by metis
  moreover have "sorted_wrt (\<lambda>x y. \<not> lt y x) (y # ys)" using sorted_sort_by assms(1) by metis
  ultimately show ?thesis using irrefl by auto
qed

end

locale keyed_order =
  fixes lt :: "'a \<Rightarrow> 'a \<Rightarrow> bool" and key :: "'a \<Rightarrow> 'b::linorder"
  assumes lt_key: "lt x y \<longleftrightarrow> key x < key y"

sublocale keyed_order \<subseteq> strict_weak
  by unfold_locales (auto simp: lt_key)

text \<open>The first comparison that tells two elements apart decides.\<close>

fun first_differs :: "('a \<Rightarrow> 'a \<Rightarrow> bool) list \<Rightarrow> 'a \<Rightarrow> 'a \<Rightarrow> bool" where
  "first_differs [] x y = False"
| "first_differs (c # cs) x y =
     (if \<not> c x y \<and> \<not> c y x then first_differs cs x y else c x y)"

lemma strict_weak_Cons:
  assumes "strict_weak c" and "strict_weak r"
  shows "strict_weak (\<lambda>x y. if \<not> c x y \<and> \<not> c y x then r x y else c x y)"
proof
  fix x y z
  note C = strict_weak.irrefl[OF assms(1)] strict_weak.trans[OF assms(1)] strict_weak.split[OF assms(1)]
  note R = strict_weak.irrefl[OF assms(2)] strict_weak.trans[OF assms(2)] strict_weak.split[OF assms(2)]
  let ?l = "\<lambda>x y. if \<not> c x y \<and> \<not> c y x then r x y else c x y"
  show "\<not> ?l x x" using C(1) R(1) by simp
  show "?l x z" if "?l x y" "?l y z"
    using that C R by (smt (verit, best))
  show "?l x y \<or> ?l y z" if "?l x z"
    using that C R by (smt (verit, best))
qed

lemma strict_weak_first_differs:
  "\<forall>c \<in> set cs. strict_weak c \<Longrightarrow> strict_weak (first_differs cs)"
proof (induction cs)
  case Nil
  then show ?case by unfold_locales auto
next
  case (Cons c cs)
  then have "strict_weak (\<lambda>x y. if \<not> c x y \<and> \<not> c y x then first_differs cs x y else c x y)"
    by (intro strict_weak_Cons) auto
  moreover have "(\<lambda>x y. if \<not> c x y \<and> \<not> c y x then first_differs cs x y else c x y)
      = first_differs (c # cs)"
    by (intro ext) simp
  ultimately show ?case by simp
qed

end
