(* ===== verification/JobInfo.thy ===== *)
theory JobInfo
  imports NodeData NodeSpec Ordering
begin

text \<open>
  Jobs: \<open>src/JobInfo.cpp\<close> (construction from the server's reply, the cached node specification, times),
  the resource request lists and state letters of \<open>src/job_info.cpp\<close>, the state counters of
  \<open>src/SchedulerCore_StateCount.cpp\<close> and the job comparison functions of \<open>src/sort.cpp\<close>.
  \<open>parse_nodespec\<close> belongs to the torque library and is a parameter.
\<close>

section \<open>Resource requests\<close>

record resource_req =
  rq_name :: string
  rq_amount :: int
  rq_res_str :: "string option"

definition new_resource_req :: "string \<Rightarrow> resource_req" where
  "new_resource_req name = \<lparr>rq_name = name, rq_amount = 0, rq_res_str = None\<rparr>"

fun find_resource_req :: "resource_req list \<Rightarrow> string \<Rightarrow> resource_req option" where
  "find_resource_req [] name = None"
| "find_resource_req (r # rs) name = (if rq_name r = name then Some r else find_resource_req rs name)"

text \<open>
  \<open>find_alloc_resource_req\<close> and the write through the pointer it returns: the first entry of that name
  is changed, or a new one is appended.
\<close>

fun with_alloc_resource_req :: "string \<Rightarrow> (resource_req \<Rightarrow> resource_req) \<Rightarrow> resource_req list \<Rightarrow> resource_req list" where
  "with_alloc_resource_req name f [] = [f (new_resource_req name)]"
| "with_alloc_resource_req name f (r # rs) =
     (if rq_name r = name then f r # rs else r # with_alloc_resource_req name f rs)"

definition clone_resource_req_list :: "resource_req list \<Rightarrow> resource_req list" where
  "clone_resource_req_list list = map (\<lambda>r.
     \<lparr>rq_name = rq_name r, rq_amount = rq_amount r, rq_res_str = rq_res_str r\<rparr>) list"

section \<open>Jobs\<close>

datatype JobState =
    JobNoState | JobQueued | JobRunning | JobHeld | JobWaiting | JobTransit | JobExiting
  | JobSuspended | JobCompleted | JobCrossRun

datatype ClusterMode = ClusterNone | ClusterCreate | ClusterUse

text \<open>The fields of a queue that the job and node checks read.\<close>

record queue_info =
  qi_name :: string
  qi_is_started :: bool
  qi_is_exec :: bool
  qi_is_global :: bool
  qi_dedtime_queue :: bool
  qi_excl_nodes_only :: bool
  qi_is_admin_queue :: bool
  qi_max_run :: int
  qi_max_user_run :: int
  qi_max_group_run :: int
  qi_max_proc :: int
  qi_max_user_proc :: int
  qi_max_group_proc :: int
  qi_priority :: int
  qi_starving_support :: int
  qi_excl_node_count :: nat

record job_info =
  ji_job_id :: string
  ji_custom_name :: string
  ji_comment :: string
  ji_nodespec :: string
  ji_qtime :: int
  ji_stime :: int
  ji_priority :: int
  ji_account :: string
  ji_group :: string
  ji_state :: JobState
  ji_can_never_run :: bool
  ji_can_not_run :: bool
  ji_calculated_fairshare :: rat
  ji_sched_nodespec :: string
  ji_planned_nodes :: string
  ji_planned_start :: int
  ji_compl_time :: int
  ji_waiting_for :: string
  ji_schedule :: "nat list"
  ji_cluster_name :: string
  ji_cluster_mode :: ClusterMode
  ji_placement :: string
  ji_resreq :: "resource_req list"
  ji_resused :: "resource_req list"
  ji_parsed :: "pars_spec option"

definition init_job_info :: "string \<Rightarrow> job_info" where
  "init_job_info name =
     \<lparr>ji_job_id = name, ji_custom_name = [], ji_comment = [], ji_nodespec = [], ji_qtime = 0, ji_stime = 0,
      ji_priority = 0, ji_account = [], ji_group = [], ji_state = JobNoState, ji_can_never_run = False,
      ji_can_not_run = False, ji_calculated_fairshare = 0, ji_sched_nodespec = [], ji_planned_nodes = [],
      ji_planned_start = 0, ji_compl_time = 0, ji_waiting_for = [], ji_schedule = [], ji_cluster_name = [],
      ji_cluster_mode = ClusterNone, ji_placement = [], ji_resreq = [], ji_resused = [], ji_parsed = None\<rparr>"

text \<open>\<open>set_state\<close>: an unknown letter leaves the state as it is.\<close>

definition set_state :: "string \<Rightarrow> JobState \<Rightarrow> JobState" where
  "set_state state old =
     (if state = [] then old
      else if hd state = CHR ''Q'' then JobQueued
      else if hd state = CHR ''R'' then JobRunning
      else if hd state = CHR ''T'' then JobTransit
      else if hd state = CHR ''H'' then JobHeld
      else if hd state = CHR ''W'' then JobWaiting
      else if hd state = CHR ''E'' then JobExiting
      else if hd state = CHR ''S'' then JobSuspended
      else if hd state = CHR ''C'' then JobCompleted
      else if hd state = CHR ''X'' then JobCrossRun
      else old)"

text \<open>
  The numeric attributes: \<open>count\<close> is an \<open>int\<close>, and the result is \<open>-1\<close> when the conversion stops at a
  newline.
\<close>

definition job_count_attr :: "string \<Rightarrow> int" where
  "job_count_attr value =
     (let (c, endp) = strtol value
      in if \<not> (endp \<noteq> [] \<and> hd endp = CHR 0x0A) then to_sint c else - 1)"

definition job_resource_list :: "job_info \<Rightarrow> string \<Rightarrow> string \<Rightarrow> job_info" where
  "job_resource_list j res v =
     (if res = ''cluster'' then
        (if v = ''create'' then j\<lparr>ji_cluster_mode := ClusterCreate\<rparr>
         else j\<lparr>ji_cluster_mode := ClusterUse, ji_cluster_name := v\<rparr>)
      else if res = ''processed_nodes'' then j\<lparr>ji_nodespec := v\<rparr>
      else if res = ''place'' then j\<lparr>ji_placement := v\<rparr>
      else j)"

definition job_attr :: "job_info \<Rightarrow> attrl \<Rightarrow> job_info" where
  "job_attr j a =
     (let name = at_name a; v = at_value a
      in if name = ''Job_Name'' then j\<lparr>ji_custom_name := v\<rparr>
         else if name = ''comment'' then j\<lparr>ji_comment := v\<rparr>
         else if name = ''qtime'' then j\<lparr>ji_qtime := job_count_attr v\<rparr>
         else if name = ''start_time'' then j\<lparr>ji_stime := job_count_attr v\<rparr>
         else if name = ''Priority'' then j\<lparr>ji_priority := job_count_attr v\<rparr>
         else if name = ''euser'' then j\<lparr>ji_account := v\<rparr>
         else if name = ''egroup'' then j\<lparr>ji_group := v\<rparr>
         else if name = ''job_state'' then j\<lparr>ji_state := set_state v (ji_state j)\<rparr>
         else if name = ''fairshare_cost'' then j\<lparr>ji_calculated_fairshare := atof v\<rparr>
         else if name = ''sched_nodespec'' then j\<lparr>ji_sched_nodespec := v\<rparr>
         else if name = ''planned_nodes'' then j\<lparr>ji_planned_nodes := v\<rparr>
         else if name = ''waiting_for_jobs'' then j\<lparr>ji_waiting_for := v\<rparr>
         else if name = ''planned_start'' then j\<lparr>ji_planned_start := job_count_attr v\<rparr>
         else if name = ''comp_time'' then j\<lparr>ji_compl_time := job_count_attr v\<rparr>
         else if name = ''Resource_List'' then job_resource_list j (at_resource a) v
         else if name = ''resc_req_total'' then
           j\<lparr>ji_resreq := with_alloc_resource_req (at_resource a)
               (\<lambda>r. r\<lparr>rq_res_str := Some v, rq_amount := res_to_num v\<rparr>) (ji_resreq j)\<rparr>
         else if name = ''resources_used'' then
           j\<lparr>ji_resused := with_alloc_resource_req (at_resource a)
               (\<lambda>r. r\<lparr>rq_amount := res_to_num v\<rparr>) (ji_resused j)\<rparr>
         else j)"

definition new_job_info :: "batch_status \<Rightarrow> job_info" where
  "new_job_info job = foldl job_attr (init_job_info (bs_name job)) (bs_attribs job)"

text \<open>\<open>parsed_nodespec\<close>: the cached parse, filled on first use; an empty text becomes \<open>1:ppn=1\<close>.\<close>

definition parsed_nodespec :: "(string \<Rightarrow> pars_spec) \<Rightarrow> job_info \<Rightarrow> pars_spec \<times> job_info" where
  "parsed_nodespec parse j =
     (case ji_parsed j of
        Some s \<Rightarrow> (s, j)
      | None \<Rightarrow>
          (let text = (if ji_nodespec j = [] then ''1:ppn=1'' else ji_nodespec j);
               s = parse text
           in (s, j\<lparr>ji_nodespec := text, ji_parsed := Some s\<rparr>)))"

definition clean_parsed_nodespec :: "job_info \<Rightarrow> job_info" where
  "clean_parsed_nodespec j = j\<lparr>ji_parsed := None\<rparr>"

definition job_spec :: "(string \<Rightarrow> pars_spec) \<Rightarrow> job_info \<Rightarrow> pars_spec" where
  "job_spec parse j = fst (parsed_nodespec parse j)"

definition is_exclusive :: "(string \<Rightarrow> pars_spec) \<Rightarrow> job_info \<Rightarrow> bool" where
  "is_exclusive parse j = sp_is_exclusive (job_spec parse j)"

definition is_multinode :: "(string \<Rightarrow> pars_spec) \<Rightarrow> job_info \<Rightarrow> bool" where
  "is_multinode parse j = (sp_total_nodes (job_spec parse j) > 1)"

definition get_walltime :: "job_info \<Rightarrow> int" where
  "get_walltime j =
     (case find_resource_req (ji_resreq j) ''walltime'' of None \<Rightarrow> 0 | Some r \<Rightarrow> rq_amount r)"

definition TIME_T_MAX :: int where "TIME_T_MAX = 2 ^ 63 - 1"

definition completion_time :: "job_info \<Rightarrow> int" where
  "completion_time j =
     (case find_resource_req (ji_resreq j) ''walltime'' of
        None \<Rightarrow> TIME_T_MAX | Some r \<Rightarrow> ji_stime j + rq_amount r)"

definition is_starving :: "int \<Rightarrow> queue_info \<Rightarrow> job_info \<Rightarrow> bool" where
  "is_starving current_time q j =
     (ji_state j = JobQueued \<and> qi_starving_support q \<ge> 0 \<and>
      ji_qtime j + qi_starving_support q < current_time)"

text \<open>\<open>calc_time_left\<close> of \<open>src/misc.cpp\<close>.\<close>

definition calc_time_left :: "job_info \<Rightarrow> int" where
  "calc_time_left j =
     (case find_resource_req (ji_resreq j) ''walltime'' of
        None \<Rightarrow> - 1
      | Some req \<Rightarrow>
          (let used_amount = (case find_resource_req (ji_resused j) ''walltime'' of
                                None \<Rightarrow> 0 | Some u \<Rightarrow> to_sint (rq_amount u))
           in to_sint (rq_amount req - used_amount)))"

definition update_job_on_run :: "job_info \<Rightarrow> job_info" where
  "update_job_on_run j = j\<lparr>ji_state := JobRunning\<rparr>"

definition update_job_on_move :: "job_info \<Rightarrow> job_info" where
  "update_job_on_move j = j\<lparr>ji_state := JobCrossRun\<rparr>"

section \<open>State counters\<close>

record state_count =
  sc_running :: int
  sc_queued :: int
  sc_held :: int
  sc_transit :: int
  sc_waiting :: int
  sc_exiting :: int
  sc_suspended :: int
  sc_completed :: int
  sc_crossrun :: int
  sc_total :: int

definition zero_state_count :: state_count where
  "zero_state_count =
     \<lparr>sc_running = 0, sc_queued = 0, sc_held = 0, sc_transit = 0, sc_waiting = 0, sc_exiting = 0,
      sc_suspended = 0, sc_completed = 0, sc_crossrun = 0, sc_total = 0\<rparr>"

fun count_state :: "JobState \<Rightarrow> state_count \<Rightarrow> state_count" where
  "count_state JobQueued c = c\<lparr>sc_queued := sc_queued c + 1\<rparr>"
| "count_state JobRunning c = c\<lparr>sc_running := sc_running c + 1\<rparr>"
| "count_state JobTransit c = c\<lparr>sc_transit := sc_transit c + 1\<rparr>"
| "count_state JobExiting c = c\<lparr>sc_exiting := sc_exiting c + 1\<rparr>"
| "count_state JobHeld c = c\<lparr>sc_held := sc_held c + 1\<rparr>"
| "count_state JobWaiting c = c\<lparr>sc_waiting := sc_waiting c + 1\<rparr>"
| "count_state JobSuspended c = c\<lparr>sc_suspended := sc_suspended c + 1\<rparr>"
| "count_state JobCompleted c = c\<lparr>sc_completed := sc_completed c + 1\<rparr>"
| "count_state JobCrossRun c = c\<lparr>sc_crossrun := sc_crossrun c + 1\<rparr>"
| "count_state JobNoState c = c"

definition sum_states :: "state_count \<Rightarrow> int" where
  "sum_states c =
     sc_queued c + sc_running c + sc_transit c + sc_exiting c + sc_held c + sc_waiting c +
     sc_suspended c + sc_completed c + sc_crossrun c"

definition count_states :: "job_info list \<Rightarrow> state_count \<Rightarrow> state_count" where
  "count_states jobs c =
     (let c' = fold (\<lambda>j. count_state (ji_state j)) jobs c in c'\<lparr>sc_total := sum_states c'\<rparr>)"

text \<open>\<open>operator+=\<close> and \<open>operator+\<close> add every counter but the total.\<close>

definition plus_state_count :: "state_count \<Rightarrow> state_count \<Rightarrow> state_count" where
  "plus_state_count a b =
     a\<lparr>sc_queued := sc_queued a + sc_queued b, sc_running := sc_running a + sc_running b,
       sc_transit := sc_transit a + sc_transit b, sc_exiting := sc_exiting a + sc_exiting b,
       sc_held := sc_held a + sc_held b, sc_waiting := sc_waiting a + sc_waiting b,
       sc_suspended := sc_suspended a + sc_suspended b, sc_completed := sc_completed a + sc_completed b,
       sc_crossrun := sc_crossrun a + sc_crossrun b\<rparr>"

section \<open>Job comparison\<close>

definition cmp_generic_asc :: "resource_req option \<Rightarrow> resource_req option \<Rightarrow> bool" where
  "cmp_generic_asc r1 r2 =
     (case (r1, r2) of
        (None, Some _) \<Rightarrow> False
      | (Some _, None) \<Rightarrow> True
      | (Some a, Some b) \<Rightarrow> rq_amount a < rq_amount b
      | (None, None) \<Rightarrow> False)"

definition cmp_generic_desc :: "resource_req option \<Rightarrow> resource_req option \<Rightarrow> bool" where
  "cmp_generic_desc r1 r2 =
     (case (r1, r2) of
        (None, Some _) \<Rightarrow> True
      | (Some _, None) \<Rightarrow> False
      | (Some a, Some b) \<Rightarrow> rq_amount a > rq_amount b
      | (None, None) \<Rightarrow> False)"

definition cmp_job_res_asc :: "string \<Rightarrow> job_info \<Rightarrow> job_info \<Rightarrow> bool" where
  "cmp_job_res_asc res j1 j2 =
     cmp_generic_asc (find_resource_req (ji_resreq j1) res) (find_resource_req (ji_resreq j2) res)"

definition cmp_job_res_dsc :: "string \<Rightarrow> job_info \<Rightarrow> job_info \<Rightarrow> bool" where
  "cmp_job_res_dsc res j1 j2 =
     cmp_generic_desc (find_resource_req (ji_resreq j1) res) (find_resource_req (ji_resreq j2) res)"

definition cmp_job_walltime_asc where "cmp_job_walltime_asc = cmp_job_res_asc ''walltime''"
definition cmp_job_walltime_dsc where "cmp_job_walltime_dsc = cmp_job_res_dsc ''walltime''"
definition cmp_job_cput_asc where "cmp_job_cput_asc = cmp_job_res_asc ''cput''"
definition cmp_job_cput_dsc where "cmp_job_cput_dsc = cmp_job_res_dsc ''cput''"
definition cmp_job_mem_asc where "cmp_job_mem_asc = cmp_job_res_asc ''mem''"
definition cmp_job_mem_dsc where "cmp_job_mem_dsc = cmp_job_res_dsc ''mem''"

definition cmp_job_prio_asc :: "job_info \<Rightarrow> job_info \<Rightarrow> bool" where
  "cmp_job_prio_asc j1 j2 = (ji_priority j1 < ji_priority j2)"

definition cmp_job_prio_dsc :: "job_info \<Rightarrow> job_info \<Rightarrow> bool" where
  "cmp_job_prio_dsc j1 j2 = (ji_priority j1 > ji_priority j2)"

text \<open>\<open>perc\<close> reads the percentage of the job's node in the fairshare tree.\<close>

definition cmp_fair_share :: "(job_info \<Rightarrow> rat) \<Rightarrow> job_info \<Rightarrow> job_info \<Rightarrow> bool" where
  "cmp_fair_share perc j1 j2 = (perc j1 > perc j2)"

text \<open>\<open>multi_sort\<close> over the configured comparisons, up to the \<open>NO_SORT\<close> entry.\<close>

definition multi_sort :: "(job_info \<Rightarrow> job_info \<Rightarrow> bool) list \<Rightarrow> job_info \<Rightarrow> job_info \<Rightarrow> bool" where
  "multi_sort sorts j1 j2 = first_differs sorts j1 j2"

section \<open>Requests\<close>

lemma find_with_alloc:
  assumes "\<And>r. rq_name (f r) = rq_name r"
  shows "find_resource_req (with_alloc_resource_req name f rs) name' =
     (if name' = name then Some (f (case find_resource_req rs name of None \<Rightarrow> new_resource_req name | Some r \<Rightarrow> r))
      else find_resource_req rs name')"
  using assms by (induction rs) (auto simp: new_resource_req_def)

lemma distinct_with_alloc:
  assumes "\<And>r. rq_name (f r) = rq_name r"
  shows "distinct (map rq_name rs) \<Longrightarrow> distinct (map rq_name (with_alloc_resource_req name f rs))"
proof (induction rs)
  case (Cons r rs)
  have "set (map rq_name (with_alloc_resource_req name f rs)) \<subseteq> insert name (set (map rq_name rs))"
    using assms by (induction rs) (auto simp: new_resource_req_def)
  then show ?case using Cons assms by auto
qed (simp add: assms)

lemma clone_resource_req_list_id [simp]: "clone_resource_req_list rs = rs"
  by (auto simp: clone_resource_req_list_def intro!: map_idI)

text \<open>Requests of a constructed job have distinct names.\<close>

lemma job_attr_distinct:
  assumes "distinct (map rq_name (ji_resreq j))"
  shows "distinct (map rq_name (ji_resreq (job_attr j a)))"
proof -
  have "distinct (map rq_name (with_alloc_resource_req (at_resource a)
      (\<lambda>r. r\<lparr>rq_res_str := Some (at_value a), rq_amount := res_to_num (at_value a)\<rparr>) (ji_resreq j)))"
    using assms by (intro distinct_with_alloc) auto
  then show ?thesis
    using assms unfolding job_attr_def job_resource_list_def Let_def
    by (simp del: distinct_map)
qed

section \<open>The cached specification\<close>

text \<open>The cache is empty or holds the parse of the job's text.\<close>

definition spec_cache_ok :: "(string \<Rightarrow> pars_spec) \<Rightarrow> job_info \<Rightarrow> bool" where
  "spec_cache_ok parse j \<longleftrightarrow>
     (case ji_parsed j of None \<Rightarrow> True | Some s \<Rightarrow> ji_nodespec j \<noteq> [] \<and> s = parse (ji_nodespec j))"

lemma job_spec_eq:
  "spec_cache_ok parse j \<Longrightarrow>
     job_spec parse j = parse (if ji_nodespec j = [] then ''1:ppn=1'' else ji_nodespec j)"
  by (auto simp: job_spec_def parsed_nodespec_def spec_cache_ok_def Let_def split: option.splits)

lemma parsed_nodespec_ok:
  "spec_cache_ok parse j \<Longrightarrow> parsed_nodespec parse j = (s, j') \<Longrightarrow>
     spec_cache_ok parse j' \<and> job_spec parse j' = s \<and> job_spec parse j = s \<and> ji_parsed j' = Some s"
  by (auto simp: job_spec_def parsed_nodespec_def spec_cache_ok_def Let_def split: option.splits if_splits)

section \<open>Counting\<close>

lemma sum_count_state:
  "sum_states (count_state s c) = sum_states c + (if s = JobNoState then 0 else 1)"
  by (cases s) (simp_all add: sum_states_def)

lemma sum_count_states:
  "sum_states (fold (\<lambda>j. count_state (ji_state j)) jobs c) =
     sum_states c + int (length (filter (\<lambda>j. ji_state j \<noteq> JobNoState) jobs))"
  by (induction jobs arbitrary: c) (auto simp: sum_count_state)

lemma count_state_running:
  "sc_running (fold (\<lambda>j. count_state (ji_state j)) jobs c) =
     sc_running c + int (length (filter (\<lambda>j. ji_state j = JobRunning) jobs))"
proof (induction jobs arbitrary: c)
  case (Cons j jobs)
  have "sc_running (count_state (ji_state j) c) = sc_running c + (if ji_state j = JobRunning then 1 else 0)"
    by (cases "ji_state j") simp_all
  then show ?case by (simp add: Cons)
qed simp

section \<open>The comparison functions are strict weak orders\<close>

definition req_key_asc :: "string \<Rightarrow> job_info \<Rightarrow> bool \<times> int" where
  "req_key_asc res j =
     (case find_resource_req (ji_resreq j) res of None \<Rightarrow> (True, 0) | Some r \<Rightarrow> (False, rq_amount r))"

definition req_key_dsc :: "string \<Rightarrow> job_info \<Rightarrow> bool \<times> int" where
  "req_key_dsc res j =
     (case find_resource_req (ji_resreq j) res of None \<Rightarrow> (False, 0) | Some r \<Rightarrow> (True, - rq_amount r))"

interpretation res_asc: keyed_order "cmp_job_res_asc res" "req_key_asc res" for res
  by unfold_locales
    (auto simp: cmp_job_res_asc_def cmp_generic_asc_def req_key_asc_def split: option.splits)

interpretation res_dsc: keyed_order "cmp_job_res_dsc res" "req_key_dsc res" for res
  by unfold_locales
    (auto simp: cmp_job_res_dsc_def cmp_generic_desc_def req_key_dsc_def split: option.splits)

interpretation prio_asc: keyed_order cmp_job_prio_asc ji_priority
  by unfold_locales (simp add: cmp_job_prio_asc_def)

interpretation prio_dsc: keyed_order cmp_job_prio_dsc "\<lambda>j. - ji_priority j"
  by unfold_locales (simp add: cmp_job_prio_dsc_def)

interpretation fair_share: keyed_order "cmp_fair_share perc" "\<lambda>j. - perc j" for perc
  by unfold_locales (simp add: cmp_fair_share_def)

text \<open>The comparisons a configuration can name.\<close>

definition job_cmps :: "(job_info \<Rightarrow> rat) \<Rightarrow> (job_info \<Rightarrow> job_info \<Rightarrow> bool) set" where
  "job_cmps perc =
     {cmp_job_cput_asc, cmp_job_cput_dsc, cmp_job_mem_asc, cmp_job_mem_dsc, cmp_job_prio_dsc,
      cmp_job_prio_asc, cmp_job_walltime_dsc, cmp_job_walltime_asc, cmp_fair_share perc}"

lemmas cmp_job_defs =
  cmp_job_walltime_asc_def cmp_job_walltime_dsc_def cmp_job_cput_asc_def cmp_job_cput_dsc_def
  cmp_job_mem_asc_def cmp_job_mem_dsc_def

lemma job_cmps_strict_weak: "c \<in> job_cmps perc \<Longrightarrow> strict_weak c"
  using res_asc.strict_weak_axioms res_dsc.strict_weak_axioms prio_asc.strict_weak_axioms
    prio_dsc.strict_weak_axioms fair_share.strict_weak_axioms
  by (auto simp: job_cmps_def cmp_job_defs)

lemma multi_sort_strict_weak: "set cs \<subseteq> job_cmps perc \<Longrightarrow> strict_weak (multi_sort cs)"
proof -
  assume "set cs \<subseteq> job_cmps perc"
  then have "strict_weak (first_differs cs)"
    using job_cmps_strict_weak by (intro strict_weak_first_differs) blast
  moreover have "multi_sort cs = first_differs cs" by (intro ext) (simp add: multi_sort_def)
  ultimately show ?thesis by simp
qed

end
