(* ===== verification/NodeLogic.thy ===== *)
theory NodeLogic
  imports JobInfo
begin

text \<open>
  The capacity checks of a node: \<open>src/logic/NodeLogic.cpp\<close>.  The parameters are what the source reaches
  through pointers and globals: the job's queue, the store of resources, the resource metadata and the
  dynamic resources of the parent server.  Unsigned amounts are converted to the signed types of the
  checks as the source does.
\<close>

record node_logic = node_data +
  nl_core_assigned :: int
  nl_scratch_priority :: "ScratchType list"

text \<open>What the \<open>NodeLogic\<close> constructor adds to the node data.\<close>

definition default_scratch_priority :: "ScratchType list" where
  "default_scratch_priority = [ScratchSSD, ScratchShared, ScratchLocal]"

definition deplete_proc :: "'a node_logic_scheme \<Rightarrow> int \<Rightarrow> 'a node_logic_scheme" where
  "deplete_proc n cnt = n\<lparr>nl_core_assigned := nl_core_assigned n + cnt\<rparr>"

definition freeup_proc :: "'a node_logic_scheme \<Rightarrow> int \<Rightarrow> 'a node_logic_scheme" where
  "freeup_proc n cnt = n\<lparr>nl_core_assigned := nl_core_assigned n - cnt\<rparr>"

definition set_scratch_priority :: "nat \<Rightarrow> ScratchType \<Rightarrow> 'a node_logic_scheme \<Rightarrow> 'a node_logic_scheme option" where
  "set_scratch_priority order scratch n =
     map_option (\<lambda>p. n\<lparr>nl_scratch_priority := p\<rparr>) (vec_set (nl_scratch_priority n) order scratch)"

definition has_proc ::
    "(string \<Rightarrow> pars_spec) \<Rightarrow> queue_info \<Rightarrow> job_info \<Rightarrow> pars_spec_node \<Rightarrow> 'a node_logic_scheme \<Rightarrow> CheckResult" where
  "has_proc parse q job spec n =
     (if qi_is_admin_queue q then
        (if nd_admin_slot_avail n then CheckAvailable
         else if nd_admin_slot_enabled n then CheckOccupied
         else CheckNonFit)
      else if nd_core_total n < to_sint (int (ps_procs spec)) then CheckNonFit
      else if nd_exclusively_assigned n then CheckOccupied
      else if nd_core_free n - nl_core_assigned n = 0 then CheckOccupied
      else if is_exclusive parse job then
        (if nd_core_free n - nl_core_assigned n \<noteq> nd_core_total n then CheckOccupied
         else CheckAvailable)
      else
        (if nd_core_free n - nl_core_assigned n < to_sint (int (ps_procs spec)) then CheckOccupied
         else CheckAvailable))"

definition has_mem :: "rheap \<Rightarrow> queue_info \<Rightarrow> pars_spec_node \<Rightarrow> 'a node_logic_scheme \<Rightarrow> CheckResult" where
  "has_mem h q spec n =
     (if qi_is_admin_queue q then CheckAvailable
      else case nd_get_resource h n ''mem'' of
             None \<Rightarrow> (if ps_mem spec \<noteq> 0 then CheckNonFit else CheckAvailable)
           | Some mem \<Rightarrow> check_numeric_fit mem (to_sll (int (ps_mem spec))))"

definition check_scratch_helper :: "rheap \<Rightarrow> 'a node_logic_scheme \<Rightarrow> string \<Rightarrow> nat \<Rightarrow> CheckResult" where
  "check_scratch_helper h n name value =
     (case nd_get_resource h n name of
        None \<Rightarrow> CheckNonFit
      | Some res \<Rightarrow> check_numeric_fit res (to_sll (int value)))"

text \<open>The shared pool of the node, looked up in the dynamic resources of the server.\<close>

definition check_shared_pool :: "dynamic_resource smap \<Rightarrow> 'a node_logic_scheme \<Rightarrow> nat \<Rightarrow> CheckResult" where
  "check_shared_pool dyn n value =
     (if length (nd_scratch_pool n) > 0 then
        (case smap_find dyn (nd_scratch_pool n) of
           Some d \<Rightarrow> (if would_fit d (to_sll (int value)) then CheckAvailable else CheckOccupied)
         | None \<Rightarrow> CheckNonFit)
      else CheckNonFit)"

text \<open>
  The body of the loop over the scratch priorities.  The \<open>switch\<close> has no \<open>break\<close>: a case falls
  through to the ones below it and finally to \<open>default\<close>.  \<open>Some\<close> is a \<open>return\<close>.
\<close>

definition scratch_try :: "ScratchType \<Rightarrow> ScratchType \<Rightarrow> CheckResult \<Rightarrow> (CheckResult \<times> ScratchType option) option" where
  "scratch_try wanted kind state =
     (if (wanted = ScratchAny \<or> wanted = kind) \<and> state = CheckAvailable
      then Some (CheckAvailable, Some kind) else None)"

function (sequential) scratch_switch :: "ScratchType \<Rightarrow> ScratchType \<Rightarrow> CheckResult \<Rightarrow> CheckResult \<Rightarrow> CheckResult \<Rightarrow>
    (CheckResult \<times> ScratchType option) option" where
  "scratch_switch ScratchSSD wanted ssd shared local =
     or_else (scratch_try wanted ScratchSSD ssd) (scratch_switch ScratchShared wanted ssd shared local)"
| "scratch_switch ScratchShared wanted ssd shared local =
     or_else (scratch_try wanted ScratchShared shared) (scratch_switch ScratchLocal wanted ssd shared local)"
| "scratch_switch ScratchLocal wanted ssd shared local =
     or_else (scratch_try wanted ScratchLocal local) (scratch_switch ScratchNone wanted ssd shared local)"
| "scratch_switch _ wanted ssd shared local = Some (CheckNonFit, None)"
  by pat_completeness auto

termination
  by (relation "measure (\<lambda>(p, _). case p of ScratchSSD \<Rightarrow> 3 | ScratchShared \<Rightarrow> 2 | ScratchLocal \<Rightarrow> 1 | _ \<Rightarrow> 0)") auto

fun scratch_loop :: "ScratchType list \<Rightarrow> ScratchType \<Rightarrow> CheckResult \<Rightarrow> CheckResult \<Rightarrow> CheckResult \<Rightarrow>
    CheckResult \<times> ScratchType option" where
  "scratch_loop [] wanted ssd shared local = (CheckOccupied, None)"
| "scratch_loop (p # ps) wanted ssd shared local =
     (case scratch_switch p wanted ssd shared local of
        Some r \<Rightarrow> r
      | None \<Rightarrow> scratch_loop ps wanted ssd shared local)"

text \<open>\<open>has_scratch\<close>: the result, and the scratch type written through the pointer (\<open>None\<close>: not written).\<close>

definition has_scratch ::
    "rheap \<Rightarrow> dynamic_resource smap \<Rightarrow> queue_info \<Rightarrow> pars_spec_node \<Rightarrow> 'a node_logic_scheme \<Rightarrow>
     CheckResult \<times> ScratchType option" where
  "has_scratch h dyn q spec n =
     (if qi_is_admin_queue q then (CheckAvailable, None)
      else if ps_scratch_type spec = ScratchNone then (CheckAvailable, None)
      else
        (let has_local = check_scratch_helper h n ''scratch_local'' (ps_scratch spec);
             has_ssd = check_scratch_helper h n ''scratch_ssd'' (ps_scratch spec);
             has_shared = check_shared_pool dyn n (ps_scratch spec)
         in if ps_scratch_type spec = ScratchSSD \<and> has_ssd = CheckNonFit then (CheckNonFit, None)
            else if ps_scratch_type spec = ScratchShared \<and> has_shared = CheckNonFit then (CheckNonFit, None)
            else if ps_scratch_type spec = ScratchLocal \<and> has_local = CheckNonFit then (CheckNonFit, None)
            else if has_local = CheckNonFit \<and> has_ssd = CheckNonFit \<and> has_shared = CheckNonFit
              then (CheckNonFit, None)
            else scratch_loop (take 3 (nl_scratch_priority n)) (ps_scratch_type spec) has_ssd has_shared has_local))"

text \<open>\<open>has_resc\<close> on a resource request, that is a property with a value.\<close>

definition has_resc :: "rheap \<Rightarrow> resc_info_db \<Rightarrow> string \<Rightarrow> string \<Rightarrow> 'a node_logic_scheme \<Rightarrow> CheckResult" where
  "has_resc h db name value n =
     (if res_check_type db name = ResCheckDynamic then CheckAvailable
      else if res_check_type db name = ResCheckNone then CheckAvailable
      else if name = ''minspec'' then
        (if nd_node_spec n \<ge> atof value then CheckAvailable else CheckNonFit)
      else if name = ''maxspec'' then
        (if nd_node_spec n \<le> atof value then CheckAvailable else CheckNonFit)
      else if name = ''scratch'' then CheckAvailable
      else case nd_get_resource h n name of
             None \<Rightarrow> CheckNonFit
           | Some resc \<Rightarrow> check_fit resc value)"

section \<open>Processors\<close>

text \<open>Cores are booked like any other capacity.\<close>

definition cores_fit :: "'a node_logic_scheme \<Rightarrow> int \<Rightarrow> bool" where
  "cores_fit n cnt \<longleftrightarrow> cnt \<le> nd_core_free n - nl_core_assigned n"

interpretation cores: reservable deplete_proc freeup_proc cores_fit
  by unfold_locales (auto simp: deplete_proc_def freeup_proc_def cores_fit_def algebra_simps)

lemma has_proc_available:
  assumes "\<not> qi_is_admin_queue q" and "ps_procs spec < 2 ^ 31"
    and "has_proc parse q job spec n = CheckAvailable"
  shows "int (ps_procs spec) \<le> nd_core_total n \<and> \<not> nd_exclusively_assigned n \<and>
     (if is_exclusive parse job then cores_fit n (nd_core_total n) else cores_fit n (int (ps_procs spec)))"
proof -
  have p: "to_sint (int (ps_procs spec)) = int (ps_procs spec)"
    using assms(2) by (intro to_sint_id) auto
  show ?thesis
    using assms(1,3) unfolding has_proc_def p cores_fit_def by (auto split: if_splits)
qed

section \<open>Scratch\<close>

lemma scratch_switch_returns: "scratch_switch p w ssd shared local \<noteq> None"
  by (induction p w ssd shared local rule: scratch_switch.induct)
    (auto simp: or_else_def split: option.splits)

text \<open>Hence the loop is decided by its first entry.\<close>

lemma scratch_loop_first:
  "scratch_loop (p # ps) w ssd shared local = the (scratch_switch p w ssd shared local)"
  using scratch_switch_returns[of p w ssd shared local] by (auto split: option.splits)

lemma scratch_switch_not_occupied:
  "scratch_switch p w ssd shared local = Some (r, s) \<Longrightarrow> r \<noteq> CheckOccupied"
  by (induction p w ssd shared local rule: scratch_switch.induct)
    (auto simp: or_else_def scratch_try_def split: if_splits option.splits)

text \<open>The kinds of scratch tried when the priority list starts with a kind.\<close>

fun scratch_tail :: "ScratchType \<Rightarrow> ScratchType list" where
  "scratch_tail ScratchSSD = [ScratchSSD, ScratchShared, ScratchLocal]"
| "scratch_tail ScratchShared = [ScratchShared, ScratchLocal]"
| "scratch_tail ScratchLocal = [ScratchLocal]"
| "scratch_tail _ = []"

definition scratch_state :: "CheckResult \<Rightarrow> CheckResult \<Rightarrow> CheckResult \<Rightarrow> ScratchType \<Rightarrow> CheckResult" where
  "scratch_state ssd shared local kind =
     (case kind of ScratchSSD \<Rightarrow> ssd | ScratchShared \<Rightarrow> shared | ScratchLocal \<Rightarrow> local | _ \<Rightarrow> CheckNonFit)"

text \<open>The switch picks the first wanted and available kind from its entry downwards.\<close>

lemma scratch_switch_find:
  "scratch_switch p w ssd shared local =
     Some (case List.find (\<lambda>k. (w = ScratchAny \<or> w = k) \<and> scratch_state ssd shared local k = CheckAvailable)
             (scratch_tail p) of
             None \<Rightarrow> (CheckNonFit, None) | Some k \<Rightarrow> (CheckAvailable, Some k))"
  by (cases p) (auto simp: or_else_def scratch_try_def scratch_state_def)

lemma has_scratch_result:
  assumes "\<not> qi_is_admin_queue q" and "ps_scratch_type spec \<noteq> ScratchNone"
    and "nl_scratch_priority n = p # ps"
  shows "has_scratch h dyn q spec n =
     (case List.find (\<lambda>k. (ps_scratch_type spec = ScratchAny \<or> ps_scratch_type spec = k) \<and>
         scratch_state (check_scratch_helper h n ''scratch_ssd'' (ps_scratch spec))
           (check_shared_pool dyn n (ps_scratch spec))
           (check_scratch_helper h n ''scratch_local'' (ps_scratch spec)) k = CheckAvailable)
       (scratch_tail p) of
        None \<Rightarrow> (CheckNonFit, None) | Some k \<Rightarrow> (CheckAvailable, Some k))"
proof -
  let ?ssd = "check_scratch_helper h n ''scratch_ssd'' (ps_scratch spec)"
  let ?sh = "check_shared_pool dyn n (ps_scratch spec)"
  let ?loc = "check_scratch_helper h n ''scratch_local'' (ps_scratch spec)"
  let ?P = "\<lambda>k. (ps_scratch_type spec = ScratchAny \<or> ps_scratch_type spec = k) \<and>
      scratch_state ?ssd ?sh ?loc k = CheckAvailable"
  have take: "take 3 (nl_scratch_priority n) = p # take 2 ps" using assms(3) by simp
  have none: "List.find ?P (scratch_tail p) = None"
    if "(ps_scratch_type spec = ScratchSSD \<and> ?ssd = CheckNonFit) \<or>
        (ps_scratch_type spec = ScratchShared \<and> ?sh = CheckNonFit) \<or>
        (ps_scratch_type spec = ScratchLocal \<and> ?loc = CheckNonFit) \<or>
        (?loc = CheckNonFit \<and> ?ssd = CheckNonFit \<and> ?sh = CheckNonFit)"
    using that by (auto simp: find_None_iff scratch_state_def split: ScratchType.splits)
  show ?thesis
    using assms(1,2) none
    by (auto simp: has_scratch_def Let_def take scratch_loop_first scratch_switch_find
        simp del: scratch_loop.simps)
qed

end
