(* ===== verification/NodeInfo.thy ===== *)
theory NodeInfo
  imports NodeLogic
begin

text \<open>
  Nodes as the scheduler sees them: \<open>src/NodeInfo.h\<close>, \<open>src/NodeInfo.cpp\<close> and the node orders of
  \<open>src/NodeSort.cpp\<close>.  Nodes point to each other (host, hosted nodes, physical node, virtual slaves), so
  they live in a vector of a \<open>world\<close> and pointers are indices into it; the world also holds the store of
  resources and the part of \<open>server_info\<close> that the node checks read and write.  \<open>env\<close> collects what is
  outside the repository: the clock, the account cache, the node specification parser, the
  repository of bootable images, and the resource metadata loaded at start-up.
\<close>

section \<open>State\<close>

record node_info = node_logic +
  ni_assign :: job_assign
  ni_magrathea_status :: MagratheaState
  ni_alternatives :: "repository_alternatives list option"
  ni_notusable :: bool
  ni_rebootable :: bool
  ni_building_cluster :: bool
  ni_virtual_image :: string
  ni_virtual_cluster :: string
  ni_phys_cluster :: string
  ni_host :: "nat option"
  ni_hosted :: "nat list"
  ni_phys_node :: "nat option"
  ni_slave_nodes :: "nat list"
  ni_waiting_on_jobs :: string

record world =
  w_heap :: rheap
  w_nodes :: "node_info list"
  w_dynamic_resources :: "dynamic_resource smap"
  w_installing_node_count :: int
  w_max_installing_nodes :: int

record env =
  ev_now :: int
  ev_has_account :: "string \<Rightarrow> string \<Rightarrow> string \<Rightarrow> bool"
  ev_parse_nodespec :: "string \<Rightarrow> pars_spec"
  ev_parse_prop :: "string \<Rightarrow> pars_prop"
  ev_bootable :: "string \<Rightarrow> repository_alternatives list option"
  ev_db :: resc_info_db

definition node_at :: "world \<Rightarrow> nat \<Rightarrow> node_info" where
  "node_at w a = w_nodes w ! a"

definition upd_node :: "nat \<Rightarrow> (node_info \<Rightarrow> node_info) \<Rightarrow> world \<Rightarrow> world" where
  "upd_node a f w = w\<lparr>w_nodes := (w_nodes w)[a := f (w_nodes w ! a)]\<rparr>"

definition is_virtual_node :: "node_info \<Rightarrow> bool" where
  "is_virtual_node n = (ni_phys_node n \<noteq> None)"

definition physical_node :: "world \<Rightarrow> nat \<Rightarrow> nat" where
  "physical_node w a = (case ni_phys_node (node_at w a) of Some p \<Rightarrow> p | None \<Rightarrow> a)"

definition set_notusable :: "node_info \<Rightarrow> node_info" where
  "set_notusable n = n\<lparr>ni_notusable := True\<rparr>"

text \<open>The constructor: \<open>magrathea_status\<close> is not initialised, its first value is an argument.\<close>

definition new_node_info :: "MagratheaState \<Rightarrow> node_data \<Rightarrow> node_info" where
  "new_node_info raw n =
     node_data.extend n
       \<lparr>nl_core_assigned = 0, nl_scratch_priority = default_scratch_priority,
        ni_assign = new_job_assign, ni_magrathea_status = raw, ni_alternatives = None,
        ni_notusable = False, ni_rebootable = False, ni_building_cluster = False,
        ni_virtual_image = [], ni_virtual_cluster = [], ni_phys_cluster = [],
        ni_host = None, ni_hosted = [], ni_phys_node = None, ni_slave_nodes = [], ni_waiting_on_jobs = []\<rparr>"

definition installing_nodes_overlimit :: "world \<Rightarrow> bool" where
  "installing_nodes_overlimit w =
     (if w_max_installing_nodes w = RESC_INFINITY then False
      else w_installing_node_count w \<ge> w_max_installing_nodes w)"

definition recount_installing_nodes :: "nat list \<Rightarrow> world \<Rightarrow> world" where
  "recount_installing_nodes nodes w =
     w\<lparr>w_installing_node_count := int (length (filter (\<lambda>a. ni_building_cluster (node_at w a)) nodes))\<rparr>"

section \<open>Properties\<close>

definition result_helper :: "bool \<Rightarrow> CheckResult" where
  "result_helper result = (if result then CheckAvailable else CheckNonFit)"

definition has_prop :: "resc_info_db \<Rightarrow> rheap \<Rightarrow> node_info \<Rightarrow> pars_prop \<Rightarrow> bool \<Rightarrow> CheckResult" where
  "has_prop db h n property physical_only =
     (let negative = (pp_name property \<noteq> [] \<and> hd (pp_name property) = CHR ''^'');
          prop_name = (if negative then tl (pp_name property) else pp_name property)
      in case pp_value property of
           None \<Rightarrow>
             (if nd_name n = prop_name then result_helper (\<not> negative)
              else if has_phys_prop n prop_name then result_helper (\<not> negative)
              else if \<not> physical_only \<and> has_virt_prop n prop_name then result_helper (\<not> negative)
              else result_helper negative)
         | Some prop_value \<Rightarrow>
             (if prop_name = ''host'' \<and> prop_value = nd_name n then result_helper (\<not> negative)
              else has_resc h db (pp_name property) prop_value n))"

definition has_prop_str :: "env \<Rightarrow> rheap \<Rightarrow> node_info \<Rightarrow> string \<Rightarrow> bool" where
  "has_prop_str ev h n property =
     (has_prop (ev_db ev) h n (ev_parse_prop ev property) True = CheckAvailable)"

definition get_mem_total :: "rheap \<Rightarrow> node_info \<Rightarrow> int" where
  "get_mem_total h n = (case nd_get_resource h n ''mem'' of None \<Rightarrow> 0 | Some mem \<Rightarrow> to_ull (r_max mem))"

fun props_boot :: "resc_info_db \<Rightarrow> rheap \<Rightarrow> node_info \<Rightarrow> repository_alternatives \<Rightarrow> CheckResult \<Rightarrow>
    pars_prop list \<Rightarrow> CheckResult" where
  "props_boot db h n virt_conf result [] = result"
| "props_boot db h n virt_conf result (p # ps) =
     (let test_phys = has_prop db h n p True;
          test_virt = (if alternative_has_property virt_conf (pp_name p) then CheckAvailable else CheckNonFit)
      in if test_phys = CheckNonFit \<and> test_virt = CheckNonFit then CheckNonFit
         else props_boot db h n virt_conf
           (if test_phys \<noteq> CheckAvailable \<and> test_virt \<noteq> CheckAvailable then CheckOccupied else result) ps)"

definition has_props_boot ::
    "resc_info_db \<Rightarrow> rheap \<Rightarrow> node_info \<Rightarrow> pars_spec_node \<Rightarrow> repository_alternatives \<Rightarrow> CheckResult" where
  "has_props_boot db h n spec virt_conf = props_boot db h n virt_conf CheckAvailable (ps_properties spec)"

fun props_run :: "resc_info_db \<Rightarrow> rheap \<Rightarrow> node_info \<Rightarrow> CheckResult \<Rightarrow> pars_prop list \<Rightarrow> CheckResult" where
  "props_run db h n result [] = result"
| "props_run db h n result (p # ps) =
     (let test = has_prop db h n p False
      in if test = CheckNonFit then CheckNonFit
         else props_run db h n (if test = CheckOccupied then CheckOccupied else result) ps)"

definition has_props_run :: "resc_info_db \<Rightarrow> rheap \<Rightarrow> node_info \<Rightarrow> pars_spec_node \<Rightarrow> CheckResult" where
  "has_props_run db h n spec = props_run db h n CheckAvailable (ps_properties spec)"

definition has_spec ::
    "env \<Rightarrow> world \<Rightarrow> queue_info \<Rightarrow> job_info \<Rightarrow> pars_spec_node \<Rightarrow> node_info \<Rightarrow> CheckResult \<times> ScratchType option" where
  "has_spec ev w q job spec n =
     (let proc_result = has_proc (ev_parse_nodespec ev) q job spec n;
          mem_result = has_mem (w_heap w) q spec n;
          (scratch_result, scratch) = has_scratch (w_heap w) (w_dynamic_resources w) q spec n
      in (if proc_result = CheckNonFit \<or> mem_result = CheckNonFit \<or> scratch_result = CheckNonFit
            then CheckNonFit
          else if proc_result = CheckOccupied \<or> mem_result = CheckOccupied \<or> scratch_result = CheckOccupied
            then CheckOccupied
          else CheckAvailable, scratch))"

section \<open>State checks\<close>

text \<open>The \<open>switch\<close> of \<open>has_bootable_state\<close>: \<open>Some\<close> is a \<open>return\<close>, \<open>None\<close> a \<open>break\<close>.\<close>

definition bootable_down_bootable :: "ClusterMode \<Rightarrow> node_info \<Rightarrow> CheckResult option" where
  "bootable_down_bootable mode n =
     (if mode = ClusterNone \<and> \<not> ni_rebootable n then Some CheckNonFit else None)"

definition bootable_magrathea :: "ClusterMode \<Rightarrow> node_info \<Rightarrow> CheckResult option" where
  "bootable_magrathea mode n =
     (case ni_magrathea_status n of
        MagratheaStateFreeBootable \<Rightarrow>
          (if \<not> ns_free n \<or> ns_down n \<or> ns_offline n \<or> ns_unknown n then Some CheckOccupied
           else bootable_down_bootable mode n)
      | MagratheaStateDownBootable \<Rightarrow> bootable_down_bootable mode n
      | MagratheaStateFree \<Rightarrow> Some CheckNonFit
      | MagratheaStateOccupiedWouldPreempt \<Rightarrow> Some CheckNonFit
      | MagratheaStateRunning \<Rightarrow> Some CheckNonFit
      | MagratheaStateRunningPreemptible \<Rightarrow> Some CheckNonFit
      | MagratheaStateRunningPriority \<Rightarrow> Some CheckNonFit
      | MagratheaStateDown \<Rightarrow> Some CheckNonFit
      | MagratheaStateFrozen \<Rightarrow> Some CheckNonFit
      | MagratheaStateOccupied \<Rightarrow> Some CheckNonFit
      | MagratheaStatePreempted \<Rightarrow> Some CheckNonFit
      | MagratheaStateBooting \<Rightarrow> Some CheckOccupied
      | MagratheaStateRunningCluster \<Rightarrow> Some CheckOccupied
      | MagratheaStateNone \<Rightarrow> Some CheckOccupied
      | MagratheaStateDownDisappeared \<Rightarrow> Some CheckOccupied
      | MagratheaStateRemoved \<Rightarrow> Some CheckOccupied
      | MagratheaStateShuttingDown \<Rightarrow> Some CheckOccupied)"

text \<open>The window of availability; for a virtual node \<open>avail_after\<close> is not a bound.\<close>

definition outside_window :: "int \<Rightarrow> node_info \<Rightarrow> bool" where
  "outside_window now n \<longleftrightarrow>
     (\<not> is_virtual_node n \<and> nd_avail_after n \<noteq> 0 \<and> now < nd_avail_after n) \<or>
     (nd_avail_before n \<noteq> 0 \<and> now > nd_avail_before n)"

definition has_bootable_state :: "env \<Rightarrow> world \<Rightarrow> ClusterMode \<Rightarrow> node_info \<Rightarrow> CheckResult" where
  "has_bootable_state ev w mode n =
     (if nd_type n \<noteq> NodeVirtual then CheckNonFit
      else if ni_alternatives n = None \<or> ni_alternatives n = Some [] then CheckNonFit
      else case ni_host n of
             None \<Rightarrow> CheckNonFit
           | Some host \<Rightarrow>
               (if nd_type (node_at w host) \<noteq> NodeCloud then CheckNonFit
                else if outside_window (ev_now ev) n then CheckNonFit
                else case bootable_magrathea mode n of
                       Some r \<Rightarrow> r
                     | None \<Rightarrow>
                         (if ns_down (node_at w host) \<or> ns_offline (node_at w host) \<or> ns_unknown (node_at w host)
                            then CheckOccupied
                          else if has_jobs (node_at w host) \<or>
                              (\<exists>a \<in> set (ni_hosted (node_at w host)). has_jobs (node_at w a))
                            then CheckOccupied
                          else CheckAvailable)))"

definition runnable_magrathea :: "MagratheaState \<Rightarrow> CheckResult option" where
  "runnable_magrathea st =
     (if st \<in> {MagratheaStateDown, MagratheaStateDownBootable, MagratheaStateFrozen,
               MagratheaStateDownDisappeared, MagratheaStateShuttingDown, MagratheaStateRemoved}
        then Some CheckNonFit
      else if st \<in> {MagratheaStateNone, MagratheaStateOccupied, MagratheaStatePreempted}
        then Some CheckOccupied
      else None)"

definition has_runnable_state :: "env \<Rightarrow> node_info \<Rightarrow> CheckResult" where
  "has_runnable_state ev n =
     (if nd_type n = NodeTimeshared \<or> nd_type n = NodeCloud then CheckNonFit
      else if outside_window (ev_now ev) n then CheckNonFit
      else case (if nd_type n = NodeVirtual then runnable_magrathea (ni_magrathea_status n) else None) of
             Some r \<Rightarrow> r
           | None \<Rightarrow> (if ns_offline n \<or> ns_down n \<or> ns_unknown n then CheckOccupied else CheckAvailable))"

text \<open>The job would not finish before the node becomes unavailable.\<close>

definition ends_too_late :: "int \<Rightarrow> job_info \<Rightarrow> node_info \<Rightarrow> bool" where
  "ends_too_late now job n \<longleftrightarrow> nd_avail_before n \<noteq> 0 \<and> nd_avail_before n - get_walltime job \<le> now"

definition can_boot_job :: "env \<Rightarrow> world \<Rightarrow> job_info \<Rightarrow> node_info \<Rightarrow> CheckResult" where
  "can_boot_job ev w job n =
     (if ni_notusable n then CheckNonFit
      else if ji_placement job \<noteq> [] \<and> nd_get_resource (w_heap w) n (ji_placement job) = None then CheckNonFit
      else
        (let result = has_bootable_state ev w (ji_cluster_mode job) n
         in if result = CheckNonFit then CheckNonFit
            else if ends_too_late (ev_now ev) job n then CheckNonFit
            else if ji_cluster_mode job = ClusterUse then CheckNonFit
            else if nd_no_multinode n \<and> is_multinode (ev_parse_nodespec ev) job then CheckNonFit
            else if \<not> ev_has_account ev (ji_account job) (nd_name n) (ni_phys_cluster n) then CheckNonFit
            else if installing_nodes_overlimit w then CheckOccupied
            else if nd_get_resource (w_heap w) n ''machine_cluster'' \<noteq> None then CheckOccupied
            else result))"

definition can_run_job :: "env \<Rightarrow> world \<Rightarrow> job_info \<Rightarrow> node_info \<Rightarrow> CheckResult" where
  "can_run_job ev w job n =
     (if ni_notusable n then CheckNonFit
      else if ji_placement job \<noteq> [] \<and> nd_get_resource (w_heap w) n (ji_placement job) = None then CheckNonFit
      else
        (let result = has_runnable_state ev n;
             res_machine = nd_get_resource (w_heap w) n ''machine_cluster''
         in if result = CheckNonFit then CheckNonFit
            else if ends_too_late (ev_now ev) job n then CheckNonFit
            else if ji_cluster_mode job = ClusterCreate then CheckNonFit
            else if nd_type n = NodeCluster \<and> ji_cluster_mode job \<noteq> ClusterNone then CheckNonFit
            else if nd_no_multinode n \<and> is_multinode (ev_parse_nodespec ev) job then CheckNonFit
            else if ji_cluster_mode job \<noteq> ClusterUse then
              (if \<not> ev_has_account ev (ji_account job) (nd_name n) (ni_phys_cluster n) then CheckNonFit
               else if res_machine \<noteq> None then CheckOccupied
               else result)
            else
              (if ji_cluster_name job \<noteq> [] then CheckNonFit
               else case res_machine of
                      None \<Rightarrow> CheckNonFit
                    | Some r \<Rightarrow>
                        (if r_str_val r = [] then CheckNonFit
                         else if r_str_val r \<noteq> ji_cluster_name job then CheckNonFit
                         else result))))"

text \<open>Both return the result and the scratch type written by \<open>has_scratch\<close> (\<open>None\<close>: not written).\<close>

definition can_fit_job_for_run ::
    "env \<Rightarrow> world \<Rightarrow> queue_info \<Rightarrow> job_info \<Rightarrow> pars_spec_node \<Rightarrow> node_info \<Rightarrow> CheckResult \<times> ScratchType option" where
  "can_fit_job_for_run ev w q job spec n =
     (let result = can_run_job ev w job n
      in if result = CheckNonFit then (CheckNonFit, None)
         else
           (let (node_test, scratch) = has_spec ev w q job spec n
            in if node_test = CheckNonFit then (CheckNonFit, scratch)
               else
                 (let result1 = (if node_test = CheckOccupied then CheckOccupied else result);
                      props_test = has_props_run (ev_db ev) (w_heap w) n spec
                  in if props_test = CheckNonFit then (CheckNonFit, scratch)
                     else (if props_test = CheckOccupied then CheckOccupied else result1, scratch))))"

text \<open>
  The loop over the bootable alternatives: the last test and the alternative the pointer stands on
  when the loop ends (\<open>None\<close>: the terminating null pointer).
\<close>

fun boot_alternatives :: "resc_info_db \<Rightarrow> rheap \<Rightarrow> node_info \<Rightarrow> pars_spec_node \<Rightarrow> CheckResult \<Rightarrow>
    repository_alternatives list \<Rightarrow> CheckResult \<times> repository_alternatives option" where
  "boot_alternatives db h n spec node_test [] = (node_test, None)"
| "boot_alternatives db h n spec node_test (ra # ras) =
     (let test = has_props_boot db h n spec ra
      in if test = CheckNonFit then boot_alternatives db h n spec test ras
         else if test = CheckOccupied then boot_alternatives db h n spec CheckOccupied ras
         else (CheckAvailable, Some ra))"

text \<open>The third component is the alternative written through the pointer; the outer \<open>None\<close>: not written.\<close>

definition can_fit_job_for_boot ::
    "env \<Rightarrow> world \<Rightarrow> queue_info \<Rightarrow> job_info \<Rightarrow> pars_spec_node \<Rightarrow> node_info \<Rightarrow>
     CheckResult \<times> ScratchType option \<times> repository_alternatives option option" where
  "can_fit_job_for_boot ev w q job spec n =
     (let result = can_boot_job ev w job n
      in if result = CheckNonFit then (CheckNonFit, None, None)
         else
           (let (node_test, scratch) = has_spec ev w q job spec n
            in if node_test = CheckNonFit then (CheckNonFit, scratch, None)
               else
                 (let result1 = (if node_test = CheckOccupied then CheckOccupied else result);
                      (alt_test, ra) = boot_alternatives (ev_db ev) (w_heap w) n spec CheckNonFit
                                         (case ni_alternatives n of None \<Rightarrow> [] | Some l \<Rightarrow> l)
                  in if alt_test = CheckNonFit then (CheckNonFit, scratch, None)
                     else (if alt_test = CheckOccupied then CheckOccupied else result1, scratch, Some ra))))"

section \<open>Derived state\<close>

definition fetch_bootable_alternatives :: "env \<Rightarrow> rheap \<Rightarrow> node_info \<Rightarrow> node_info" where
  "fetch_bootable_alternatives ev h n =
     (if nd_type n \<noteq> NodeVirtual then n
      else case nd_get_resource h n ''magrathea'' of
             None \<Rightarrow> n
           | Some _ \<Rightarrow> n\<lparr>ni_alternatives := ev_bootable ev (nd_name n)\<rparr>)"

definition process_magrathea_status :: "world \<Rightarrow> node_info \<Rightarrow> node_info" where
  "process_magrathea_status w n =
     (case nd_get_resource (w_heap w) n ''magrathea'' of
        None \<Rightarrow> n\<lparr>ni_magrathea_status := MagratheaStateNone\<rparr>
      | Some res \<Rightarrow>
          (let (ok, st, reb) = magrathea_decode_new (Some res) (ni_rebootable n);
               n1 = n\<lparr>ni_magrathea_status := st, ni_rebootable := reb\<rparr>
           in if \<not> ok then n1\<lparr>ni_magrathea_status := MagratheaStateNone\<rparr>
              else if has_jobs n \<and> (st = MagratheaStateDownBootable \<or> st = MagratheaStateFree) then
                n1\<lparr>ni_magrathea_status := MagratheaStateNone\<rparr>
              else case ni_host n of
                     None \<Rightarrow> n1
                   | Some host \<Rightarrow>
                       (if has_jobs (node_at w host) \<and> st = MagratheaStateDownBootable then
                          n1\<lparr>ni_magrathea_status := MagratheaStateNone\<rparr>
                        else n1)))"

definition process_machine_cluster :: "rheap \<Rightarrow> node_info \<Rightarrow> node_info" where
  "process_machine_cluster h n =
     (let n0 = n\<lparr>ni_virtual_cluster := [], ni_virtual_image := [], ni_building_cluster := False\<rparr>
      in case nd_get_resource h n ''machine_cluster'' of
           None \<Rightarrow> n0
         | Some res \<Rightarrow>
             (let value = r_str_val res;
                  cluster = takeWhile (\<lambda>c. c \<noteq> CHR '';'') value;
                  n1 = (if CHR '';'' \<in> set value then
                          n0\<lparr>ni_virtual_cluster := cluster, ni_virtual_image := drop (length cluster + 1) value\<rparr>
                        else n0\<lparr>ni_virtual_cluster := value\<rparr>)
              in if take (length ''internal_'') (ni_virtual_cluster n1) = ''internal_'' then
                   n1\<lparr>ni_building_cluster := True\<rparr>
                 else if ni_magrathea_status n \<noteq> MagratheaStateRunningCluster then
                   n1\<lparr>ni_building_cluster := True\<rparr>
                 else n1))"

section \<open>Orders on nodes\<close>

definition get_magrathea_value :: "MagratheaState \<Rightarrow> int" where
  "get_magrathea_value state =
     (case state of
        MagratheaStateRunningCluster \<Rightarrow> 0
      | MagratheaStateRunning \<Rightarrow> 1
      | MagratheaStateRunningPriority \<Rightarrow> 1
      | MagratheaStateDownBootable \<Rightarrow> 2
      | MagratheaStateFreeBootable \<Rightarrow> 3
      | MagratheaStateFree \<Rightarrow> 4
      | MagratheaStateRunningPreemptible \<Rightarrow> 5
      | MagratheaStateOccupiedWouldPreempt \<Rightarrow> 6
      | _ \<Rightarrow> 99)"

definition node_less :: "node_info \<Rightarrow> node_info \<Rightarrow> bool" where
  "node_less l r =
     (if \<not> is_virtual_node l \<and> is_virtual_node r then True
      else if is_virtual_node l \<and> \<not> is_virtual_node r then False
      else if is_virtual_node l \<and> is_virtual_node r \<and> nd_avail_after l < nd_avail_after r then True
      else if is_virtual_node l \<and> is_virtual_node r \<and> nd_avail_after l > nd_avail_after r then False
      else if nd_priority l > nd_priority r then True
      else if nd_priority l < nd_priority r then False
      else
        (let left_magrathea = (if nd_type l \<noteq> NodeVirtual then - 1 else get_magrathea_value (ni_magrathea_status l));
             right_magrathea = (if nd_type r \<noteq> NodeVirtual then - 1 else get_magrathea_value (ni_magrathea_status r))
         in if left_magrathea < right_magrathea then True
            else if left_magrathea > right_magrathea then False
            else if nd_core_free l < nd_core_free r then True
            else if nd_core_free l > nd_core_free r then False
            else nd_name l < nd_name r))"

definition NodeStateSort :: "world \<Rightarrow> nat \<Rightarrow> nat \<Rightarrow> bool" where
  "NodeStateSort w left right = node_less (node_at w left) (node_at w right)"

text \<open>
  The fairshare cost order.  Amounts are rationals; a zero divisor, which gives an infinite or
  undefined \<open>double\<close> in the source, divides to zero here.
\<close>

definition cost_of :: "nat \<Rightarrow> nat \<Rightarrow> bool \<Rightarrow> rheap \<Rightarrow> node_info \<Rightarrow> rat" where
  "cost_of procs mem excl h n =
     (let cores = of_int (nd_core_total n)
      in if excl then nd_node_cost n * cores
         else max (of_nat procs / cores) (of_nat mem / of_int (get_mem_total h n)) * nd_node_cost n * cores)"

definition NodeCostSort :: "nat \<Rightarrow> nat \<Rightarrow> bool \<Rightarrow> world \<Rightarrow> nat \<Rightarrow> nat \<Rightarrow> bool" where
  "NodeCostSort procs mem excl w left right =
     (cost_of procs mem excl (w_heap w) (node_at w left) < cost_of procs mem excl (w_heap w) (node_at w right))"

text \<open>The key the node order sorts by.\<close>

definition node_key :: "node_info \<Rightarrow> bool \<times> int \<times> int \<times> int \<times> int \<times> string" where
  "node_key n =
     (is_virtual_node n, if is_virtual_node n then nd_avail_after n else 0, - nd_priority n,
      if nd_type n \<noteq> NodeVirtual then - 1 else get_magrathea_value (ni_magrathea_status n),
      nd_core_free n, nd_name n)"

interpretation node_order: keyed_order node_less node_key
  by unfold_locales (auto simp: node_less_def node_key_def Let_def)

interpretation node_state: keyed_order "NodeStateSort w" "\<lambda>a. node_key (node_at w a)" for w
  by unfold_locales (simp add: NodeStateSort_def node_order.lt_key)

interpretation node_cost: keyed_order "NodeCostSort procs mem excl w"
    "\<lambda>a. cost_of procs mem excl (w_heap w) (node_at w a)" for procs mem excl w
  by unfold_locales (simp add: NodeCostSort_def)

lemma node_less_total: "nd_name l \<noteq> nd_name r \<Longrightarrow> node_less l r \<or> node_less r l"
  by (auto simp: node_order.lt_key node_key_def)

section \<open>What the checks guarantee\<close>

lemma props_run_cases:
  "props_run db h n result ps =
     (if \<exists>p \<in> set ps. has_prop db h n p False = CheckNonFit then CheckNonFit
      else if \<exists>p \<in> set ps. has_prop db h n p False = CheckOccupied then CheckOccupied else result)"
  by (induction ps arbitrary: result) (auto simp: Let_def)

lemma has_props_run_available:
  "has_props_run db h n spec = CheckAvailable \<longleftrightarrow>
     (\<forall>p \<in> set (ps_properties spec). has_prop db h n p False = CheckAvailable)"
proof -
  have "c = CheckAvailable \<longleftrightarrow> c \<noteq> CheckNonFit \<and> c \<noteq> CheckOccupied" for c by (cases c) auto
  then show ?thesis by (auto simp: has_props_run_def props_run_cases)
qed

lemma has_spec_available:
  "has_spec ev w q job spec n = (CheckAvailable, s) \<longleftrightarrow>
     has_proc (ev_parse_nodespec ev) q job spec n = CheckAvailable \<and>
     has_mem (w_heap w) q spec n = CheckAvailable \<and>
     has_scratch (w_heap w) (w_dynamic_resources w) q spec n = (CheckAvailable, s)"
proof -
  have "c = CheckAvailable \<longleftrightarrow> c \<noteq> CheckNonFit \<and> c \<noteq> CheckOccupied" for c by (cases c) auto
  then show ?thesis by (auto simp: has_spec_def Let_def split: prod.splits if_splits)
qed

lemma can_fit_run_available:
  "can_fit_job_for_run ev w q job spec n = (CheckAvailable, s) \<longleftrightarrow>
     can_run_job ev w job n = CheckAvailable \<and>
     has_spec ev w q job spec n = (CheckAvailable, s) \<and>
     has_props_run (ev_db ev) (w_heap w) n spec = CheckAvailable"
proof -
  have "c = CheckAvailable \<longleftrightarrow> c \<noteq> CheckNonFit \<and> c \<noteq> CheckOccupied" for c by (cases c) auto
  then show ?thesis by (auto simp: can_fit_job_for_run_def Let_def split: prod.splits if_splits)
qed

lemma boot_alternatives_some:
  "boot_alternatives db h n spec t ras = (CheckAvailable, ra) \<Longrightarrow> t \<noteq> CheckAvailable \<Longrightarrow>
     \<exists>a \<in> set ras. ra = Some a \<and> has_props_boot db h n spec a = CheckAvailable"
proof (induction ras arbitrary: t)
  case (Cons a ras)
  then show ?case by (cases "has_props_boot db h n spec a") (auto simp: Let_def)
qed simp

lemma can_fit_boot_available:
  assumes "can_fit_job_for_boot ev w q job spec n = (CheckAvailable, s, r)"
  shows "can_boot_job ev w job n = CheckAvailable \<and> has_spec ev w q job spec n = (CheckAvailable, s) \<and>
     (\<exists>ras a. ni_alternatives n = Some ras \<and> a \<in> set ras \<and> r = Some (Some a) \<and>
        has_props_boot (ev_db ev) (w_heap w) n spec a = CheckAvailable)"
proof -
  obtain t sc where sp: "has_spec ev w q job spec n = (t, sc)" by fastforce
  obtain t' ra where b: "boot_alternatives (ev_db ev) (w_heap w) n spec CheckNonFit
      (case ni_alternatives n of None \<Rightarrow> [] | Some l \<Rightarrow> l) = (t', ra)" by fastforce
  have parts: "can_boot_job ev w job n = CheckAvailable" "t = CheckAvailable" "t' = CheckAvailable"
    "s = sc" "r = Some ra"
    using assms sp b by (cases t; cases t'; auto simp: can_fit_job_for_boot_def Let_def split: if_splits)+
  obtain a where a: "a \<in> set (case ni_alternatives n of None \<Rightarrow> [] | Some l \<Rightarrow> l)" "ra = Some a"
      "has_props_boot (ev_db ev) (w_heap w) n spec a = CheckAvailable"
    using boot_alternatives_some[OF b[unfolded parts(3)]] by blast
  then obtain ras where "ni_alternatives n = Some ras" "a \<in> set ras"
    by (cases "ni_alternatives n") auto
  then show ?thesis using parts sp a by auto
qed

text \<open>A usable node is inside its window, and the job ends before the window closes.\<close>

lemma can_run_job_available:
  assumes "can_run_job ev w job n = CheckAvailable"
  shows "\<not> ni_notusable n \<and> \<not> outside_window (ev_now ev) n \<and> \<not> ns_down n \<and> \<not> ns_offline n \<and>
     (nd_avail_before n \<noteq> 0 \<longrightarrow> ev_now ev + get_walltime job < nd_avail_before n) \<and>
     ji_cluster_mode job = ClusterNone \<and> (nd_type n = NodeCluster \<or> nd_type n = NodeVirtual) \<and>
     ev_has_account ev (ji_account job) (nd_name n) (ni_phys_cluster n) \<and>
     nd_get_resource (w_heap w) n ''machine_cluster'' = None"
proof -
  have st: "has_runnable_state ev n = CheckAvailable \<and> ji_cluster_mode job = ClusterNone"
    using assms
    by (cases "ji_cluster_mode job")
      (auto simp: can_run_job_def Let_def split: if_splits option.splits)
  moreover have "\<not> outside_window (ev_now ev) n \<and> \<not> ns_down n \<and> \<not> ns_offline n \<and>
      (nd_type n = NodeCluster \<or> nd_type n = NodeVirtual)"
    using st by (cases "nd_type n") (auto simp: has_runnable_state_def runnable_magrathea_def split: if_splits)
  ultimately show ?thesis
    using assms by (auto simp: can_run_job_def ends_too_late_def Let_def split: if_splits)
qed

end
