(* ===== verification/Planning.thy ===== *)
theory Planning
  imports NodeInfo
begin

text \<open>
  Booking a job on nodes: \<open>plan_on_node\<close>, \<open>unplan_from_node\<close> and \<open>plan_on_server\<close> of \<open>src/JobInfo.cpp\<close>, and
  the virtual nodes built from them in \<open>src/NodeInfo.cpp\<close>.  The locale \<open>undoable\<close> states when a sequence of
  bookings is undone by releasing it in the same order; it is interpreted on the bookings that
  \<open>plan_on_node\<close> and \<open>unplan_from_node\<close> make.
\<close>

section \<open>Operations\<close>

text \<open>A call through the pointer \<open>get_resource\<close> returns for a name, when there is one.\<close>

definition on_resource :: "nat \<Rightarrow> string \<Rightarrow> (resource \<Rightarrow> resource) \<Rightarrow> world \<Rightarrow> world" where
  "on_resource a name f w =
     (case smap_find (nd_resc (node_at w a)) name of
        None \<Rightarrow> w
      | Some r \<Rightarrow> w\<lparr>w_heap := (w_heap w)[r := f (w_heap w ! r)]\<rparr>)"

text \<open>The shared scratch pool named by the resource \<open>scratch_pool\<close> of the node.\<close>

definition on_scratch_pool :: "nat \<Rightarrow> (dynamic_resource \<Rightarrow> dynamic_resource) \<Rightarrow> world \<Rightarrow> world" where
  "on_scratch_pool a g w =
     (case nd_get_resource (w_heap w) (node_at w a) ''scratch_pool'' of
        None \<Rightarrow> w
      | Some res \<Rightarrow> w\<lparr>w_dynamic_resources := smap_modify (r_str_val res) g (w_dynamic_resources w)\<rparr>)"

definition scratch_on_node ::
    "nat \<Rightarrow> (resource \<Rightarrow> resource) \<Rightarrow> (dynamic_resource \<Rightarrow> dynamic_resource) \<Rightarrow> world \<Rightarrow> world" where
  "scratch_on_node a f g w =
     (case ja_scratch_type (ni_assign (node_at w a)) of
        ScratchLocal \<Rightarrow> on_resource a ''scratch_local'' f w
      | ScratchSSD \<Rightarrow> on_resource a ''scratch_ssd'' f w
      | ScratchShared \<Rightarrow> on_scratch_pool a g w
      | _ \<Rightarrow> w)"

fun props_on_node :: "resc_info_db \<Rightarrow> nat \<Rightarrow> (string \<Rightarrow> resource \<Rightarrow> resource) \<Rightarrow> pars_prop list \<Rightarrow> world \<Rightarrow> world" where
  "props_on_node db a f [] w = w"
| "props_on_node db a f (p # ps) w =
     (case pp_value p of
        None \<Rightarrow> props_on_node db a f ps w
      | Some v \<Rightarrow>
          props_on_node db a f ps
            (if res_check_type db (pp_name p) \<noteq> ResCheckNone then on_resource a (pp_name p) (f v) w else w))"

text \<open>
  A cluster job takes every node hosted on the machine out of use.  The source follows the host
  pointer without a check; a node without a host is never selected for booting.
\<close>

definition block_sisters :: "nat \<Rightarrow> world \<Rightarrow> world" where
  "block_sisters a w =
     (case ni_host (node_at w a) of
        None \<Rightarrow> w
      | Some host \<Rightarrow> fold (\<lambda>b. upd_node b set_notusable) (ni_hosted (node_at w host)) w)"

definition plan_on_node :: "env \<Rightarrow> job_info \<Rightarrow> nat \<Rightarrow> pars_spec_node \<Rightarrow> world \<Rightarrow> world" where
  "plan_on_node ev job a spec w =
     (let w0 = (if ji_cluster_mode job = ClusterCreate then block_sisters a w else w);
          w1 = upd_node a (\<lambda>n. deplete_proc n
                 (if is_exclusive (ev_parse_nodespec ev) job then nd_core_total n
                  else to_sint (int (ps_procs spec)))) w0;
          w2 = on_resource a ''mem'' (\<lambda>r. consume_resource r (to_sll (int (ps_mem spec)))) w1;
          w3 = scratch_on_node a (\<lambda>r. consume_resource r (to_sll (int (ps_scratch spec))))
                 (\<lambda>d. add_scheduled d (to_sll (int (ps_scratch spec)))) w2
      in props_on_node (ev_db ev) a (\<lambda>v r. consume_resource_str r v) (ps_properties spec) w3)"

definition unplan_from_node :: "env \<Rightarrow> job_info \<Rightarrow> nat \<Rightarrow> pars_spec_node \<Rightarrow> world \<Rightarrow> world" where
  "unplan_from_node ev job a spec w =
     (let w1 = upd_node a (\<lambda>n. freeup_proc n
                 (if is_exclusive (ev_parse_nodespec ev) job then nd_core_total n
                  else to_sint (int (ps_procs spec)))) w;
          w2 = on_resource a ''mem'' (\<lambda>r. freeup_resource r (to_sll (int (ps_mem spec)))) w1;
          w3 = scratch_on_node a (\<lambda>r. freeup_resource r (to_sll (int (ps_scratch spec))))
                 (\<lambda>d. remove_scheduled d (to_sll (int (ps_scratch spec)))) w2
      in props_on_node (ev_db ev) a (\<lambda>v r. freeup_resource_str r v) (ps_properties spec) w3)"

fun plan_reqs :: "resource_req list \<Rightarrow> dynamic_resource smap \<Rightarrow> dynamic_resource smap" where
  "plan_reqs [] m = m"
| "plan_reqs (r # rs) m = plan_reqs rs (smap_modify (rq_name r) (\<lambda>d. add_assigned d (rq_amount r)) m)"

definition plan_on_server :: "job_info \<Rightarrow> world \<Rightarrow> world" where
  "plan_on_server job w = w\<lparr>w_dynamic_resources := plan_reqs (ji_resreq job) (w_dynamic_resources w)\<rparr>"

text \<open>\<open>propagate_resources\<close> of the node \<open>a\<close> from the node \<open>src\<close>, first on itself and then on its slaves.\<close>

definition join_node :: "nat \<Rightarrow> nat \<Rightarrow> world \<Rightarrow> world" where
  "join_node a src w =
     (let (h, s) = join_resources (w_heap w) (nd_resc (node_at w a)) (nd_resc (node_at w src))
      in upd_node a (\<lambda>n. n\<lparr>nl_core_assigned := max (nl_core_assigned n) (nl_core_assigned (node_at w src)),
                          nd_resc := s\<rparr>) (w\<lparr>w_heap := h\<rparr>))"

definition propagate_resources :: "nat \<Rightarrow> nat \<Rightarrow> world \<Rightarrow> world" where
  "propagate_resources a src w =
     fold (\<lambda>i. join_node i src) (ni_slave_nodes (node_at w a)) (join_node a src w)"

text \<open>
  \<open>expand_virtual_nodes\<close>.  The names of the node's jobs are what follows the first slash; the running
  jobs found by those names are kept in a set ordered by completion time, which has one job for
  each completion time, the first inserted.  Names are visited in their string order.
\<close>

definition job_name_of :: "string \<Rightarrow> string" where
  "job_name_of s = (if CHR ''/'' \<in> set s then tl (dropWhile (\<lambda>c. c \<noteq> CHR ''/'') s) else s)"

definition running_job_names :: "node_info \<Rightarrow> string list" where
  "running_job_names n = sorted_list_of_set (job_name_of ` nd_jobs n)"

fun insert_by_end :: "job_info \<Rightarrow> job_info list \<Rightarrow> job_info list" where
  "insert_by_end j [] = [j]"
| "insert_by_end j (k # ks) =
     (if completion_time j < completion_time k then j # k # ks
      else if completion_time k < completion_time j then k # insert_by_end j ks
      else k # ks)"

fun jobs_by_end :: "job_info list \<Rightarrow> string list \<Rightarrow> job_info list \<Rightarrow> job_info list" where
  "jobs_by_end running [] acc = acc"
| "jobs_by_end running (i # is) acc =
     jobs_by_end running is
       (case List.find (\<lambda>j. ji_job_id j = i) running of None \<Rightarrow> acc | Some j \<Rightarrow> insert_by_end j acc)"

text \<open>The copy constructor of \<open>node_info\<close>: a copy of every resource, and a copy of every other field.\<close>

definition copy_node :: "nat \<Rightarrow> world \<Rightarrow> world \<times> nat" where
  "copy_node src w =
     (let (h, s) = copy_resource_set (w_heap w) (nd_resc (node_at w src));
          n = (node_at w src)\<lparr>nd_resc := s, ni_alternatives := dup_bootable_alternatives (ni_alternatives (node_at w src))\<rparr>
      in (w\<lparr>w_heap := h, w_nodes := w_nodes w @ [n]\<rparr>, length (w_nodes w)))"

text \<open>One job: a copy of the source node, released from the job, that exists when the job has ended.\<close>

definition expand_step :: "env \<Rightarrow> nat \<Rightarrow> nat \<Rightarrow> job_info \<Rightarrow> pars_spec_node \<Rightarrow> world \<Rightarrow> world \<times> nat" where
  "expand_step ev a source j spec w =
     (let (w1, slave) = copy_node source w;
          w2 = upd_node slave (\<lambda>n. n\<lparr>ni_phys_node := Some a\<rparr>) w1;
          w3 = upd_node a (\<lambda>n. n\<lparr>ni_slave_nodes := ni_slave_nodes n @ [slave]\<rparr>) w2;
          w4 = unplan_from_node ev j slave spec w3;
          w5 = upd_node slave (\<lambda>n. n\<lparr>nd_avail_after := completion_time j,
                 ni_waiting_on_jobs := (if ni_waiting_on_jobs (node_at w4 source) = [] then ji_job_id j
                   else ni_waiting_on_jobs n @ '', '' @ ji_job_id j)\<rparr>) w4
      in (w5, slave))"

fun expand_loop :: "env \<Rightarrow> nat \<Rightarrow> nat \<Rightarrow> job_info list \<Rightarrow> world \<Rightarrow> world" where
  "expand_loop ev a source [] w = w"
| "expand_loop ev a source (j # js) w =
     (case List.find (\<lambda>s. ps_host s = Some (nd_name (node_at w a)))
             (sp_nodes (ev_parse_nodespec ev (ji_sched_nodespec j))) of
        None \<Rightarrow> expand_loop ev a source js w
      | Some spec \<Rightarrow>
          (let (w', slave) = expand_step ev a source j spec w in expand_loop ev a slave js w'))"

text \<open>\<open>None\<close> is a failed assertion.\<close>

definition expand_virtual_nodes :: "env \<Rightarrow> job_info list \<Rightarrow> nat \<Rightarrow> world \<Rightarrow> world option" where
  "expand_virtual_nodes ev running a w =
     (if ja_virtual_assignment (ni_assign (node_at w (physical_node w a))) \<or>
         has_assignment (ni_assign (node_at w a)) then None
      else if is_virtual_node (node_at w a) then None
      else Some (expand_loop ev a a (jobs_by_end running (running_job_names (node_at w a)) []) w))"

section \<open>Releasing undoes booking\<close>

locale undoable =
  fixes book :: "'op \<Rightarrow> 's \<Rightarrow> 's" and unbook :: "'op \<Rightarrow> 's \<Rightarrow> 's"
  assumes unbook_book: "unbook x (book x s) = s"
    and unbook_commute: "unbook x (book y s) = book y (unbook x s)"
begin

lemma unbook_fold: "unbook x (fold book ys s) = fold book ys (unbook x s)"
  by (induction ys arbitrary: s) (simp_all add: unbook_commute)

lemma undo_all: "fold unbook xs (fold book xs s) = s"
proof (induction xs arbitrary: s)
  case (Cons x xs)
  have "fold unbook (x # xs) (fold book (x # xs) s) = fold unbook xs (unbook x (fold book xs (book x s)))"
    by simp
  also have "\<dots> = fold unbook xs (fold book xs s)" by (simp only: unbook_fold unbook_book)
  finally show ?case using Cons by simp
qed simp

end

text \<open>The bookings of a job on a node, as data.\<close>

datatype booking = Book_Cores bool int | Book_Resource string int | Book_Scratch int

definition cores_booked :: "bool \<Rightarrow> int \<Rightarrow> node_info \<Rightarrow> int" where
  "cores_booked excl procs n = (if excl then nd_core_total n else procs)"

fun book :: "nat \<Rightarrow> booking \<Rightarrow> world \<Rightarrow> world" where
  "book a (Book_Cores excl procs) w = upd_node a (\<lambda>n. deplete_proc n (cores_booked excl procs n)) w"
| "book a (Book_Resource name v) w = on_resource a name (\<lambda>r. consume_resource r v) w"
| "book a (Book_Scratch v) w = scratch_on_node a (\<lambda>r. consume_resource r v) (\<lambda>d. add_scheduled d v) w"

fun unbook :: "nat \<Rightarrow> booking \<Rightarrow> world \<Rightarrow> world" where
  "unbook a (Book_Cores excl procs) w = upd_node a (\<lambda>n. freeup_proc n (cores_booked excl procs n)) w"
| "unbook a (Book_Resource name v) w = on_resource a name (\<lambda>r. freeup_resource r v) w"
| "unbook a (Book_Scratch v) w = scratch_on_node a (\<lambda>r. freeup_resource r v) (\<lambda>d. remove_scheduled d v) w"

fun prop_bookings :: "resc_info_db \<Rightarrow> pars_prop list \<Rightarrow> booking list" where
  "prop_bookings db [] = []"
| "prop_bookings db (p # ps) =
     (case pp_value p of
        None \<Rightarrow> prop_bookings db ps
      | Some v \<Rightarrow>
          (if res_check_type db (pp_name p) \<noteq> ResCheckNone
           then Book_Resource (pp_name p) (res_to_num v) # prop_bookings db ps
           else prop_bookings db ps))"

definition bookings :: "env \<Rightarrow> job_info \<Rightarrow> pars_spec_node \<Rightarrow> booking list" where
  "bookings ev job spec =
     [Book_Cores (is_exclusive (ev_parse_nodespec ev) job) (to_sint (int (ps_procs spec))),
      Book_Resource ''mem'' (to_sll (int (ps_mem spec))),
      Book_Scratch (to_sll (int (ps_scratch spec)))] @ prop_bookings (ev_db ev) (ps_properties spec)"

lemma props_on_node_book:
  "props_on_node db a (\<lambda>v r. consume_resource_str r v) ps w = fold (book a) (prop_bookings db ps) w"
  by (induction ps arbitrary: w)
    (auto simp: consume_resource_str_def split: option.splits)

lemma props_on_node_unbook:
  "props_on_node db a (\<lambda>v r. freeup_resource_str r v) ps w = fold (unbook a) (prop_bookings db ps) w"
  by (induction ps arbitrary: w)
    (auto simp: freeup_resource_str_def split: option.splits)

lemma plan_on_node_bookings:
  "plan_on_node ev job a spec w =
     fold (book a) (bookings ev job spec)
       (if ji_cluster_mode job = ClusterCreate then block_sisters a w else w)"
  by (simp add: plan_on_node_def bookings_def props_on_node_book cores_booked_def Let_def)

lemma unplan_from_node_bookings:
  "unplan_from_node ev job a spec w = fold (unbook a) (bookings ev job spec) w"
  by (simp add: unplan_from_node_def bookings_def props_on_node_unbook cores_booked_def Let_def)

lemma upd_node_upd_node: "upd_node a f (upd_node a g w) = upd_node a (\<lambda>n. f (g n)) w"
  by (cases "a < length (w_nodes w)") (auto simp: upd_node_def list_update_beyond)

lemma upd_node_id: "(\<And>n. f n = n) \<Longrightarrow> upd_node a f w = w"
  by (simp add: upd_node_def)

lemma node_at_upd_node:
  "node_at (upd_node a f w) b = (if b = a \<and> a < length (w_nodes w) then f (node_at w a) else node_at w b)"
  by (auto simp: node_at_def upd_node_def nth_update_any)

lemma length_nodes_upd_node [simp]: "length (w_nodes (upd_node a f w)) = length (w_nodes w)"
  by (simp add: upd_node_def)

lemma w_heap_upd_node [simp]: "w_heap (upd_node a f w) = w_heap w"
  by (simp add: upd_node_def)

lemma w_dyn_upd_node [simp]: "w_dynamic_resources (upd_node a f w) = w_dynamic_resources w"
  by (simp add: upd_node_def)

lemma w_nodes_on_resource [simp]: "w_nodes (on_resource a k f w) = w_nodes w"
  by (auto simp: on_resource_def split: option.splits)

lemma node_at_on_resource [simp]: "node_at (on_resource a k f w) b = node_at w b"
  by (simp add: node_at_def)

lemma w_dyn_on_resource [simp]: "w_dynamic_resources (on_resource a k f w) = w_dynamic_resources w"
  by (auto simp: on_resource_def split: option.splits)

lemma node_at_on_pool [simp]: "node_at (on_scratch_pool a g w) b = node_at w b"
  by (auto simp: on_scratch_pool_def node_at_def split: option.splits)

lemma w_heap_on_pool [simp]: "w_heap (on_scratch_pool a g w) = w_heap w"
  by (auto simp: on_scratch_pool_def split: option.splits)

lemma node_at_on_scratch [simp]: "node_at (scratch_on_node a f g w) b = node_at w b"
  by (simp add: scratch_on_node_def split: ScratchType.splits)

text \<open>Two operations on resources of a node.\<close>

lemma on_resource_same:
  "on_resource a k f (on_resource a k g w) = on_resource a k (\<lambda>r. f (g r)) w"
proof (cases "smap_find (nd_resc (node_at w a)) k")
  case None
  then show ?thesis by (simp add: on_resource_def)
next
  case (Some r)
  moreover have "node_at (w\<lparr>w_heap := x\<rparr>) a = node_at w a" for x by (simp add: node_at_def)
  ultimately show ?thesis
    by (cases "r < length (w_heap w)") (auto simp: on_resource_def list_update_beyond)
qed

lemma on_resource_id: "(\<And>r. f r = r) \<Longrightarrow> on_resource a k f w = w"
  by (auto simp: on_resource_def split: option.splits)

lemma on_resource_commute:
  assumes "\<And>r. f (g r) = g (f r)"
  shows "on_resource a k f (on_resource a' k' g w) = on_resource a' k' g (on_resource a k f w)"
proof (cases "smap_find (nd_resc (node_at w a)) k"; cases "smap_find (nd_resc (node_at w a')) k'")
  fix r r'
  assume f: "smap_find (nd_resc (node_at w a)) k = Some r" "smap_find (nd_resc (node_at w a')) k' = Some r'"
  have n: "node_at (w\<lparr>w_heap := x\<rparr>) b = node_at w b" for x b by (simp add: node_at_def)
  show ?thesis
  proof (cases "r = r'")
    case True
    then show ?thesis using f assms
      by (cases "r < length (w_heap w)") (auto simp: on_resource_def n list_update_beyond)
  next
    case False
    then show ?thesis using f by (auto simp: on_resource_def n list_update_swap)
  qed
qed (auto simp: on_resource_def node_at_def)

lemma on_resource_upd_node:
  assumes "\<And>n. nd_resc (f n) = nd_resc n"
  shows "on_resource a k g (upd_node b f w) = upd_node b f (on_resource a k g w)"
proof -
  have "nd_resc (node_at (upd_node b f w) a) = nd_resc (node_at w a)"
    using assms by (simp add: node_at_upd_node)
  then show ?thesis
    by (auto simp: on_resource_def upd_node_def node_at_def split: option.splits)
qed

text \<open>The pool a node points to does not change with a booking.\<close>

lemma pool_of_on_resource:
  assumes "\<And>r. r_str_val (f r) = r_str_val r"
  shows "map_option r_str_val (nd_get_resource (w_heap (on_resource a k f w)) n x) =
     map_option r_str_val (nd_get_resource (w_heap w) n x)"
  using assms
  by (cases "smap_find (nd_resc n) x")
    (auto simp: nd_get_resource_def rs_lookup_def on_resource_def nth_update_any split: option.splits)

lemma on_scratch_pool_alt:
  "on_scratch_pool a g w =
     (case map_option r_str_val (nd_get_resource (w_heap w) (node_at w a) ''scratch_pool'') of
        None \<Rightarrow> w
      | Some pool \<Rightarrow> w\<lparr>w_dynamic_resources := smap_modify pool g (w_dynamic_resources w)\<rparr>)"
  by (auto simp: on_scratch_pool_def split: option.splits)

lemma on_pool_on_resource:
  assumes "\<And>r. r_str_val (f r) = r_str_val r"
  shows "on_scratch_pool a g (on_resource b k f w) = on_resource b k f (on_scratch_pool a g w)"
proof -
  have "map_option r_str_val (nd_get_resource (w_heap (on_resource b k f w)) (node_at w a) ''scratch_pool'') =
      map_option r_str_val (nd_get_resource (w_heap w) (node_at w a) ''scratch_pool'')"
    by (rule pool_of_on_resource[OF assms])
  then show ?thesis
    by (cases "map_option r_str_val (nd_get_resource (w_heap w) (node_at w a) ''scratch_pool'')")
      (auto simp: on_scratch_pool_alt on_resource_def node_at_def split: option.splits)
qed

lemma on_pool_upd_node:
  assumes "\<And>n. nd_resc (f n) = nd_resc n"
  shows "on_scratch_pool a g (upd_node b f w) = upd_node b f (on_scratch_pool a g w)"
proof -
  have "nd_get_resource h (node_at (upd_node b f w) a) x = nd_get_resource h (node_at w a) x" for h x
    using assms by (simp add: node_at_upd_node nd_get_resource_def)
  then show ?thesis
    by (auto simp: on_scratch_pool_def upd_node_def node_at_def split: option.splits)
qed

lemma on_pool_same:
  "on_scratch_pool a f (on_scratch_pool a g w) = on_scratch_pool a (\<lambda>d. f (g d)) w"
  by (auto simp: on_scratch_pool_def node_at_def smap_modify_modify comp_def split: option.splits)

lemma on_pool_id: "(\<And>d. f d = d) \<Longrightarrow> on_scratch_pool a f w = w"
  by (auto simp: on_scratch_pool_def smap_modify_id split: option.splits)

text \<open>Scratch is one of these, chosen by the assignment of the node.\<close>

lemma scratch_on_resource:
  assumes "\<And>r. r_str_val (f' r) = r_str_val r" and "\<And>r. f (f' r) = f' (f r)"
  shows "scratch_on_node a f g (on_resource b k f' w) = on_resource b k f' (scratch_on_node a f g w)"
  using on_pool_on_resource[OF assms(1), of a g b k w] on_resource_commute[of f f' a _ b k w] assms(2)
  by (simp add: scratch_on_node_def split: ScratchType.splits)

lemma scratch_upd_node:
  assumes "\<And>n. nd_resc (h n) = nd_resc n" and "\<And>n. ni_assign (h n) = ni_assign n"
  shows "scratch_on_node a f g (upd_node b h w) = upd_node b h (scratch_on_node a f g w)"
proof -
  have "ni_assign (node_at (upd_node b h w) a) = ni_assign (node_at w a)"
    using assms(2) by (simp add: node_at_upd_node)
  then show ?thesis
    using on_pool_upd_node[OF assms(1)] on_resource_upd_node[OF assms(1)]
    by (simp add: scratch_on_node_def split: ScratchType.splits)
qed

lemma scratch_same:
  "scratch_on_node a f g (scratch_on_node a f' g' w) = scratch_on_node a (\<lambda>r. f (f' r)) (\<lambda>d. g (g' d)) w"
  by (simp add: scratch_on_node_def on_resource_same on_pool_same split: ScratchType.splits)

lemma scratch_id: "(\<And>r. f r = r) \<Longrightarrow> (\<And>d. g d = d) \<Longrightarrow> scratch_on_node a f g w = w"
  by (simp add: scratch_on_node_def on_resource_id on_pool_id split: ScratchType.splits)

lemma scratch_cong:
  "f = f' \<Longrightarrow> g = g' \<Longrightarrow> scratch_on_node a f g w = scratch_on_node a f' g' w"
  by simp

lemma proc_fields [simp]:
  "nd_resc (deplete_proc n c) = nd_resc n" "nd_resc (freeup_proc n c) = nd_resc n"
  "ni_assign (deplete_proc n c) = ni_assign n" "ni_assign (freeup_proc n c) = ni_assign n"
  "nd_core_total (deplete_proc n c) = nd_core_total n" "nd_core_total (freeup_proc n c) = nd_core_total n"
  by (simp_all add: deplete_proc_def freeup_proc_def)

lemma cores_booked_proc [simp]:
  "cores_booked e p (deplete_proc n c) = cores_booked e p n"
  "cores_booked e p (freeup_proc n c) = cores_booked e p n"
  by (simp_all add: cores_booked_def)

lemma resource_shift_fields [simp]:
  "r_str_val (consume_resource r v) = r_str_val r" "r_str_val (freeup_resource r v) = r_str_val r"
  by (simp_all add: consume_resource_def freeup_resource_def)

lemma shift_commute:
  "freeup_resource (consume_resource r v) u = consume_resource (freeup_resource r u) v"
  "remove_scheduled (add_scheduled d v) u = add_scheduled (remove_scheduled d u) v"
  "freeup_proc (deplete_proc n v) u = deplete_proc (freeup_proc n u) v"
  by (simp_all add: consume_resource_def freeup_resource_def add_scheduled_def remove_scheduled_def
      deplete_proc_def freeup_proc_def)

lemmas booking_commute =
  on_resource_upd_node scratch_upd_node scratch_on_resource upd_node_upd_node scratch_same

interpretation booked: undoable "book a" "unbook a" for a
proof
  fix x y :: booking and w :: world
  show "unbook a x (book a x w) = w"
    by (cases x)
      (simp_all add: upd_node_upd_node on_resource_same scratch_same upd_node_id on_resource_id scratch_id
        cores.release_reserve static.release_reserve dynamic.release_reserve)
  show "unbook a x (book a y w) = book a y (unbook a x w)"
  proof (cases x)
    case (Book_Cores e c)
    then show ?thesis
      by (cases y) (simp_all add: booking_commute shift_commute)
  next
    case (Book_Resource k v)
    then show ?thesis
      by (cases y) (simp_all add: booking_commute shift_commute
          on_resource_commute[of "\<lambda>r. freeup_resource r v" "\<lambda>r. consume_resource r _"])
  next
    case (Book_Scratch v)
    then show ?thesis
      by (cases y) (simp_all add: booking_commute shift_commute)
  qed
qed

section \<open>What a booking changes\<close>

text \<open>Resources of different nodes live in different cells.\<close>

definition world_ok :: "world \<Rightarrow> bool" where
  "world_ok w \<longleftrightarrow>
     (\<forall>a < length (w_nodes w). rs_ok (w_heap w) (nd_resc (node_at w a))) \<and>
     (\<forall>a < length (w_nodes w). \<forall>b < length (w_nodes w).
        a \<noteq> b \<longrightarrow> rs_addrs (nd_resc (node_at w a)) \<inter> rs_addrs (nd_resc (node_at w b)) = {})"

text \<open>The amount a booking puts on the resource \<open>k\<close> of the node, given the node's scratch assignment.\<close>

fun demand :: "ScratchType \<Rightarrow> string \<Rightarrow> booking \<Rightarrow> int" where
  "demand st k (Book_Cores e c) = 0"
| "demand st k (Book_Resource name v) = (if name = k then v else 0)"
| "demand st k (Book_Scratch v) =
     (if st = ScratchLocal \<and> k = ''scratch_local'' \<or> st = ScratchSSD \<and> k = ''scratch_ssd'' then v else 0)"

fun core_demand :: "node_info \<Rightarrow> booking \<Rightarrow> int" where
  "core_demand n (Book_Cores e c) = cores_booked e c n"
| "core_demand n _ = 0"

definition node_resource :: "world \<Rightarrow> nat \<Rightarrow> string \<Rightarrow> resource option" where
  "node_resource w a k = nd_get_resource (w_heap w) (node_at w a) k"

lemma consume_zero [simp]: "consume_resource r 0 = r"
  by (simp add: consume_resource_def)

lemma node_resource_on_resource:
  assumes "rs_ok (w_heap w) (nd_resc (node_at w a))"
  shows "node_resource (on_resource a k f w) a k' =
     (if k' = k then map_option f (node_resource w a k) else node_resource w a k')"
proof (cases "smap_find (nd_resc (node_at w a)) k")
  case None
  then show ?thesis by (simp add: on_resource_def node_resource_def nd_get_resource_def rs_lookup_def)
next
  case (Some r)
  have "w_heap (on_resource a k f w) = (w_heap w)[r := f (w_heap w ! r)]"
    using Some by (simp add: on_resource_def)
  then show ?thesis
    using rs_lookup_update[OF assms Some] Some
    by (simp add: node_resource_def nd_get_resource_def rs_lookup_def)
qed

lemma node_resource_upd_node:
  assumes "\<And>n. nd_resc (f n) = nd_resc n"
  shows "node_resource (upd_node b f w) a k = node_resource w a k"
  using assms by (simp add: node_resource_def nd_get_resource_def node_at_upd_node)

lemma node_resource_on_pool [simp]: "node_resource (on_scratch_pool b g w) a k = node_resource w a k"
  by (simp add: node_resource_def)

lemma book_view:
  assumes "rs_ok (w_heap w) (nd_resc (node_at w a))"
  shows "node_resource (book a x w) a k =
     map_option (\<lambda>r. consume_resource r (demand (ja_scratch_type (ni_assign (node_at w a))) k x))
       (node_resource w a k)"
proof (cases x)
  case (Book_Cores e c)
  then show ?thesis by (simp add: node_resource_upd_node option.map_id0[unfolded id_def])
next
  case (Book_Resource n v)
  then show ?thesis
    by (simp add: node_resource_on_resource[OF assms] option.map_id0[unfolded id_def])
next
  case (Book_Scratch v)
  then show ?thesis
    by (cases "ja_scratch_type (ni_assign (node_at w a))")
      (auto simp: scratch_on_node_def node_resource_on_resource[OF assms] option.map_id0[unfolded id_def])
qed

text \<open>A change of the bookings of one node only.\<close>

definition local_change :: "nat \<Rightarrow> world \<Rightarrow> world \<Rightarrow> bool" where
  "local_change a w w' \<longleftrightarrow>
     length (w_nodes w') = length (w_nodes w) \<and> length (w_heap w') = length (w_heap w) \<and>
     (\<forall>b. nd_resc (node_at w' b) = nd_resc (node_at w b) \<and> ni_assign (node_at w' b) = ni_assign (node_at w b) \<and>
          ni_phys_node (node_at w' b) = ni_phys_node (node_at w b)) \<and>
     (\<forall>b. b \<noteq> a \<longrightarrow> node_at w' b = node_at w b) \<and>
     (\<forall>c. c \<notin> rs_addrs (nd_resc (node_at w a)) \<longrightarrow> w_heap w' ! c = w_heap w ! c)"

lemma local_refl [simp]: "local_change a w w"
  by (simp add: local_change_def)

lemma local_trans: "local_change a w w' \<Longrightarrow> local_change a w' w'' \<Longrightarrow> local_change a w w''"
  by (simp add: local_change_def)

lemma local_upd_node:
  "(\<And>n. nd_resc (f n) = nd_resc n \<and> ni_assign (f n) = ni_assign n \<and> ni_phys_node (f n) = ni_phys_node n) \<Longrightarrow>
     local_change a w (upd_node a f w)"
  by (simp add: local_change_def node_at_upd_node)

lemma local_on_resource: "local_change a w (on_resource a k f w)"
  by (auto simp: local_change_def)
    (auto simp: on_resource_def nth_update_any dest: rs_find_addr split: option.splits)

lemma local_on_pool: "local_change a w (on_scratch_pool a g w)"
  by (auto simp: local_change_def) (auto simp: on_scratch_pool_def split: option.splits)

lemma local_scratch: "local_change a w (scratch_on_node a f g w)"
  by (simp add: scratch_on_node_def local_on_resource local_on_pool split: ScratchType.splits)

lemma book_local: "local_change a w (book a x w)"
  by (cases x) (auto intro!: local_upd_node local_on_resource local_scratch simp: deplete_proc_def)

lemma unbook_local: "local_change a w (unbook a x w)"
  by (cases x) (auto intro!: local_upd_node local_on_resource local_scratch simp: freeup_proc_def)

lemma fold_unbook_local: "local_change a w (fold (unbook a) xs w)"
proof (induction xs arbitrary: w)
  case (Cons x xs)
  show ?case using local_trans[OF unbook_local Cons] by simp
qed simp

lemma unplan_local: "local_change a w (unplan_from_node ev job a spec w)"
  unfolding unplan_from_node_bookings by (rule fold_unbook_local)

lemma book_frame:
  "length (w_nodes (book a x w)) = length (w_nodes w) \<and> length (w_heap (book a x w)) = length (w_heap w) \<and>
   nd_resc (node_at (book a x w) b) = nd_resc (node_at w b) \<and>
   ni_assign (node_at (book a x w) b) = ni_assign (node_at w b) \<and>
   (b \<noteq> a \<longrightarrow> node_at (book a x w) b = node_at w b) \<and>
   (c \<notin> rs_addrs (nd_resc (node_at w a)) \<longrightarrow> w_heap (book a x w) ! c = w_heap w ! c)"
  using book_local[of a w x] by (simp add: local_change_def)

text \<open>The same for a sequence of bookings.\<close>

lemma fold_book_frame:
  "length (w_nodes (fold (book a) xs w)) = length (w_nodes w) \<and>
   length (w_heap (fold (book a) xs w)) = length (w_heap w) \<and>
   nd_resc (node_at (fold (book a) xs w) b) = nd_resc (node_at w b) \<and>
   ni_assign (node_at (fold (book a) xs w) b) = ni_assign (node_at w b) \<and>
   (b \<noteq> a \<longrightarrow> node_at (fold (book a) xs w) b = node_at w b) \<and>
   (c \<notin> rs_addrs (nd_resc (node_at w a)) \<longrightarrow> w_heap (fold (book a) xs w) ! c = w_heap w ! c)"
proof (induction xs arbitrary: w)
  case (Cons x xs)
  show ?case using book_frame[of a x w b c] book_frame[of a x w a c] Cons[of "book a x w"] by auto
qed simp

lemma fold_book_view:
  assumes "rs_ok (w_heap w) (nd_resc (node_at w a))"
  shows "node_resource (fold (book a) xs w) a k =
     map_option (\<lambda>r. consume_resource r
         (sum_list (map (demand (ja_scratch_type (ni_assign (node_at w a))) k) xs)))
       (node_resource w a k)"
  using assms
proof (induction xs arbitrary: w)
  case Nil
  then show ?case by (simp add: option.map_id0[unfolded id_def])
next
  case (Cons x xs)
  have "rs_ok (w_heap (book a x w)) (nd_resc (node_at (book a x w) a))"
    using Cons.prems book_frame[of a x w a] by (auto simp: rs_ok_def)
  then show ?case
    using Cons.IH[of "book a x w"] book_frame[of a x w a] book_view[OF Cons.prems, of x k]
    by (simp add: option.map_comp comp_def static.reserve_reserve)
qed

lemma fold_book_cores:
  assumes "a < length (w_nodes w)"
  shows "nl_core_assigned (node_at (fold (book a) xs w) a) =
     nl_core_assigned (node_at w a) + sum_list (map (core_demand (node_at w a)) xs)"
  using assms
proof (induction xs arbitrary: w)
  case (Cons x xs)
  have n: "core_demand (node_at (book a x w) a) = core_demand (node_at w a)"
  proof
    fix y
    show "core_demand (node_at (book a x w) a) y = core_demand (node_at w a) y"
      by (cases x; cases y) (auto simp: node_at_upd_node)
  qed
  have "nl_core_assigned (node_at (book a x w) a) = nl_core_assigned (node_at w a) + core_demand (node_at w a) x"
    using Cons.prems by (cases x) (auto simp: node_at_upd_node deplete_proc_def)
  then show ?case
    using Cons.IH[of "book a x w"] Cons.prems book_frame[of a x w a] n by simp
qed simp

lemma fold_book_world_ok:
  assumes "world_ok w" shows "world_ok (fold (book a) xs w)"
  using assms fold_book_frame[of a xs w] by (auto simp: world_ok_def rs_ok_def)

lemma fold_book_other:
  assumes "world_ok w" and "a < length (w_nodes w)" and "b < length (w_nodes w)" and "b \<noteq> a"
  shows "node_at (fold (book a) xs w) b = node_at w b \<and>
     node_resource (fold (book a) xs w) b k = node_resource w b k"
proof -
  have "c \<in> rs_addrs (nd_resc (node_at w b)) \<Longrightarrow> w_heap (fold (book a) xs w) ! c = w_heap w ! c" for c
    using assms fold_book_frame[of a xs w b c] by (auto simp: world_ok_def)
  then have "rs_lookup (w_heap (fold (book a) xs w)) (nd_resc (node_at w b)) k =
      rs_lookup (w_heap w) (nd_resc (node_at w b)) k"
    by (cases "smap_find (nd_resc (node_at w b)) k") (auto simp: rs_lookup_def dest: rs_find_addr)
  then show ?thesis
    using assms(4) fold_book_frame[of a xs w b] by (simp add: node_resource_def nd_get_resource_def)
qed

section \<open>A booking after a successful check does not overbook\<close>

text \<open>The resources a specification asks for by name, with their amounts.\<close>

fun valued_props :: "resc_info_db \<Rightarrow> pars_prop list \<Rightarrow> (string \<times> string) list" where
  "valued_props db [] = []"
| "valued_props db (p # ps) =
     (case pp_value p of
        None \<Rightarrow> valued_props db ps
      | Some v \<Rightarrow> (if res_check_type db (pp_name p) \<noteq> ResCheckNone then (pp_name p, v) # valued_props db ps
                  else valued_props db ps))"

lemma prop_bookings_valued:
  "prop_bookings db ps = map (\<lambda>(k, v). Book_Resource k (res_to_num v)) (valued_props db ps)"
  by (induction ps) (auto split: option.splits)

lemma valued_props_mem:
  "(k, v) \<in> set (valued_props db ps) \<Longrightarrow>
     \<exists>p \<in> set ps. pp_name p = k \<and> pp_value p = Some v \<and> res_check_type db k \<noteq> ResCheckNone"
  by (induction ps) (auto split: option.splits if_splits)

lemma sum_demand_list:
  "distinct (map fst kvs) \<Longrightarrow>
     sum_list (map (demand st k) (map (\<lambda>(k, v). Book_Resource k (res_to_num v)) kvs)) =
       (case map_of kvs k of None \<Rightarrow> 0 | Some v \<Rightarrow> res_to_num v)"
  by (induction kvs) (force simp: map_of_eq_None_iff split: option.splits)+

lemma sum_core_demand_props: "sum_list (map (core_demand n) (prop_bookings db ps)) = 0"
  by (induction ps) (auto split: option.splits)

text \<open>What \<open>plan_on_node\<close> books in total.\<close>

definition total_demand :: "env \<Rightarrow> pars_spec_node \<Rightarrow> ScratchType \<Rightarrow> string \<Rightarrow> int" where
  "total_demand ev spec st k =
     (if k = ''mem'' then to_sll (int (ps_mem spec)) else 0) +
     (if st = ScratchLocal \<and> k = ''scratch_local'' \<or> st = ScratchSSD \<and> k = ''scratch_ssd''
      then to_sll (int (ps_scratch spec)) else 0) +
     (case map_of (valued_props (ev_db ev) (ps_properties spec)) k of None \<Rightarrow> 0 | Some v \<Rightarrow> res_to_num v)"

lemma plan_on_node_books:
  assumes "world_ok w" and "a < length (w_nodes w)" and "ji_cluster_mode job \<noteq> ClusterCreate"
    and "distinct (map fst (valued_props (ev_db ev) (ps_properties spec)))"
  shows "node_resource (plan_on_node ev job a spec w) a k =
       map_option (\<lambda>r. consume_resource r (total_demand ev spec (ja_scratch_type (ni_assign (node_at w a))) k))
         (node_resource w a k) \<and>
     nl_core_assigned (node_at (plan_on_node ev job a spec w) a) = nl_core_assigned (node_at w a) +
       cores_booked (is_exclusive (ev_parse_nodespec ev) job) (to_sint (int (ps_procs spec))) (node_at w a)"
proof -
  let ?st = "ja_scratch_type (ni_assign (node_at w a))"
  have ok: "rs_ok (w_heap w) (nd_resc (node_at w a))" using assms(1,2) by (simp add: world_ok_def)
  have plan: "plan_on_node ev job a spec w = fold (book a) (bookings ev job spec) w"
    using assms(3) by (simp add: plan_on_node_bookings)
  have "sum_list (map (demand ?st k) (bookings ev job spec)) = total_demand ev spec ?st k"
    unfolding bookings_def total_demand_def map_append sum_list.append prop_bookings_valued
      sum_demand_list[OF assms(4)]
    by (auto simp: eq_commute[of k])
  moreover have "sum_list (map (core_demand (node_at w a)) (bookings ev job spec)) =
      cores_booked (is_exclusive (ev_parse_nodespec ev) job) (to_sint (int (ps_procs spec))) (node_at w a)"
    by (simp add: bookings_def sum_core_demand_props)
  ultimately show ?thesis
    using fold_book_view[OF ok] fold_book_cores[OF assms(2)] by (simp add: plan)
qed

definition not_overbooked :: "resource \<Rightarrow> bool" where
  "not_overbooked r \<longleftrightarrow> \<not> is_string r \<and> 0 \<le> r_max r \<and> r_assign r \<le> r_max r"

lemma not_overbooked_consume:
  "not_overbooked r \<Longrightarrow> check_numeric_fit r v = CheckAvailable \<Longrightarrow> not_overbooked (consume_resource r v)"
  by (auto simp: not_overbooked_def check_numeric_fit_def consume_resource_def is_string_def split: if_splits)

lemma has_proc_cores:
  assumes "\<not> qi_is_admin_queue q" and "has_proc parse q job spec n = CheckAvailable"
  shows "nl_core_assigned n + cores_booked (is_exclusive parse job) (to_sint (int (ps_procs spec))) n
    \<le> nd_core_free n"
  using assms by (auto simp: has_proc_def cores_booked_def split: if_splits)

lemma has_scratch_cells:
  assumes "\<not> qi_is_admin_queue q" and "has_scratch h dyn q spec n = (CheckAvailable, Some t)"
  shows "(t = ScratchLocal \<longrightarrow> check_scratch_helper h n ''scratch_local'' (ps_scratch spec) = CheckAvailable) \<and>
     (t = ScratchSSD \<longrightarrow> check_scratch_helper h n ''scratch_ssd'' (ps_scratch spec) = CheckAvailable)"
proof (cases "nl_scratch_priority n")
  case Nil
  then show ?thesis using assms by (auto simp: has_scratch_def Let_def split: if_splits)
next
  case (Cons p ps)
  have "ps_scratch_type spec \<noteq> ScratchNone" using assms by (auto simp: has_scratch_def)
  from has_scratch_result[OF assms(1) this Cons, of h dyn] assms(2)
  have "scratch_state (check_scratch_helper h n ''scratch_ssd'' (ps_scratch spec))
      (check_shared_pool dyn n (ps_scratch spec))
      (check_scratch_helper h n ''scratch_local'' (ps_scratch spec)) t = CheckAvailable"
    by (auto split: option.splits simp: find_Some_iff)
  then show ?thesis by (auto simp: scratch_state_def)
qed

text \<open>Names whose requests are not compared with the capacity of the node.\<close>

definition unchecked_names :: "string set" where
  "unchecked_names = {''minspec'', ''maxspec'', ''scratch'', ''host''}"

lemma has_prop_fit:
  assumes "has_prop db h n p phys = CheckAvailable" and "pp_value p = Some v"
    and "pp_name p \<notin> unchecked_names" and "res_check_type db (pp_name p) \<notin> {ResCheckNone, ResCheckDynamic}"
    and "nd_get_resource h n (pp_name p) = Some r" and "\<not> is_string r"
  shows "check_numeric_fit r (res_to_num v) = CheckAvailable"
proof -
  have "has_resc h db (pp_name p) v n = CheckAvailable"
    using assms(1,2,3)
    by (auto simp: has_prop_def Let_def unchecked_names_def result_helper_def split: if_splits)
  then show ?thesis
    using assms(3-) by (auto simp: has_resc_def check_fit_def unchecked_names_def split: if_splits)
qed

lemma check_then_plan:
  assumes fit: "can_fit_job_for_run ev w q job spec (node_at w a) = (CheckAvailable, s)"
    and scratch: "ja_scratch_type (ni_assign (node_at w a)) = (case s of None \<Rightarrow> ScratchNone | Some t \<Rightarrow> t)"
    and "\<not> qi_is_admin_queue q"
    and names: "distinct (map fst (valued_props (ev_db ev) (ps_properties spec)))"
      "\<forall>k \<in> {''mem'', ''scratch_local'', ''scratch_ssd''}. k \<notin> fst ` set (valued_props (ev_db ev) (ps_properties spec))"
    and k: "k \<notin> unchecked_names" "res_check_type (ev_db ev) k \<noteq> ResCheckDynamic"
    and r: "node_resource w a k = Some r" "not_overbooked r"
  shows "not_overbooked (consume_resource r (total_demand ev spec (ja_scratch_type (ni_assign (node_at w a))) k))"
proof -
  let ?n = "node_at w a" and ?vp = "valued_props (ev_db ev) (ps_properties spec)"
  let ?st = "ja_scratch_type (ni_assign ?n)"
  have parts: "has_mem (w_heap w) q spec ?n = CheckAvailable"
      "has_scratch (w_heap w) (w_dynamic_resources w) q spec ?n = (CheckAvailable, s)"
      "\<forall>p \<in> set (ps_properties spec). has_prop (ev_db ev) (w_heap w) ?n p False = CheckAvailable"
    using fit by (simp_all add: can_fit_run_available has_spec_available has_props_run_available)
  have rk: "nd_get_resource (w_heap w) ?n k = Some r" using r(1) by (simp add: node_resource_def)
  consider (mem) "k = ''mem''" | (loc) "k = ''scratch_local''" "?st = ScratchLocal"
    | (solid) "k = ''scratch_ssd''" "?st = ScratchSSD"
    | (named) v where "(k, v) \<in> set ?vp" | (free) "total_demand ev spec ?st k = 0"
    using names(2) by (fastforce simp: total_demand_def map_of_eq_None_iff split: option.splits dest: map_of_SomeD)
  then show ?thesis
  proof cases
    case mem
    then have "total_demand ev spec ?st k = to_sll (int (ps_mem spec))"
      using names(2) by (auto simp: total_demand_def map_of_eq_None_iff[THEN iffD2])
    moreover have "check_numeric_fit r (to_sll (int (ps_mem spec))) = CheckAvailable"
      using parts(1) assms(3) mem rk by (simp add: has_mem_def)
    ultimately show ?thesis using not_overbooked_consume[OF r(2)] by simp
  next
    case loc
    then have "total_demand ev spec ?st k = to_sll (int (ps_scratch spec))"
      using names(2) by (auto simp: total_demand_def map_of_eq_None_iff[THEN iffD2])
    moreover have "s = Some ScratchLocal" using loc scratch by (cases s) auto
    then have "check_numeric_fit r (to_sll (int (ps_scratch spec))) = CheckAvailable"
      using has_scratch_cells[OF assms(3), of "w_heap w" "w_dynamic_resources w" spec ?n ScratchLocal]
        parts(2) loc rk by (simp add: check_scratch_helper_def)
    ultimately show ?thesis using not_overbooked_consume[OF r(2)] by simp
  next
    case solid
    then have "total_demand ev spec ?st k = to_sll (int (ps_scratch spec))"
      using names(2) by (auto simp: total_demand_def map_of_eq_None_iff[THEN iffD2])
    moreover have "s = Some ScratchSSD" using solid scratch by (cases s) auto
    then have "check_numeric_fit r (to_sll (int (ps_scratch spec))) = CheckAvailable"
      using has_scratch_cells[OF assms(3), of "w_heap w" "w_dynamic_resources w" spec ?n ScratchSSD]
        parts(2) solid rk by (simp add: check_scratch_helper_def)
    ultimately show ?thesis using not_overbooked_consume[OF r(2)] by simp
  next
    case named
    then have nk: "k \<noteq> ''mem''" "k \<noteq> ''scratch_local''" "k \<noteq> ''scratch_ssd''" using names(2) by force+
    then have "total_demand ev spec ?st k = res_to_num v"
      using named names(1) by (simp add: total_demand_def)
    moreover obtain p where "p \<in> set (ps_properties spec)" "pp_name p = k" "pp_value p = Some v"
        "res_check_type (ev_db ev) k \<noteq> ResCheckNone"
      using valued_props_mem[OF named] by blast
    ultimately show ?thesis
      using has_prop_fit[of "ev_db ev" "w_heap w" ?n p False v r] parts(3) k rk r(2)
        not_overbooked_consume[OF r(2)] by (simp add: not_overbooked_def)
  next
    case free
    then show ?thesis using r(2) by simp
  qed
qed

section \<open>Virtual nodes\<close>

text \<open>The jobs of a node are visited in the order of their completion times, one for each time.\<close>

lemma insert_by_end_sorted:
  "sorted_wrt (\<lambda>j k. completion_time j < completion_time k) js \<Longrightarrow>
     sorted_wrt (\<lambda>j k. completion_time j < completion_time k) (insert_by_end j js) \<and>
     completion_time ` set (insert_by_end j js) = insert (completion_time j) (completion_time ` set js)"
proof (induction js)
  case (Cons k js)
  show ?case
  proof (cases "completion_time k < completion_time j")
    case True
    then have "\<forall>x \<in> set (insert_by_end j js). completion_time k < completion_time x"
      using Cons by (auto simp: image_iff set_eq_iff) (metis insertE image_eqI)
    then show ?thesis using Cons True by auto
  next
    case False
    then show ?thesis using Cons.prems by (cases "completion_time j < completion_time k") force+
  qed
qed simp

lemma jobs_by_end_sorted:
  "sorted_wrt (\<lambda>j k. completion_time j < completion_time k) acc \<Longrightarrow>
     sorted_wrt (\<lambda>j k. completion_time j < completion_time k) (jobs_by_end running names acc)"
  by (induction names arbitrary: acc) (auto simp: insert_by_end_sorted split: option.splits)

text \<open>What an expansion adds: new nodes at the end, in new cells; old nodes keep all they show.\<close>

definition only_adds :: "nat \<Rightarrow> world \<Rightarrow> world \<Rightarrow> bool" where
  "only_adds a w w' \<longleftrightarrow>
     length (w_nodes w) \<le> length (w_nodes w') \<and> length (w_heap w) \<le> length (w_heap w') \<and>
     (\<forall>c < length (w_heap w). w_heap w' ! c = w_heap w ! c) \<and>
     (\<forall>b < length (w_nodes w). b \<noteq> a \<longrightarrow> node_at w' b = node_at w b) \<and>
     node_at w' a = (node_at w a)\<lparr>ni_slave_nodes :=
       ni_slave_nodes (node_at w a) @ [length (w_nodes w) ..< length (w_nodes w')]\<rparr>"

lemma only_adds_refl [simp]: "only_adds a w w"
  by (simp add: only_adds_def)

lemma only_adds_trans:
  assumes "only_adds a w w'" and "only_adds a w' w''"
  shows "only_adds a w w''"
proof -
  have "[length (w_nodes w) ..< length (w_nodes w')] @ [length (w_nodes w') ..< length (w_nodes w'')] =
      [length (w_nodes w) ..< length (w_nodes w'')]"
    using assms by (metis only_adds_def upt_add_eq_append le_iff_add)
  then show ?thesis using assms by (auto simp: only_adds_def)
qed

lemma copy_node_spec:
  assumes "world_ok w" and "src < length (w_nodes w)" and "copy_node src w = (w', i)"
  shows "i = length (w_nodes w) \<and> length (w_nodes w') = Suc i \<and> length (w_heap w) \<le> length (w_heap w') \<and>
     (\<forall>c < length (w_heap w). w_heap w' ! c = w_heap w ! c) \<and>
     (\<forall>b < length (w_nodes w). node_at w' b = node_at w b) \<and>
     rs_ok (w_heap w') (nd_resc (node_at w' i)) \<and> (\<forall>c \<in> rs_addrs (nd_resc (node_at w' i)). length (w_heap w) \<le> c) \<and>
     (\<forall>k. node_resource w' i k = node_resource w src k)"
proof -
  obtain h s where cp: "copy_resource_set (w_heap w) (nd_resc (node_at w src)) = (h, s)" by fastforce
  have ok: "rs_ok (w_heap w) (nd_resc (node_at w src))" using assms(1,2) by (simp add: world_ok_def)
  note spec = copy_resource_set_spec[OF ok cp]
  have w': "w' = w\<lparr>w_heap := h, w_nodes := w_nodes w @ [(node_at w src)\<lparr>nd_resc := s\<rparr>]\<rparr>" "i = length (w_nodes w)"
    using assms(3) cp by (auto simp: copy_node_def Let_def)
  have len: "length (w_heap w) \<le> length h" using spec by (metis length_take min.cobounded1)
  moreover have "c < length (w_heap w) \<Longrightarrow> h ! c = w_heap w ! c" for c using spec by (metis nth_take)
  ultimately show ?thesis
    using spec by (auto simp: w' node_at_def nth_append node_resource_def nd_get_resource_def)
qed

lemma world_ok_extend:
  assumes ok: "world_ok w" and len: "length (w_nodes w') = Suc (length (w_nodes w))"
    and heap: "length (w_heap w) \<le> length (w_heap w')"
    and old: "\<And>b. b < length (w_nodes w) \<Longrightarrow> nd_resc (node_at w' b) = nd_resc (node_at w b)"
    and new: "rs_ok (w_heap w') (nd_resc (node_at w' (length (w_nodes w))))"
      "\<forall>c \<in> rs_addrs (nd_resc (node_at w' (length (w_nodes w)))). length (w_heap w) \<le> c"
  shows "world_ok w'"
proof -
  let ?m = "length (w_nodes w)"
  have fresh: "rs_addrs (nd_resc (node_at w' b)) \<inter> rs_addrs (nd_resc (node_at w' ?m)) = {}" if "b < ?m" for b
  proof -
    have "\<forall>c \<in> rs_addrs (nd_resc (node_at w' b)). c < length (w_heap w)"
      using ok old[OF that] that by (auto simp: world_ok_def rs_ok_def)
    then show ?thesis using new(2) by (auto simp: disjoint_iff dest: leD)
  qed
  have "rs_ok (w_heap w') (nd_resc (node_at w' b))" if "b < Suc ?m" for b
    using that ok old[of b] new(1) rs_ok_mono[OF _ heap] by (auto simp: world_ok_def less_Suc_eq)
  moreover have "rs_addrs (nd_resc (node_at w' b)) \<inter> rs_addrs (nd_resc (node_at w' c)) = {}"
    if bc: "b < Suc ?m" "c < Suc ?m" "b \<noteq> c" for b c
  proof -
    consider "b < ?m" "c < ?m" | "b < ?m" "c = ?m" | "b = ?m" "c < ?m"
      using bc by linarith
    then show ?thesis
      using bc(3) ok old[of b] old[of c] fresh[of b] fresh[of c]
      by cases (simp_all add: world_ok_def Int_commute)
  qed
  ultimately show ?thesis by (auto simp: world_ok_def len)
qed

lemma expand_step_spec:
  assumes "world_ok w" and "a < length (w_nodes w)" and "src < length (w_nodes w)"
    and "expand_step ev a src j spec w = (w', i)"
  shows "only_adds a w w' \<and> world_ok w' \<and> i = length (w_nodes w) \<and> length (w_nodes w') = Suc i \<and>
     ni_phys_node (node_at w' i) = Some a \<and> nd_avail_after (node_at w' i) = completion_time j"
proof -
  obtain w1 i1 where cp: "copy_node src w = (w1, i1)" by fastforce
  note c = copy_node_spec[OF assms(1,3) cp]
  define w2 where "w2 = upd_node i1 (\<lambda>n. n\<lparr>ni_phys_node := Some a\<rparr>) w1"
  define w3 where "w3 = upd_node a (\<lambda>n. n\<lparr>ni_slave_nodes := ni_slave_nodes n @ [i1]\<rparr>) w2"
  define w4 where "w4 = unplan_from_node ev j i1 spec w3"
  have l3: "length (w_nodes w3) = Suc i1" "w_heap w3 = w_heap w1"
    using c by (auto simp: w3_def w2_def)
  have i1: "i1 = length (w_nodes w)" "a < i1" using c assms(2) by auto
  have n3: "node_at w3 b = (if b = a then (node_at w a)\<lparr>ni_slave_nodes := ni_slave_nodes (node_at w a) @ [i1]\<rparr>
        else node_at w b)" if "b < i1" for b
    using that c i1 by (auto simp: w3_def w2_def node_at_upd_node)
  have n3i: "ni_phys_node (node_at w3 i1) = Some a" "nd_resc (node_at w3 i1) = nd_resc (node_at w1 i1)"
    using c i1 by (auto simp: w3_def w2_def node_at_upd_node)
  have u: "local_change i1 w3 w4" unfolding w4_def by (rule unplan_local)
  define f where "f = (\<lambda>n :: node_info. n\<lparr>nd_avail_after := completion_time j,
      ni_waiting_on_jobs := (if ni_waiting_on_jobs (node_at w4 src) = [] then ji_job_id j
        else ni_waiting_on_jobs n @ '', '' @ ji_job_id j)\<rparr>)"
  have f: "nd_resc (f n) = nd_resc n \<and> ni_phys_node (f n) = ni_phys_node n \<and>
      nd_avail_after (f n) = completion_time j" for n
    by (simp add: f_def)
  have "expand_step ev a src j spec w = (upd_node i1 f w4, i1)"
    by (simp only: expand_step_def cp Let_def case_prod_conv w2_def w3_def w4_def f_def)
  then have w': "w' = upd_node i1 f w4" "i = i1" using assms(4) by auto
  have l4: "length (w_nodes w4) = Suc i1" using u l3 by (simp add: local_change_def)
  have nw: "node_at w' b = node_at w3 b" if "b < i1" for b
    using that u by (auto simp: w' node_at_upd_node local_change_def)
  have ni: "node_at w' i1 = f (node_at w4 i1)" using l4 by (simp add: w' node_at_upd_node)
  have res: "nd_resc (node_at w' i1) = nd_resc (node_at w1 i1)"
    using ni f u n3i by (simp add: local_change_def)
  have hp: "length (w_heap w') = length (w_heap w1)" using u l3 by (simp add: w' local_change_def)
  have cells: "w_heap w' ! k = w_heap w ! k" if "k < length (w_heap w)" for k
  proof -
    have "k \<notin> rs_addrs (nd_resc (node_at w3 i1))" using c that n3i by force
    then show ?thesis using u c that l3 by (simp add: w' local_change_def)
  qed
  have lw: "length (w_nodes w') = Suc i1" using l4 by (simp add: w' upd_node_def)
  have "world_ok w'"
  proof (rule world_ok_extend[OF assms(1)])
    show "rs_ok (w_heap w') (nd_resc (node_at w' (length (w_nodes w))))"
      using c res hp i1 by (auto simp: rs_ok_def)
  qed (use lw c res hp i1 nw n3 in auto)
  moreover have "only_adds a w w'"
    using lw i1 c hp cells nw n3 by (auto simp: only_adds_def)
  ultimately show ?thesis
    using lw i1 ni f u n3i w' by (auto simp: local_change_def)
qed

text \<open>The nodes an expansion adds belong to the physical node and appear in the order of time.\<close>

definition slaves_ok :: "nat \<Rightarrow> job_info list \<Rightarrow> world \<Rightarrow> nat list \<Rightarrow> bool" where
  "slaves_ok a js w is \<longleftrightarrow>
     (\<forall>i \<in> set is. ni_phys_node (node_at w i) = Some a \<and>
        nd_avail_after (node_at w i) \<in> completion_time ` set js) \<and>
     sorted_wrt (\<lambda>i k. nd_avail_after (node_at w i) < nd_avail_after (node_at w k)) is"

lemma expand_loop_spec:
  assumes "world_ok w" and "a < length (w_nodes w)" and "src < length (w_nodes w)"
    and "sorted_wrt (\<lambda>j k. completion_time j < completion_time k) js"
  shows "only_adds a w (expand_loop ev a src js w) \<and> world_ok (expand_loop ev a src js w) \<and>
     slaves_ok a js (expand_loop ev a src js w)
       [length (w_nodes w) ..< length (w_nodes (expand_loop ev a src js w))]"
  using assms
proof (induction js arbitrary: src w)
  case Nil
  then show ?case by (simp add: slaves_ok_def)
next
  case (Cons j js)
  show ?case
  proof (cases "List.find (\<lambda>s. ps_host s = Some (nd_name (node_at w a)))
      (sp_nodes (ev_parse_nodespec ev (ji_sched_nodespec j)))")
    case None
    then show ?thesis using Cons.IH[OF Cons.prems(1-3)] Cons.prems(4) by (auto simp: slaves_ok_def)
  next
    case (Some spec)
    obtain w1 i where st: "expand_step ev a src j spec w = (w1, i)" by fastforce
    note s = expand_step_spec[OF Cons.prems(1-3) st]
    let ?w' = "expand_loop ev a i js w1"
    have ih: "only_adds a w1 ?w' \<and> world_ok ?w' \<and>
        slaves_ok a js ?w' [length (w_nodes w1) ..< length (w_nodes ?w')]"
      using s Cons.prems(2,4) by (intro Cons.IH) auto
    have loop: "expand_loop ev a src (j # js) w = ?w'" using Some st by simp
    have "i \<noteq> a" "i < length (w_nodes w1)" using s Cons.prems(2) by auto
    then have keep: "node_at ?w' i = node_at w1 i" using ih by (simp add: only_adds_def)
    have upt: "[length (w_nodes w) ..< length (w_nodes ?w')] = i # [length (w_nodes w1) ..< length (w_nodes ?w')]"
      using s ih by (auto simp: only_adds_def upt_conv_Cons)
    have "\<forall>k \<in> completion_time ` set js. completion_time j < k" using Cons.prems(4) by auto
    then have "slaves_ok a (j # js) ?w' [length (w_nodes w) ..< length (w_nodes ?w')]"
      using ih s keep unfolding upt slaves_ok_def by auto
    then show ?thesis
      using ih s only_adds_trans[of a w w1 ?w'] unfolding loop by blast
  qed
qed

end
