(* ===== verification/Assign.thy ===== *)
theory Assign
  imports NodeFilters
begin

text \<open>
  Finding nodes for a job: \<open>src/nodespec.cpp\<close>, and \<open>calculate_fairshare_cost\<close> of \<open>src/JobInfo.cpp\<close>.  The
  functions change assignments of nodes and the schedule of the job, so they thread the world and
  the job.  \<open>job_info.ji_schedule\<close> holds node indices.
\<close>

section \<open>Return codes\<close>

definition RET_BASE :: int where "RET_BASE = 1000"
definition SUCCESS :: int where "SUCCESS = RET_BASE + 1"
definition NODESPEC_NOT_ENOUGH_NODES_TOTAL :: int where "NODESPEC_NOT_ENOUGH_NODES_TOTAL = RET_BASE + 20"
definition REQUEST_NOT_MATCHED :: int where "REQUEST_NOT_MATCHED = RET_BASE + 32"
definition JOB_SCHEDULED :: int where "JOB_SCHEDULED = RET_BASE + 35"

lemmas ret_codes =
  RET_BASE_def SUCCESS_def NODESPEC_NOT_ENOUGH_NODES_TOTAL_def REQUEST_NOT_MATCHED_def JOB_SCHEDULED_def

section \<open>Assigning one node\<close>

definition upd_assign :: "(job_assign \<Rightarrow> job_assign) \<Rightarrow> node_info \<Rightarrow> node_info" where
  "upd_assign f n = n\<lparr>ni_assign := f (ni_assign n)\<rparr>"

text \<open>An exclusive job is assigned all processors and all memory of the node.\<close>

definition assigned_spec :: "bool \<Rightarrow> rheap \<Rightarrow> node_info \<Rightarrow> pars_spec_node \<Rightarrow> pars_spec_node" where
  "assigned_spec excl h n spec =
     (if excl then spec\<lparr>ps_procs := nat (nd_core_total n mod 2 ^ 32), ps_mem := nat (get_mem_total h n)\<rparr>
      else spec)"

definition commit_node :: "nat \<Rightarrow> pars_spec_node \<Rightarrow> ScratchType \<Rightarrow> repository_alternatives option \<Rightarrow>
    world \<Rightarrow> job_info \<Rightarrow> world \<times> job_info" where
  "commit_node a spec scratch ra w job =
     (upd_node a (upd_assign (\<lambda>j. set_selected_alternative ra (set_scratch_assign scratch (set_assignment spec j)))) w,
      job\<lparr>ji_schedule := ji_schedule job @ [a]\<rparr>)"

text \<open>What the check writes through its pointers, over what earlier iterations left there.\<close>

definition written :: "'a \<Rightarrow> 'a option \<Rightarrow> 'a" where
  "written old new = (case new of None \<Rightarrow> old | Some x \<Rightarrow> x)"

text \<open>
  The loop of \<open>assign_node\<close>: \<open>scratch\<close> and \<open>ra\<close> are the variables outside the loop.  The result is the
  return code, 0 when a node was assigned and 1 when none was.
\<close>

fun assign_node :: "env \<Rightarrow> queue_info \<Rightarrow> pars_spec_node \<Rightarrow> ScratchType \<Rightarrow> repository_alternatives option \<Rightarrow>
    nat list \<Rightarrow> world \<Rightarrow> job_info \<Rightarrow> world \<times> job_info \<times> int" where
  "assign_node ev q spec scratch ra [] w job = (w, job, 1)"
| "assign_node ev q spec scratch ra (a # as) w job =
     (if node_taken w a then assign_node ev q spec scratch ra as w job
      else
        (let excl = is_exclusive (ev_parse_nodespec ev) job;
             spec' = assigned_spec excl (w_heap w) (node_at w a) spec
         in if ji_cluster_mode job \<noteq> ClusterCreate then
              (let (test, s) = can_fit_job_for_run ev w q job spec (node_at w a)
               in if test \<noteq> CheckAvailable then assign_node ev q spec (written scratch s) ra as w job
                  else (let (w', job') = commit_node a spec' (written scratch s) ra w job in (w', job', 0)))
            else
              (let (test, s, r) = can_fit_job_for_boot ev w q job spec (node_at w a)
               in if test \<noteq> CheckAvailable then assign_node ev q spec (written scratch s) (written ra r) as w job
                  else (let (w', job') = commit_node a spec' (written scratch s) (written ra r) w job in (w', job', 0)))))"

fun reboot_loop :: "env \<Rightarrow> queue_info \<Rightarrow> pars_spec_node \<Rightarrow> ScratchType \<Rightarrow> repository_alternatives option \<Rightarrow>
    nat list \<Rightarrow> world \<Rightarrow> job_info \<Rightarrow> world \<times> job_info \<times> int" where
  "reboot_loop ev q spec scratch ra [] w job = (w, job, 1)"
| "reboot_loop ev q spec scratch ra (a # as) w job =
     (if node_taken w a then reboot_loop ev q spec scratch ra as w job
      else
        (let (test, s, r) = can_fit_job_for_boot ev w q job spec (node_at w a)
         in if test \<noteq> CheckAvailable then reboot_loop ev q spec (written scratch s) (written ra r) as w job
            else (let (w', job') = commit_node (physical_node w a) spec (written scratch s) (written ra r) w job
                  in (w', job', 0))))"

definition ondemand_reboot :: "env \<Rightarrow> queue_info \<Rightarrow> pars_spec_node \<Rightarrow> nat list \<Rightarrow> world \<Rightarrow> job_info \<Rightarrow>
    world \<times> job_info \<times> int" where
  "ondemand_reboot ev q spec nodes w job =
     (if ji_cluster_mode job \<noteq> ClusterNone then (w, job, 2)
      else reboot_loop ev q spec ScratchNone None nodes w job)"

section \<open>Assigning a specification\<close>

fun try_assign_nodes :: "env \<Rightarrow> queue_info \<Rightarrow> pars_spec_node \<Rightarrow> nat list \<Rightarrow> nat list \<Rightarrow> nat \<Rightarrow> world \<Rightarrow> job_info \<Rightarrow>
    world \<times> job_info \<times> CheckResult" where
  "try_assign_nodes ev q spec run_nodes boot_nodes 0 w job = (w, job, CheckAvailable)"
| "try_assign_nodes ev q spec run_nodes boot_nodes (Suc i) w job =
     (let (w1, job1, run_ret) =
            (if length run_nodes > 0 then assign_node ev q spec ScratchNone None run_nodes w job else (w, job, 2))
      in if run_ret = 0 then try_assign_nodes ev q spec run_nodes boot_nodes i w1 job1
         else
           (let (w2, job2, boot_ret) =
                  (if length boot_nodes > 0 then ondemand_reboot ev q spec boot_nodes w1 job1 else (w1, job1, 2))
            in if boot_ret = 0 then try_assign_nodes ev q spec run_nodes boot_nodes i w2 job2
               else if run_ret = 2 \<and> boot_ret = 2 then (w2, job2, CheckNonFit)
               else (w2, job2, CheckOccupied)))"

fun assign_specs :: "env \<Rightarrow> queue_info \<Rightarrow> nat list \<Rightarrow> CheckResult \<Rightarrow> pars_spec_node list \<Rightarrow> world \<Rightarrow> job_info \<Rightarrow>
    world \<times> job_info \<times> CheckResult" where
  "assign_specs ev q nodes result [] w job = (w, job, result)"
| "assign_specs ev q nodes result (spec # specs) w job =
     (let reboot_nodes = filter_reboot ev w q job spec nodes;
          unique = (\<lambda>a. nd_name (node_at w a)) ` (set nodes \<union> set reboot_nodes)
      in if card unique < ps_node_count spec then (w, job, CheckNonFit)
         else
           (let (w', job', ret) =
                  try_assign_nodes ev q spec (sort_by (NodeStateSort w) nodes)
                    (sort_by (NodeStateSort w) reboot_nodes) (ps_node_count spec) w job
            in if ret = CheckNonFit then (w', job', CheckNonFit)
               else assign_specs ev q nodes (if ret = CheckOccupied then CheckOccupied else result) specs w' job'))"

definition try_assign_spec :: "env \<Rightarrow> queue_info \<Rightarrow> nat list \<Rightarrow> world \<Rightarrow> job_info \<Rightarrow> world \<times> job_info \<times> CheckResult" where
  "try_assign_spec ev q nodes w job =
     assign_specs ev q nodes CheckAvailable (sp_nodes (job_spec (ev_parse_nodespec ev) job)) w job"

definition nodes_preassign_clean :: "nat list \<Rightarrow> world \<Rightarrow> world" where
  "nodes_preassign_clean nodes w = fold (\<lambda>a. upd_node a (upd_assign clean_assign)) nodes w"

text \<open>The loop over the values of the placement property; the values left are counted down.\<close>

fun place_loop :: "env \<Rightarrow> queue_info \<Rightarrow> nat list \<Rightarrow> nat \<Rightarrow> nat \<Rightarrow> nat \<Rightarrow> CheckResult \<Rightarrow> world \<Rightarrow> job_info \<Rightarrow>
    world \<times> job_info \<times> CheckResult" where
  "place_loop ev q nodes prop_id i 0 result w job = (w, job, result)"
| "place_loop ev q nodes prop_id i (Suc left) result w job =
     (let (w', job', ret) =
            try_assign_spec ev q (filter (\<lambda>a. has_reg_prop (node_at w a) prop_id i) nodes)
              (nodes_preassign_clean nodes w) (job\<lparr>ji_schedule := []\<rparr>)
      in if ret = CheckAvailable then (w', job', CheckAvailable)
         else place_loop ev q nodes prop_id (Suc i) left
                (if ret = CheckOccupied then CheckOccupied else result) w' job')"

text \<open>\<open>find_nodes\<close>; \<open>None\<close> is the exception for a placement property that is not registered.\<close>

definition find_nodes :: "env \<Rightarrow> prop_registry \<Rightarrow> queue_info \<Rightarrow> nat list \<Rightarrow> world \<Rightarrow> job_info \<Rightarrow>
    (world \<times> job_info \<times> CheckResult) option" where
  "find_nodes ev reg q nodes w job =
     (if ji_placement job \<noteq> [] then
        (let (found, prop_id) = get_property_id reg (ji_placement job)
         in if \<not> found then None
            else Some (place_loop ev q nodes prop_id 0 (snd (value_count reg prop_id)) CheckNonFit w job))
      else Some (try_assign_spec ev q nodes w job))"

section \<open>Fairshare cost\<close>

definition fairshare_node_cost :: "bool \<Rightarrow> rheap \<Rightarrow> node_info \<Rightarrow> pars_spec_node \<Rightarrow> rat" where
  "fairshare_node_cost excl h n spec =
     (let node_procs = of_int (to_ull (nd_core_total n)); node_mem = of_int (get_mem_total h n)
      in if excl then node_procs * nd_node_cost n
         else max (of_nat (ps_mem spec) / node_mem) (of_nat (ps_procs spec) / node_procs) * node_procs * nd_node_cost n)"

text \<open>
  The choice of \<open>node_count\<close> nodes: flagged nodes are skipped.  Running past the end of the vector,
  which the source does not check, is \<open>None\<close>.
\<close>

fun fairshare_pick :: "bool \<Rightarrow> pars_spec_node \<Rightarrow> nat \<Rightarrow> nat list \<Rightarrow> world \<Rightarrow> rat \<Rightarrow> (world \<times> rat) option" where
  "fairshare_pick excl spec 0 nodes w cost = Some (w, cost)"
| "fairshare_pick excl spec (Suc k) nodes w cost =
     (case dropWhile (\<lambda>a. ja_flag_fairshare (ni_assign (node_at w a))) nodes of
        [] \<Rightarrow> None
      | a # as \<Rightarrow>
          fairshare_pick excl spec k (a # as) (upd_node a (upd_assign set_fairshare_flag) w)
            (cost + fairshare_node_cost excl (w_heap w) (node_at w a) spec))"

fun fairshare_specs :: "env \<Rightarrow> queue_info \<Rightarrow> job_info \<Rightarrow> nat list \<Rightarrow> pars_spec_node list \<Rightarrow> world \<Rightarrow> rat \<Rightarrow>
    (world \<times> rat) option" where
  "fairshare_specs ev q job nodes [] w cost = Some (w, cost)"
| "fairshare_specs ev q job nodes (spec # specs) w cost =
     (let excl = is_exclusive (ev_parse_nodespec ev) job;
          fs = sort_by (NodeCostSort (ps_procs spec) (ps_mem spec) excl w) (filter_fairshare ev w q job spec nodes)
      in case fairshare_pick excl spec (ps_node_count spec) fs w cost of
           None \<Rightarrow> None
         | Some (w', cost') \<Rightarrow> fairshare_specs ev q job nodes specs w' cost')"

definition calculate_fairshare_cost :: "env \<Rightarrow> queue_info \<Rightarrow> job_info \<Rightarrow> nat list \<Rightarrow> world \<Rightarrow> (world \<times> rat) option" where
  "calculate_fairshare_cost ev q job nodes w =
     fairshare_specs ev q job nodes (sp_nodes (job_spec (ev_parse_nodespec ev) job)) w 0"

section \<open>Checking a node specification\<close>

text \<open>Booking a starving job on the nodes of its schedule; a node without an assignment is \<open>None\<close>.\<close>

fun plan_schedule :: "env \<Rightarrow> job_info \<Rightarrow> nat list \<Rightarrow> world \<Rightarrow> world option" where
  "plan_schedule ev job [] w = Some w"
| "plan_schedule ev job (a # as) w =
     (case ja_nodespec (ni_assign (node_at w a)) of
        None \<Rightarrow> None
      | Some spec \<Rightarrow>
          plan_schedule ev job as
            (let w' = plan_on_node ev job a spec w in propagate_resources (physical_node w' a) a w'))"

definition with_slaves :: "world \<Rightarrow> nat list \<Rightarrow> nat list" where
  "with_slaves w nodes = nodes @ concat (map (\<lambda>a. ni_slave_nodes (node_at w a)) nodes)"

text \<open>\<open>check_nodespec\<close> when some part of the specification could not be assigned.\<close>

definition check_occupied :: "env \<Rightarrow> prop_registry \<Rightarrow> queue_info \<Rightarrow> int \<Rightarrow> nat list \<Rightarrow> nat list \<Rightarrow> world \<Rightarrow> job_info \<Rightarrow>
    (world \<times> job_info \<times> int) option" where
  "check_occupied ev reg q current_time ninfo_arr suitable w job =
     (if qi_is_admin_queue q then Some (w, job, NODESPEC_NOT_ENOUGH_NODES_TOTAL)
      else
        (let w1 = nodes_preassign_clean ninfo_arr w; job1 = job\<lparr>ji_schedule := []\<rparr>
         in if is_starving current_time q job1 then
              (case find_nodes ev reg q (with_slaves w1 suitable) w1 job1 of
                 None \<Rightarrow> None
               | Some (w2, job2, result) \<Rightarrow>
                   (if result = CheckOccupied then Some (w2, job2, NODESPEC_NOT_ENOUGH_NODES_TOTAL)
                    else case plan_schedule ev job2 (ji_schedule job2) w2 of
                           None \<Rightarrow> None
                         | Some w3 \<Rightarrow> Some (plan_on_server job2 w3, job2, JOB_SCHEDULED)))
            else Some (w1, job1, NODESPEC_NOT_ENOUGH_NODES_TOTAL)))"

definition check_nodespec :: "env \<Rightarrow> prop_registry \<Rightarrow> queue_info \<Rightarrow> int \<Rightarrow> nat list \<Rightarrow> world \<Rightarrow> job_info \<Rightarrow>
    (world \<times> job_info \<times> int) option" where
  "check_nodespec ev reg q current_time ninfo_arr w job =
     (let suitable = filter_job ev w job ninfo_arr
      in case find_nodes ev reg q suitable w job of
           None \<Rightarrow> None
         | Some (w1, job1, result) \<Rightarrow>
             (if result = CheckNonFit then Some (nodes_preassign_clean ninfo_arr w1, job1, REQUEST_NOT_MATCHED)
              else if result = CheckOccupied then check_occupied ev reg q current_time ninfo_arr suitable w1 job1
              else case calculate_fairshare_cost ev q job1 suitable w1 of
                     None \<Rightarrow> None
                   | Some (w2, cost) \<Rightarrow> Some (w2, job1\<lparr>ji_calculated_fairshare := cost\<rparr>, SUCCESS)))"

section \<open>The target string\<close>

definition get_target_full :: "env \<Rightarrow> job_info \<Rightarrow> node_info \<Rightarrow> bool \<Rightarrow> string" where
  "get_target_full ev job n cluster =
     (if \<not> has_assignment (ni_assign n) then []
      else case get_assign_string (ev_db ev) (ni_assign n) (nd_name n)
                  (if ji_cluster_mode job = ClusterCreate \<or> cluster then RescOnlyAssignString else FullAssignString) of
             None \<Rightarrow> [] | Some s \<Rightarrow> s)"

fun plus_join :: "string list \<Rightarrow> string" where
  "plus_join [] = []"
| "plus_join [x] = x"
| "plus_join (x # y # ys) = x @ ''+'' @ plus_join (y # ys)"

definition exclusive_suffix :: "env \<Rightarrow> job_info \<Rightarrow> string" where
  "exclusive_suffix ev job = (if is_exclusive (ev_parse_nodespec ev) job then ''#excl'' else [])"

definition any_booting :: "world \<Rightarrow> nat list \<Rightarrow> bool" where
  "any_booting w nodes \<longleftrightarrow>
     (\<exists>a \<in> set nodes. has_assignment (ni_assign (node_at w a)) \<and>
        ni_magrathea_status (node_at w a) = MagratheaStateBooting)"

definition min_spec :: "world \<Rightarrow> nat list \<Rightarrow> rat" where
  "min_spec w nodes = fold (\<lambda>a m. if m = - 1 then nd_node_spec (node_at w a) else min m (nd_node_spec (node_at w a))) nodes (- 1)"

text \<open>The string (\<open>None\<close>: null), the booting flag and the smallest node speed.\<close>

definition nodes_preassign_string :: "env \<Rightarrow> job_info \<Rightarrow> nat list \<Rightarrow> world \<Rightarrow> string option \<times> bool \<times> rat" where
  "nodes_preassign_string ev job ninfo_arr w =
     (if any_booting w ninfo_arr then (None, True, - 1)
      else
        (let cluster = (\<exists>a \<in> set ninfo_arr. has_selected_alternative (ni_assign (node_at w a)))
         in (Some (plus_join (map (\<lambda>a. get_target_full ev job (node_at w a) cluster) (ji_schedule job)) @
               exclusive_suffix ev job), False, min_spec w (ji_schedule job))))"

definition nodes_preassign_string_new :: "env \<Rightarrow> job_info \<Rightarrow> nat list \<Rightarrow> bool \<Rightarrow> world \<Rightarrow> string option \<times> bool" where
  "nodes_preassign_string_new ev job ninfo_arr booting w =
     (if any_booting w ninfo_arr then (None, True)
      else (Some (plus_join (map (\<lambda>a. get_target_full ev job (node_at w a) False)
              (filter (\<lambda>a. has_assignment (ni_assign (node_at w a))) ninfo_arr)) @ exclusive_suffix ev job), booting))"

section \<open>What an assignment changes\<close>

text \<open>
  \<open>assigned w job w' job' as\<close>: exactly the nodes \<open>as\<close>, free before, carry an assignment afterwards and were
  appended to the schedule; nothing else changed.
\<close>

definition bare :: "node_info \<Rightarrow> node_info" where
  "bare n = upd_assign (\<lambda>_. new_job_assign) n"

definition assigned :: "world \<Rightarrow> job_info \<Rightarrow> world \<Rightarrow> job_info \<Rightarrow> nat list \<Rightarrow> bool" where
  "assigned w job w' job' as \<longleftrightarrow>
     job' = job\<lparr>ji_schedule := ji_schedule job @ as\<rparr> \<and> distinct as \<and>
     (\<forall>a \<in> set as. a < length (w_nodes w) \<and> \<not> has_assignment (ni_assign (node_at w a)) \<and>
        has_assignment (ni_assign (node_at w' a))) \<and>
     (\<forall>b. bare (node_at w' b) = bare (node_at w b)) \<and>
     (\<forall>b. b \<notin> set as \<longrightarrow> node_at w' b = node_at w b) \<and>
     length (w_nodes w') = length (w_nodes w) \<and> w_heap w' = w_heap w \<and>
     w_dynamic_resources w' = w_dynamic_resources w"

lemma bare_upd_assign [simp]: "bare (upd_assign f n) = bare n"
  by (simp add: bare_def upd_assign_def)

lemma bare_phys_node: "bare n = bare m \<Longrightarrow> ni_phys_node n = ni_phys_node m"
  by (simp add: bare_def upd_assign_def) (metis node_info.select_convs node_info.surjective node_info.update_convs(1))

lemma assigned_refl [simp]: "assigned w job w job []"
  by (simp add: assigned_def)

lemma assigned_trans:
  assumes "assigned w job w1 job1 as" and "assigned w1 job1 w2 job2 bs"
  shows "assigned w job w2 job2 (as @ bs)"
proof -
  have disj: "set as \<inter> set bs = {}" using assms by (auto simp: assigned_def)
  have keep: "a \<in> set as \<Longrightarrow> node_at w2 a = node_at w1 a" for a
    using assms(2) disj by (auto simp: assigned_def)
  have old: "b \<in> set bs \<Longrightarrow> node_at w1 b = node_at w b" for b
    using assms(1) disj by (auto simp: assigned_def)
  show ?thesis
    unfolding assigned_def
  proof (intro conjI)
    show "job2 = job\<lparr>ji_schedule := ji_schedule job @ as @ bs\<rparr>" using assms by (simp add: assigned_def)
    show "distinct (as @ bs)" using assms disj by (simp add: assigned_def)
    show "\<forall>a \<in> set (as @ bs). a < length (w_nodes w) \<and> \<not> has_assignment (ni_assign (node_at w a)) \<and>
        has_assignment (ni_assign (node_at w2 a))"
      using assms keep old by (auto simp: assigned_def)
    show "\<forall>b. b \<notin> set (as @ bs) \<longrightarrow> node_at w2 b = node_at w b" using assms by (simp add: assigned_def)
  qed (use assms in \<open>simp_all add: assigned_def\<close>)
qed

lemma commit_assigned:
  assumes "a < length (w_nodes w)" and "\<not> has_assignment (ni_assign (node_at w a))"
    and "commit_node a spec s r w job = (w', job')"
  shows "assigned w job w' job' [a] \<and> ja_nodespec (ni_assign (node_at w' a)) = Some spec"
proof -
  let ?f = "\<lambda>j. set_selected_alternative r (set_scratch_assign s (set_assignment spec j))"
  have w': "w' = upd_node a (upd_assign ?f) w" "job' = job\<lparr>ji_schedule := ji_schedule job @ [a]\<rparr>"
    using assms(3) by (auto simp: commit_node_def)
  have n: "node_at w' b = (if b = a then upd_assign ?f (node_at w a) else node_at w b)" for b
    using assms(1) by (simp add: w' node_at_upd_node)
  have i: "ni_assign (upd_assign ?f m) = ?f (ni_assign m)" for m by (simp add: upd_assign_def)
  have "length (w_nodes w') = length (w_nodes w)" "w_heap w' = w_heap w"
    "w_dynamic_resources w' = w_dynamic_resources w" by (simp_all add: w'(1))
  moreover have "ja_nodespec (?f j) = Some spec" for j
    by (simp add: set_selected_alternative_def set_scratch_assign_def set_assignment_def)
  ultimately show ?thesis
    using assms(1,2) w'(2) by (simp add: assigned_def n i)
qed

definition node_fits :: "env \<Rightarrow> world \<Rightarrow> queue_info \<Rightarrow> job_info \<Rightarrow> pars_spec_node \<Rightarrow> nat \<Rightarrow> bool" where
  "node_fits ev w q job spec a \<longleftrightarrow> \<not> node_taken w a \<and>
     (if ji_cluster_mode job \<noteq> ClusterCreate then fst (can_fit_job_for_run ev w q job spec (node_at w a)) = CheckAvailable
      else fst (can_fit_job_for_boot ev w q job spec (node_at w a)) = CheckAvailable)"

lemma node_taken_has: "\<not> node_taken w a \<Longrightarrow> \<not> has_assignment (ni_assign (node_at w a))"
  by (simp add: node_taken_def)

lemma assign_node_Cons:
  "\<exists>s r. assign_node ev q spec scratch ra (a # as) w job =
     (if node_fits ev w q job spec a then
        (let (w', job') = commit_node a
           (assigned_spec (is_exclusive (ev_parse_nodespec ev) job) (w_heap w) (node_at w a) spec) s r w job
         in (w', job', 0))
      else assign_node ev q spec s r as w job)"
proof -
  obtain t s where run: "can_fit_job_for_run ev w q job spec (node_at w a) = (t, s)" by fastforce
  obtain t' s' r' where boot: "can_fit_job_for_boot ev w q job spec (node_at w a) = (t', s', r')" by (metis surj_pair)
  consider "node_taken w a" | "\<not> node_taken w a" "ji_cluster_mode job \<noteq> ClusterCreate"
    | "\<not> node_taken w a" "ji_cluster_mode job = ClusterCreate" by blast
  then show ?thesis
  proof cases
    case 1
    then show ?thesis by (intro exI[of _ scratch] exI[of _ ra]) (simp add: node_fits_def)
  next
    case 2
    then show ?thesis
      by (intro exI[of _ "written scratch s"] exI[of _ ra]) (simp add: node_fits_def run)
  next
    case 3
    then show ?thesis
      by (intro exI[of _ "written scratch s'"] exI[of _ "written ra r'"]) (simp add: node_fits_def boot)
  qed
qed

text \<open>\<open>assign_node\<close> assigns the first node that fits, and nothing when there is none.\<close>

lemma assign_node_first:
  assumes "\<forall>a \<in> set nodes. a < length (w_nodes w)"
  shows "case List.find (node_fits ev w q job spec) nodes of
     None \<Rightarrow> assign_node ev q spec scratch ra nodes w job = (w, job, 1)
   | Some a \<Rightarrow> (\<exists>w' job'. assign_node ev q spec scratch ra nodes w job = (w', job', 0) \<and>
       assigned w job w' job' [a] \<and>
       ja_nodespec (ni_assign (node_at w' a)) =
         Some (assigned_spec (is_exclusive (ev_parse_nodespec ev) job) (w_heap w) (node_at w a) spec))"
  using assms
proof (induction nodes arbitrary: scratch ra)
  case Nil
  then show ?case by simp
next
  case (Cons a as)
  show ?case
  proof (cases "node_fits ev w q job spec a")
    case True
    then have nt: "\<not> node_taken w a" by (simp add: node_fits_def)
    define sp where "sp = assigned_spec (is_exclusive (ev_parse_nodespec ev) job) (w_heap w) (node_at w a) spec"
    obtain s r where "assign_node ev q spec scratch ra (a # as) w job =
        (let (w', job') = commit_node a sp s r w job in (w', job', 0))"
      using True assign_node_Cons[of ev q spec scratch ra a as w job] unfolding sp_def by auto
    moreover obtain w' job' where "commit_node a sp s r w job = (w', job')" by fastforce
    ultimately show ?thesis
      using True commit_assigned[of a w sp s r job w' job'] Cons.prems node_taken_has[OF nt]
      by (simp add: sp_def del: assign_node.simps)
  next
    case False
    obtain s r where eq: "assign_node ev q spec scratch ra (a # as) w job = assign_node ev q spec s r as w job"
      using False assign_node_Cons[of ev q spec scratch ra a as w job] by auto
    have "List.find (node_fits ev w q job spec) (a # as) = List.find (node_fits ev w q job spec) as"
      using False by simp
    then show ?thesis using Cons.IH[of s r] Cons.prems unfolding eq by simp
  qed
qed

lemma assign_node_spec:
  assumes "\<forall>a \<in> set nodes. a < length (w_nodes w)"
    and "assign_node ev q spec scratch ra nodes w job = (w', job', ret)"
  shows "(ret = 1 \<and> w' = w \<and> job' = job) \<or> (ret = 0 \<and> (\<exists>a \<in> set nodes. assigned w job w' job' [a]))"
  using assign_node_first[OF assms(1), where ev = ev and q = q and job = job and spec = spec and scratch = scratch and ra = ra] assms(2)
  by (auto split: option.splits simp: find_Some_iff)

lemma reboot_loop_spec:
  assumes "\<forall>a \<in> set nodes. a < length (w_nodes w) \<and> ni_phys_node (node_at w a) = None"
    and "reboot_loop ev q spec scratch ra nodes w job = (w', job', ret)"
  shows "(ret = 1 \<and> w' = w \<and> job' = job) \<or> (ret = 0 \<and> (\<exists>a \<in> set nodes. assigned w job w' job' [a]))"
  using assms
proof (induction nodes arbitrary: scratch ra)
  case (Cons a as)
  obtain t s r where b: "can_fit_job_for_boot ev w q job spec (node_at w a) = (t, s, r)" by (metis surj_pair)
  show ?case
  proof (cases "node_taken w a \<or> t \<noteq> CheckAvailable")
    case True
    then show ?thesis using Cons b by (auto simp: Let_def split: if_splits)
  next
    case False
    have "physical_node w a = a" using Cons.prems(1) by (simp add: physical_node_def)
    then have "ret = 0 \<and> commit_node a spec (written scratch s) (written ra r) w job = (w', job')"
      using Cons.prems(2) False b by (auto split: prod.splits)
    then show ?thesis
      using commit_assigned[of a w spec _ _ job w' job'] Cons.prems(1) False node_taken_has by auto
  qed
qed auto

text \<open>The nodes that may be assigned: physical nodes of the world.\<close>

definition phys_nodes :: "world \<Rightarrow> nat set \<Rightarrow> bool" where
  "phys_nodes w A \<longleftrightarrow> (\<forall>a \<in> A. a < length (w_nodes w) \<and> ni_phys_node (node_at w a) = None)"

lemma phys_nodes_assigned:
  "assigned w job w' job' as \<Longrightarrow> phys_nodes w A \<Longrightarrow> phys_nodes w' A"
  unfolding phys_nodes_def assigned_def using bare_phys_node by metis

lemma ondemand_reboot_spec:
  assumes "phys_nodes w (set nodes)" and "ondemand_reboot ev q spec nodes w job = (w', job', ret)"
  shows "(ret \<noteq> 0 \<and> w' = w \<and> job' = job) \<or> (ret = 0 \<and> (\<exists>a \<in> set nodes. assigned w job w' job' [a]))"
  using assms reboot_loop_spec[of nodes w ev q spec ScratchNone None job w' job' ret]
  by (auto simp: ondemand_reboot_def phys_nodes_def split: if_splits)

lemma try_assign_nodes_spec:
  assumes "phys_nodes w (set run \<union> set boot)"
    and "try_assign_nodes ev q spec run boot k w job = (w', job', ret)"
  shows "\<exists>as. assigned w job w' job' as \<and> set as \<subseteq> set run \<union> set boot \<and>
     (if ret = CheckAvailable then length as = k else length as < k)"
  using assms
proof (induction k arbitrary: w job)
  case 0
  then show ?case by (intro exI[of _ "[]"]) auto
next
  case (Suc k)
  define R where "R = (if length run > 0 then assign_node ev q spec ScratchNone None run w job else (w, job, 2))"
  obtain w1 job1 r1 where R: "R = (w1, job1, r1)" by (metis surj_pair)
  have s1: "(r1 \<noteq> 0 \<and> w1 = w \<and> job1 = job) \<or> (r1 = 0 \<and> (\<exists>a \<in> set run. assigned w job w1 job1 [a]))"
    using assign_node_spec[of run w ev q spec ScratchNone None job w1 job1 r1] R Suc.prems(1)
    by (auto simp: R_def phys_nodes_def split: if_splits)
  define B where "B = (if length boot > 0 then ondemand_reboot ev q spec boot w1 job1 else (w1, job1, 2))"
  obtain w2 job2 r2 where B: "B = (w2, job2, r2)" by (metis surj_pair)
  have s2: "(r2 \<noteq> 0 \<and> w2 = w1 \<and> job2 = job1) \<or> (r2 = 0 \<and> (\<exists>a \<in> set boot. assigned w1 job1 w2 job2 [a]))"
    if "w1 = w"
    using ondemand_reboot_spec[of w1 boot ev q spec job1 w2 job2 r2] B Suc.prems(1) that
    by (auto simp: B_def phys_nodes_def split: if_splits)
  have eq: "try_assign_nodes ev q spec run boot (Suc k) w job =
      (if r1 = 0 then try_assign_nodes ev q spec run boot k w1 job1
       else if r2 = 0 then try_assign_nodes ev q spec run boot k w2 job2
       else if r1 = 2 \<and> r2 = 2 then (w2, job2, CheckNonFit) else (w2, job2, CheckOccupied))"
    unfolding try_assign_nodes.simps R_def[symmetric] R Let_def case_prod_conv B_def[symmetric] B by simp
  have step: ?case if h: "assigned w job v vjob [a]" "a \<in> set run \<union> set boot"
      "try_assign_nodes ev q spec run boot k v vjob = (w', job', ret)" for v vjob a
  proof -
    obtain as where "assigned v vjob w' job' as" "set as \<subseteq> set run \<union> set boot"
        "if ret = CheckAvailable then length as = k else length as < k"
      using Suc.IH[OF phys_nodes_assigned[OF h(1) Suc.prems(1)] h(3)] by blast
    then show ?thesis
      using assigned_trans[OF h(1)] h(2) by (intro exI[of _ "a # as"]) (auto split: if_splits)
  qed
  consider (run) "r1 = 0" | (boot) "r1 \<noteq> 0" "r2 = 0" | (none) "r1 \<noteq> 0" "r2 \<noteq> 0" by blast
  then show ?case
  proof cases
    case run
    then obtain a where "a \<in> set run" "assigned w job w1 job1 [a]" using s1 by auto
    then show ?thesis using run Suc.prems(2) unfolding eq by (intro step) auto
  next
    case boot
    then obtain a where "a \<in> set boot" "assigned w job w2 job2 [a]" using s1 s2 by auto
    then show ?thesis using boot Suc.prems(2) unfolding eq by (intro step) auto
  next
    case none
    then show ?thesis
      using s1 s2 Suc.prems(2) unfolding eq by (intro exI[of _ "[]"]) (auto split: if_splits)
  qed
qed

lemma set_filter_reboot: "set (filter_reboot ev w q job spec nodes) \<subseteq> set nodes"
  by (auto simp: filter_reboot_def filter_nodes_def)

lemma assign_specs_spec:
  assumes "phys_nodes w (set nodes)" and "assign_specs ev q nodes res specs w job = (w', job', ret)"
  shows "\<exists>as. assigned w job w' job' as \<and> set as \<subseteq> set nodes \<and>
     (ret = CheckAvailable \<longrightarrow> res = CheckAvailable \<and> length as = sum_list (map ps_node_count specs))"
  using assms
proof (induction specs arbitrary: w job res)
  case Nil
  then show ?case by (intro exI[of _ "[]"]) auto
next
  case (Cons spec specs)
  let ?rb = "filter_reboot ev w q job spec nodes"
  obtain v vjob t where T: "try_assign_nodes ev q spec (sort_by (NodeStateSort w) nodes)
      (sort_by (NodeStateSort w) ?rb) (ps_node_count spec) w job = (v, vjob, t)" by (metis surj_pair)
  have "phys_nodes w (set (sort_by (NodeStateSort w) nodes) \<union> set (sort_by (NodeStateSort w) ?rb))"
    using Cons.prems(1) set_filter_reboot[of ev w q job spec nodes] by (auto simp: phys_nodes_def)
  from try_assign_nodes_spec[OF this T] obtain as where
    as: "assigned w job v vjob as" "set as \<subseteq> set nodes"
      "if t = CheckAvailable then length as = ps_node_count spec else length as < ps_node_count spec"
    using set_filter_reboot[of ev w q job spec nodes] by auto
  consider "(w', job', ret) = (w, job, CheckNonFit)" | "(w', job', ret) = (v, vjob, CheckNonFit)"
    | "t \<noteq> CheckNonFit"
      "assign_specs ev q nodes (if t = CheckOccupied then CheckOccupied else res) specs v vjob = (w', job', ret)"
    using Cons.prems(2) T by (auto simp: Let_def split: if_splits)
  then show ?case
  proof cases
    case 1
    then show ?thesis by (intro exI[of _ "[]"]) auto
  next
    case 2
    then show ?thesis using as by (intro exI[of _ as]) auto
  next
    case 3
    from Cons.IH[OF phys_nodes_assigned[OF as(1) Cons.prems(1)] 3(2)] obtain bs where
      bs: "assigned v vjob w' job' bs" "set bs \<subseteq> set nodes"
        "ret = CheckAvailable \<longrightarrow> (if t = CheckOccupied then CheckOccupied else res) = CheckAvailable \<and>
           length bs = sum_list (map ps_node_count specs)" by blast
    have "ret = CheckAvailable \<Longrightarrow> t = CheckAvailable" using bs(3) 3(1) by (cases t) auto
    then show ?thesis
      using assigned_trans[OF as(1) bs(1)] as bs by (intro exI[of _ "as @ bs"]) auto
  qed
qed

section \<open>A found schedule is complete\<close>

text \<open>What a successful search leaves behind.\<close>

definition schedule_ok :: "env \<Rightarrow> nat list \<Rightarrow> world \<Rightarrow> job_info \<Rightarrow> bool" where
  "schedule_ok ev nodes w job \<longleftrightarrow>
     distinct (ji_schedule job) \<and> set (ji_schedule job) \<subseteq> set nodes \<and>
     length (ji_schedule job) = sum_list (map ps_node_count (sp_nodes (job_spec (ev_parse_nodespec ev) job))) \<and>
     (\<forall>a \<in> set nodes. has_assignment (ni_assign (node_at w a)) \<longleftrightarrow> a \<in> set (ji_schedule job))"

lemma job_spec_schedule [simp]: "job_spec parse (job\<lparr>ji_schedule := x\<rparr>) = job_spec parse job"
  by (simp add: job_spec_def parsed_nodespec_def Let_def split: option.splits)

lemma try_assign_spec_ok:
  assumes "phys_nodes w (set nodes)" and "set sub \<subseteq> set nodes" and "ji_schedule job = []"
    and "\<forall>a \<in> set nodes. \<not> has_assignment (ni_assign (node_at w a))"
    and "try_assign_spec ev q sub w job = (w', job', CheckAvailable)"
  shows "schedule_ok ev nodes w' job'"
proof -
  have "phys_nodes w (set sub)" using assms(1,2) by (auto simp: phys_nodes_def)
  from assign_specs_spec[OF this assms(5)[unfolded try_assign_spec_def]] obtain as where
    as: "assigned w job w' job' as" "set as \<subseteq> set sub"
      "length as = sum_list (map ps_node_count (sp_nodes (job_spec (ev_parse_nodespec ev) job)))" by blast
  have sch: "ji_schedule job' = as" "job_spec p job' = job_spec p job" for p
    using as(1) assms(3) by (auto simp: assigned_def)
  have "\<forall>a \<in> set nodes. has_assignment (ni_assign (node_at w' a)) \<longleftrightarrow> a \<in> set as"
    using as(1) assms(4) by (auto simp: assigned_def)
  moreover have "distinct as" using as(1) by (simp add: assigned_def)
  ultimately show ?thesis
    using as(2,3) assms(2) by (simp add: schedule_ok_def sch)
qed

lemma preassign_clean_spec:
  assumes "\<forall>a \<in> set nodes. a < length (w_nodes w)"
  shows "length (w_nodes (nodes_preassign_clean nodes w)) = length (w_nodes w) \<and>
     w_heap (nodes_preassign_clean nodes w) = w_heap w \<and>
     (\<forall>b. node_at (nodes_preassign_clean nodes w) b =
        (if b \<in> set nodes then upd_assign clean_assign (node_at w b) else node_at w b))"
  using assms
proof (induction nodes arbitrary: w)
  case (Cons a as)
  have "upd_assign clean_assign (upd_assign clean_assign n) = upd_assign clean_assign n" for n
    by (simp add: upd_assign_def clean_assign_def)
  then show ?case
    using Cons.IH[of "upd_node a (upd_assign clean_assign) w"] Cons.prems
    by (auto simp: nodes_preassign_clean_def node_at_upd_node)
qed (simp add: nodes_preassign_clean_def)

lemma has_assignment_cleaned [simp]: "\<not> has_assignment (ni_assign (upd_assign clean_assign n))"
  by (simp add: upd_assign_def)

lemma phys_nodes_clean:
  "phys_nodes w (set nodes) \<Longrightarrow> phys_nodes (nodes_preassign_clean nodes w) (set nodes)"
  using preassign_clean_spec[of nodes w] by (auto simp: phys_nodes_def upd_assign_def)

lemma place_loop_ok:
  assumes "phys_nodes w (set nodes)" and "place_loop ev q nodes p i left res w job = (w', job', CheckAvailable)"
    and "res \<noteq> CheckAvailable"
  shows "schedule_ok ev nodes w' job'"
  using assms
proof (induction left arbitrary: i res w job)
  case (Suc left)
  let ?sub = "filter (\<lambda>a. has_reg_prop (node_at w a) p i) nodes" and ?w = "nodes_preassign_clean nodes w"
  obtain v vjob t where T: "try_assign_spec ev q ?sub ?w (job\<lparr>ji_schedule := []\<rparr>) = (v, vjob, t)" by (metis surj_pair)
  have ph: "phys_nodes ?w (set nodes)" by (rule phys_nodes_clean[OF Suc.prems(1)])
  show ?case
  proof (cases "t = CheckAvailable")
    case True
    have "\<forall>a \<in> set nodes. \<not> has_assignment (ni_assign (node_at ?w a))"
      using preassign_clean_spec[of nodes w] Suc.prems(1) by (auto simp: phys_nodes_def)
    then have "schedule_ok ev nodes v vjob"
      using T True by (intro try_assign_spec_ok[OF ph, where sub = ?sub]) auto
    then show ?thesis using Suc.prems(2) T True by simp
  next
    case False
    have "phys_nodes ?w (set ?sub)" using ph by (auto simp: phys_nodes_def)
    from assign_specs_spec[OF this T[unfolded try_assign_spec_def]]
    have "phys_nodes v (set nodes)" using phys_nodes_assigned ph by blast
    moreover have "place_loop ev q nodes p (Suc i) left (if t = CheckOccupied then CheckOccupied else res) v vjob =
        (w', job', CheckAvailable)" using Suc.prems(2) T False by simp
    moreover have "(if t = CheckOccupied then CheckOccupied else res) \<noteq> CheckAvailable" using Suc.prems(3) by simp
    ultimately show ?thesis by (rule Suc.IH)
  qed
qed simp

lemma find_nodes_ok:
  assumes "phys_nodes w (set nodes)" and "ji_schedule job = []"
    and "\<forall>a \<in> set nodes. \<not> has_assignment (ni_assign (node_at w a))"
    and "find_nodes ev reg q nodes w job = Some (w', job', CheckAvailable)"
  shows "schedule_ok ev nodes w' job'"
proof (cases "ji_placement job = []")
  case True
  then show ?thesis
    using assms try_assign_spec_ok[OF assms(1) _ assms(2,3), of nodes ev q w' job'] by (simp add: find_nodes_def)
next
  case False
  then show ?thesis
    using assms place_loop_ok[OF assms(1)] by (auto simp: find_nodes_def split: prod.splits if_splits)
qed

text \<open>The fairshare cost only sets flags.\<close>

lemma has_assignment_flag [simp]:
  "has_assignment (ni_assign (upd_assign set_fairshare_flag n)) = has_assignment (ni_assign n)"
  by (simp add: upd_assign_def has_assignment_def set_fairshare_flag_def)

lemma fairshare_pick_frame:
  "fairshare_pick excl spec k nodes w cost = Some (w', cost') \<Longrightarrow>
     has_assignment (ni_assign (node_at w' b)) = has_assignment (ni_assign (node_at w b)) \<and>
     bare (node_at w' b) = bare (node_at w b) \<and> length (w_nodes w') = length (w_nodes w) \<and> w_heap w' = w_heap w"
proof (induction k arbitrary: nodes w cost)
  case (Suc k)
  obtain a as where d: "dropWhile (\<lambda>a. ja_flag_fairshare (ni_assign (node_at w a))) nodes = a # as"
    using Suc.prems by (auto split: list.splits)
  let ?w = "upd_node a (upd_assign set_fairshare_flag) w"
  have "fairshare_pick excl spec k (a # as) ?w (cost + fairshare_node_cost excl (w_heap w) (node_at w a) spec) =
      Some (w', cost')" using Suc.prems d by simp
  from Suc.IH[OF this] show ?case by (auto simp: node_at_upd_node)
qed simp

lemma fairshare_specs_frame:
  "fairshare_specs ev q job nodes specs w cost = Some (w', cost') \<Longrightarrow>
     has_assignment (ni_assign (node_at w' b)) = has_assignment (ni_assign (node_at w b)) \<and>
     bare (node_at w' b) = bare (node_at w b)"
proof (induction specs arbitrary: w cost)
  case (Cons spec specs)
  then obtain v c where p: "fairshare_pick (is_exclusive (ev_parse_nodespec ev) job) spec (ps_node_count spec)
      (sort_by (NodeCostSort (ps_procs spec) (ps_mem spec) (is_exclusive (ev_parse_nodespec ev) job) w)
        (filter_fairshare ev w q job spec nodes)) w cost = Some (v, c)"
    "fairshare_specs ev q job nodes specs v c = Some (w', cost')"
    by (auto simp: Let_def split: option.splits)
  show ?case using fairshare_pick_frame[OF p(1)] Cons.IH[OF p(2)] by simp
qed simp

lemma fairshare_pick_grows:
  assumes "\<forall>b. 0 \<le> nd_node_cost (node_at w b)"
    and "fairshare_pick excl spec k nodes w cost = Some (w', cost')"
  shows "cost \<le> cost'"
  using assms
proof (induction k arbitrary: nodes w cost)
  case (Suc k)
  obtain a as where d: "dropWhile (\<lambda>a. ja_flag_fairshare (ni_assign (node_at w a))) nodes = a # as"
    using Suc.prems by (auto split: list.splits)
  have m: "0 \<le> get_mem_total h n" for h n
    by (auto simp: get_mem_total_def to_ull_def split: option.splits)
  have "0 \<le> fairshare_node_cost excl (w_heap w) (node_at w a) spec"
    using Suc.prems(1) m[of "w_heap w" "node_at w a"]
    by (auto simp: fairshare_node_cost_def Let_def to_ull_def max_def intro!: mult_nonneg_nonneg)
  moreover have "\<forall>b. 0 \<le> nd_node_cost (node_at (upd_node a (upd_assign set_fairshare_flag) w) b)"
    using Suc.prems(1) by (simp add: node_at_upd_node upd_assign_def)
  ultimately show ?case using Suc.IH Suc.prems(2) d by fastforce
qed simp

lemma set_filter_job: "set (filter_job ev w job nodes) \<subseteq> set nodes"
  by (auto simp: filter_job_def filter_nodes_def)

lemma check_nodespec_success:
  assumes "phys_nodes w (set ninfo_arr)" and "ji_schedule job = []"
    and "\<forall>a \<in> set ninfo_arr. \<not> has_assignment (ni_assign (node_at w a))"
    and "check_nodespec ev reg q now ninfo_arr w job = Some (w', job', SUCCESS)"
  shows "schedule_ok ev (filter_job ev w job ninfo_arr) w' job'"
proof -
  let ?s = "filter_job ev w job ninfo_arr"
  obtain w1 job1 r where f: "find_nodes ev reg q ?s w job = Some (w1, job1, r)"
    using assms(4) by (auto simp: check_nodespec_def Let_def split: option.splits)
  have "r = CheckAvailable"
    using assms(4) f
    by (cases r) (auto simp: check_nodespec_def check_occupied_def Let_def ret_codes split: option.splits if_splits)
  then obtain c where c: "calculate_fairshare_cost ev q job1 ?s w1 = Some (w', c)"
      "job' = job1\<lparr>ji_calculated_fairshare := c\<rparr>"
    using assms(4) f by (auto simp: check_nodespec_def Let_def split: option.splits)
  have "schedule_ok ev ?s w1 job1"
    using assms(1-3) f \<open>r = CheckAvailable\<close> set_filter_job[of ev w job ninfo_arr]
    by (intro find_nodes_ok[where w = w and job = job and reg = reg and q = q]) (auto simp: phys_nodes_def)
  moreover have "job_spec p job' = job_spec p job1" for p
    by (simp add: c(2) job_spec_def parsed_nodespec_def Let_def split: option.splits)
  ultimately show ?thesis
    using fairshare_specs_frame[OF c(1)[unfolded calculate_fairshare_cost_def]] c(2)
    by (simp add: schedule_ok_def)
qed

section \<open>What the search changes in the job\<close>

text \<open>Only the schedule and the fairshare cost: the rest of the job is its core.\<close>

definition job_core :: "job_info \<Rightarrow> job_info" where
  "job_core job = job\<lparr>ji_schedule := [], ji_calculated_fairshare := 0\<rparr>"

lemma job_core_upd [simp]:
  "job_core (job\<lparr>ji_schedule := x\<rparr>) = job_core job" "job_core (job\<lparr>ji_calculated_fairshare := c\<rparr>) = job_core job"
  by (simp_all add: job_core_def)

lemma commit_node_core: "job_core (snd (commit_node a spec s ra w job)) = job_core job"
  by (simp add: commit_node_def)

lemma assign_node_core: "job_core (fst (snd (assign_node ev q spec s ra nodes w job))) = job_core job"
  by (induction ev q spec s ra nodes w job rule: assign_node.induct)
    (auto simp: Let_def commit_node_def split: prod.split)

lemma reboot_loop_core: "job_core (fst (snd (reboot_loop ev q spec s ra nodes w job))) = job_core job"
  by (induction ev q spec s ra nodes w job rule: reboot_loop.induct)
    (auto simp: Let_def commit_node_def split: prod.split)

lemma try_assign_nodes_core: "job_core (fst (snd (try_assign_nodes ev q spec run boot k w job))) = job_core job"
proof (induction k arbitrary: w job)
  case (Suc k)
  have run: "job_core (fst (snd (if length run > 0 then assign_node ev q spec ScratchNone None run w job else (w, job, 2)))) =
      job_core job" by (simp add: assign_node_core)
  have boot: "job_core (fst (snd (if length boot > 0 then ondemand_reboot ev q spec boot v vjob else (v, vjob, 2)))) =
      job_core vjob" for v vjob by (simp add: ondemand_reboot_def reboot_loop_core)
  show ?case using run boot Suc.IH by (auto simp: Let_def split: prod.split) (metis fst_conv snd_conv)+
qed simp

lemma assign_specs_core: "job_core (fst (snd (assign_specs ev q nodes res specs w job))) = job_core job"
proof (induction specs arbitrary: res w job)
  case (Cons spec specs)
  show ?case using try_assign_nodes_core Cons.IH by (auto simp: Let_def split: prod.split) (metis fst_conv snd_conv)+
qed simp

lemma place_loop_core: "job_core (fst (snd (place_loop ev q nodes p i left res w job))) = job_core job"
proof (induction left arbitrary: i res w job)
  case (Suc left)
  show ?case using assign_specs_core[of ev q] Suc.IH
    by (auto simp: Let_def try_assign_spec_def split: prod.split) (metis fst_conv snd_conv job_core_upd(1))+
qed simp

lemma find_nodes_core: "find_nodes ev reg q nodes w job = Some (w', job', r) \<Longrightarrow> job_core job' = job_core job"
  by (auto simp: find_nodes_def try_assign_spec_def split: prod.splits if_splits)
    (metis fst_conv snd_conv place_loop_core, metis fst_conv snd_conv assign_specs_core)

lemma check_nodespec_core:
  "check_nodespec ev reg q now nodes w job = Some (w', job', rc) \<Longrightarrow> job_core job' = job_core job"
  by (auto simp: check_nodespec_def check_occupied_def Let_def dest!: find_nodes_core split: option.splits if_splits)

end
