(* ===== verification/FairshareTree.thy ===== *)
theory FairshareTree
  imports JobInfo
begin

text \<open>
  The fairshare tree: \<open>src/logic/FairshareTree.cpp\<close>.  A group has a first child and a next sibling; the
  parent pointer is the position in the tree.  A pointer returned by \<open>find_ginfo\<close> denotes the first group
  of that name in the search order, so a write through it is \<open>upd_ginfo\<close>.  The locale \<open>keyed_store\<close> states
  the laws of such a store.  Percentages (\<open>float\<close>) are rationals, share and usage counters are integers
  within their range.
\<close>

section \<open>Data\<close>

record group_data =
  g_name :: string
  g_resgroup :: int
  g_cresgroup :: int
  g_shares :: int
  g_percentage :: rat
  g_usage :: int
  g_temp_usage :: int

datatype group_info = Null | Group group_data (g_child: group_info) (g_sibling: group_info)

definition new_group_info :: "string \<Rightarrow> group_data" where
  "new_group_info name =
     \<lparr>g_name = name, g_resgroup = RESC_UNSPECIFIED, g_cresgroup = RESC_UNSPECIFIED, g_shares = RESC_UNSPECIFIED,
      g_percentage = 0, g_usage = 1, g_temp_usage = 1\<rparr>"

definition init_fairshare_root :: "int \<Rightarrow> group_info" where
  "init_fairshare_root unknown_shares =
     Group ((new_group_info ''root'')\<lparr>g_resgroup := - 1, g_cresgroup := 0, g_percentage := 1\<rparr>)
       (Group ((new_group_info ''unknown'')\<lparr>g_shares := unknown_shares, g_resgroup := 0, g_cresgroup := 1\<rparr>) Null Null)
       Null"

text \<open>\<open>add_child\<close>: the new group becomes the first child.\<close>

definition add_child :: "group_data \<Rightarrow> group_data \<times> group_info \<Rightarrow> group_data \<times> group_info" where
  "add_child ginfo parent =
     (fst parent, Group (ginfo\<lparr>g_resgroup := g_cresgroup (fst parent)\<rparr>) Null (snd parent))"

fun count_shares :: "group_info \<Rightarrow> int" where
  "count_shares Null = 0"
| "count_shares (Group g c s) = g_shares g + count_shares s"

text \<open>\<open>calc_fair_share_perc\<close> on the chain of children of a parent with percentage \<open>perc\<close>.\<close>

fun calc_fair_share_perc :: "rat \<Rightarrow> int \<Rightarrow> group_info \<Rightarrow> group_info" where
  "calc_fair_share_perc perc shares Null = Null"
| "calc_fair_share_perc perc shares (Group g c s) =
     (let cur_shares = (if shares = RESC_UNSPECIFIED then count_shares (Group g c s) else shares);
          p = of_int (g_shares g) / of_int cur_shares * perc
      in Group (g\<lparr>g_percentage := p\<rparr>) (calc_fair_share_perc p RESC_UNSPECIFIED c)
           (calc_fair_share_perc perc cur_shares s))"

fun find_ginfo :: "string \<Rightarrow> group_info \<Rightarrow> group_data option" where
  "find_ginfo name Null = None"
| "find_ginfo name (Group g c s) =
     (if name = g_name g then Some g
      else or_else (find_ginfo name s) (find_ginfo name c))"

text \<open>A change at the group \<open>find_ginfo\<close> returns, with its chain of children.\<close>

fun upd_node_at :: "string \<Rightarrow> (group_data \<times> group_info \<Rightarrow> group_data \<times> group_info) \<Rightarrow> group_info \<Rightarrow> group_info" where
  "upd_node_at name f Null = Null"
| "upd_node_at name f (Group g c s) =
     (if name = g_name g then Group (fst (f (g, c))) (snd (f (g, c))) s
      else if find_ginfo name s \<noteq> None then Group g c (upd_node_at name f s)
      else Group g (upd_node_at name f c) s)"

definition upd_ginfo :: "string \<Rightarrow> (group_data \<Rightarrow> group_data) \<Rightarrow> group_info \<Rightarrow> group_info" where
  "upd_ginfo name f t = upd_node_at name (\<lambda>(g, c). (f g, c)) t"

definition add_unknown :: "group_data \<Rightarrow> group_info \<Rightarrow> group_info" where
  "add_unknown ginfo t =
     upd_node_at ''unknown''
       (\<lambda>n. let (g, c) = add_child ginfo n in (g, calc_fair_share_perc (g_percentage g) RESC_UNSPECIFIED c)) t"

text \<open>\<open>find_alloc_ginfo\<close>: afterwards the group of that name exists.\<close>

definition find_alloc_ginfo :: "string \<Rightarrow> group_info \<Rightarrow> group_info" where
  "find_alloc_ginfo name t =
     (case find_ginfo name t of
        Some _ \<Rightarrow> t
      | None \<Rightarrow> add_unknown ((new_group_info name)\<lparr>g_shares := 1\<rparr>) t)"

section \<open>Reading and writing\<close>

datatype tree_error = Parse_Error | Missing_Token

definition line_of :: "string \<Rightarrow> string" where
  "line_of buf = (if buf \<noteq> [] \<and> last buf = CHR 0x0A then butlast buf else buf)"

text \<open>One line of \<open>resource_group\<close>: name, group of the children, parent, shares.\<close>

definition config_line :: "string \<Rightarrow> group_info \<Rightarrow> tree_error + group_info" where
  "config_line buf t =
     (let line = line_of buf
      in if skip_line line then Inr t
         else case strtok_words {CHR '' '', CHR 0x09} line of
                nametok # cgrouptok # grouptok # sharestok # _ \<Rightarrow>
                  (let t1 = find_alloc_ginfo grouptok t;
                       (shares, e1) = strtol sharestok;
                       (cgroup, e2) = strtol cgrouptok
                   in if e1 \<noteq> [] then Inl Parse_Error
                      else if e2 \<noteq> [] then Inl Parse_Error
                      else Inr (upd_node_at grouptok
                             (add_child ((new_group_info nametok)\<lparr>g_cresgroup := to_sint cgroup, g_shares := to_sint shares\<rparr>)) t1))
              | _ \<Rightarrow> Inl Missing_Token)"

fun read_configuration :: "string list \<Rightarrow> group_info \<Rightarrow> tree_error + group_info" where
  "read_configuration [] t = Inr t"
| "read_configuration (l # ls) t =
     (case config_line l t of Inl e \<Rightarrow> Inl e | Inr t' \<Rightarrow> read_configuration ls t')"

text \<open>The usage entries, as the configuration parser delivers them.\<close>

definition set_usage :: "int \<Rightarrow> group_data \<Rightarrow> group_data" where
  "set_usage v g = g\<lparr>g_usage := v, g_temp_usage := v\<rparr>"

fun read_usage :: "(string \<times> int) list \<Rightarrow> group_info \<Rightarrow> group_info" where
  "read_usage [] t = t"
| "read_usage ((name, v) # us) t = read_usage us (upd_ginfo name (set_usage v) (find_alloc_ginfo name t))"

fun dump_usage :: "group_info \<Rightarrow> (string \<times> int) list" where
  "dump_usage Null = []"
| "dump_usage (Group g c s) =
     (if g_usage g \<noteq> 1 then [(g_name g, g_usage g)] else []) @ dump_usage s @ dump_usage c"

definition dump_to_ini :: "group_info \<Rightarrow> string" where
  "dump_to_ini t =
     ''[default]'' @ [CHR 0x0A] @ concat (map (\<lambda>(n, v). n @ ''='' @ show_int v @ [CHR 0x0A]) (dump_usage t))"

text \<open>The priorities of the leaves, in the order they are stored in the cache.\<close>

fun dump_to_cache :: "group_info \<Rightarrow> (string \<times> rat) list" where
  "dump_to_cache Null = []"
| "dump_to_cache (Group g c s) =
     (if c = Null then [(g_name g, g_percentage g / of_int (g_usage g))] else []) @ dump_to_cache s @ dump_to_cache c"

fun decay_tree :: "group_info \<Rightarrow> group_info" where
  "decay_tree Null = Null"
| "decay_tree (Group g c s) =
     (let u = (if g_usage g \<ge> 0 then g_usage g div 2 else - (- g_usage g div 2))
      in Group (g\<lparr>g_usage := (if u = 0 then 1 else u)\<rparr>) (decay_tree c) (decay_tree s))"

definition new_fairshare_tree :: "int \<Rightarrow> string list \<Rightarrow> (string \<times> int) list \<Rightarrow> tree_error + group_info" where
  "new_fairshare_tree unknown_shares config usage =
     (case read_configuration config (init_fairshare_root unknown_shares) of
        Inl e \<Rightarrow> Inl e
      | Inr t \<Rightarrow>
          (case t of
             Null \<Rightarrow> Inr Null
           | Group g c s \<Rightarrow>
               Inr (read_usage usage (Group g (calc_fair_share_perc (g_percentage g) RESC_UNSPECIFIED c) s))))"

section \<open>Finding groups\<close>

fun all_groups :: "group_info \<Rightarrow> group_data list" where
  "all_groups Null = []"
| "all_groups (Group g c s) = g # all_groups s @ all_groups c"

definition keeps_name :: "(group_data \<Rightarrow> group_data) \<Rightarrow> bool" where
  "keeps_name f \<longleftrightarrow> (\<forall>g. g_name (f g) = g_name g)"

lemma find_ginfo_name: "find_ginfo name t = Some g \<Longrightarrow> g_name g = name"
  by (induction t) (auto simp: or_else_def split: if_splits option.splits)

lemma find_ginfo_in: "find_ginfo name t = Some g \<Longrightarrow> g \<in> set (all_groups t)"
proof (induction t)
  case (Group d c s)
  then show ?case by (cases "name = g_name d"; cases "find_ginfo name s") simp_all
qed simp

lemma find_upd_ginfo:
  "keeps_name f \<Longrightarrow> find_ginfo name' (upd_ginfo name f t) =
     (if name' = name then map_option f (find_ginfo name t) else find_ginfo name' t)"
  unfolding upd_ginfo_def
  by (induction t) (auto simp: keeps_name_def or_else_def split: option.splits)

interpretation groups: keyed_store "\<lambda>t name. find_ginfo name t" upd_ginfo keeps_name
  by unfold_locales (rule find_upd_ginfo)

text \<open>What a group is apart from its place in the tree: an insertion recomputes percentages.\<close>

definition group_core :: "group_data \<Rightarrow> string \<times> int \<times> int \<times> int \<times> int" where
  "group_core g = (g_name g, g_cresgroup g, g_shares g, g_usage g, g_temp_usage g)"

definition find_core :: "string \<Rightarrow> group_info \<Rightarrow> (string \<times> int \<times> int \<times> int \<times> int) option" where
  "find_core name t = map_option group_core (find_ginfo name t)"

lemma find_core_simps [simp]:
  "find_core name Null = None"
  "find_core name (Group g c s) =
     (if name = g_name g then Some (group_core g) else or_else (find_core name s) (find_core name c))"
  by (simp_all add: find_core_def map_option_or_else)

lemma find_core_None: "find_core name t = None \<longleftrightarrow> find_ginfo name t = None"
  by (simp add: find_core_def)

lemma find_core_calc [simp]: "find_core name (calc_fair_share_perc p sh t) = find_core name t"
  by (induction t arbitrary: p sh) (simp_all add: Let_def group_core_def)

lemma find_core_grow:
  assumes "\<And>g c. fst (f (g, c)) = g"
    and "\<And>g c. find_core name' (snd (f (g, c))) = (if name' = new then Some d else find_core name' c)"
    and "find_core name t \<noteq> None" and "find_core new t = None"
  shows "find_core name' (upd_node_at name f t) = (if name' = new then Some d else find_core name' t)"
  using assms(3,4)
proof (induction t)
  case (Group g c s)
  then show ?case
    using assms(1,2) by (cases "find_core name s") (auto simp: find_core_None[symmetric] or_else_def split: option.splits)
qed simp

lemma find_core_add_child:
  "find_core name (snd (add_child d (g, c))) = (if name = g_name d then Some (group_core d) else find_core name c)"
  by (simp add: add_child_def group_core_def)

lemma find_core_add_unknown:
  assumes "find_core ''unknown'' t \<noteq> None" and "find_core (g_name d) t = None"
  shows "find_core name (add_unknown d t) = (if name = g_name d then Some (group_core d) else find_core name t)"
  unfolding add_unknown_def
proof (rule find_core_grow[OF _ _ assms])
  fix g c
  show "fst (let (g, c) = add_child d (g, c) in (g, calc_fair_share_perc (g_percentage g) RESC_UNSPECIFIED c)) = g"
    by (simp add: add_child_def)
  show "find_core name (snd (let (g, c) = add_child d (g, c)
      in (g, calc_fair_share_perc (g_percentage g) RESC_UNSPECIFIED c))) =
    (if name = g_name d then Some (group_core d) else find_core name c)"
    using find_core_add_child[of name d g c] by (auto simp: Let_def split: prod.splits)
qed

text \<open>After \<open>find_alloc_ginfo\<close> the group exists; a group that existed keeps its data.\<close>

lemma find_alloc_spec:
  assumes "find_core ''unknown'' t \<noteq> None"
  shows "find_core name' (find_alloc_ginfo name t) =
     (if name' = name \<and> find_core name t = None then Some (name, RESC_UNSPECIFIED, 1, 1, 1) else find_core name' t)"
proof (cases "find_ginfo name t")
  case None
  then show ?thesis
    using find_core_add_unknown[OF assms, of "(new_group_info name)\<lparr>g_shares := 1\<rparr>" name']
    by (simp add: find_alloc_ginfo_def find_core_def new_group_info_def group_core_def)
next
  case (Some g)
  then show ?thesis by (simp add: find_alloc_ginfo_def find_core_def)
qed

text \<open>The group \<open>unknown\<close>, which new groups are put under, never disappears.\<close>

lemma find_core_present_grow:
  assumes "\<And>g c. fst (f (g, c)) = g" and "\<And>g c. find_core u c \<noteq> None \<Longrightarrow> find_core u (snd (f (g, c))) \<noteq> None"
  shows "find_core u t \<noteq> None \<Longrightarrow> find_core u (upd_node_at name f t) \<noteq> None"
proof (induction t)
  case (Group g c s)
  then show ?case using assms by (simp del: not_None_eq split: if_splits) blast
qed simp

lemma config_line_unknown:
  assumes "config_line l t = Inr t'" and "find_core ''unknown'' t \<noteq> None"
  shows "find_core ''unknown'' t' \<noteq> None"
proof -
  have alloc: "find_core ''unknown'' (find_alloc_ginfo name t) \<noteq> None" for name
    using assms(2) by (simp add: find_alloc_spec)
  have "find_core ''unknown'' (upd_node_at name (add_child d) (find_alloc_ginfo name t)) \<noteq> None" for name d
    by (rule find_core_present_grow[OF _ _ alloc]) (simp_all add: add_child_def del: not_None_eq)
  then show ?thesis
    using assms by (auto simp: config_line_def Let_def split: if_splits list.splits prod.splits)
qed

lemma read_configuration_unknown:
  "read_configuration ls t = Inr t' \<Longrightarrow> find_core ''unknown'' t \<noteq> None \<Longrightarrow> find_core ''unknown'' t' \<noteq> None"
proof (induction ls arbitrary: t)
  case (Cons l ls)
  then obtain t1 where "config_line l t = Inr t1" "read_configuration ls t1 = Inr t'"
    by (auto split: sum.splits)
  then show ?case using Cons.IH config_line_unknown Cons.prems(2) by blast
qed simp

section \<open>Percentages\<close>

text \<open>The percentages of one chain of siblings, and those of the leaves below a chain.\<close>

fun chain_sum :: "group_info \<Rightarrow> rat" where
  "chain_sum Null = 0"
| "chain_sum (Group g c s) = g_percentage g + chain_sum s"

fun leaf_sum :: "group_info \<Rightarrow> rat" where
  "leaf_sum Null = 0"
| "leaf_sum (Group g c s) = (if c = Null then g_percentage g else leaf_sum c) + leaf_sum s"

definition shares_positive :: "group_info \<Rightarrow> bool" where
  "shares_positive t \<longleftrightarrow> (\<forall>g \<in> set (all_groups t). 0 < g_shares g)"

lemma shares_positive_simps [simp]:
  "shares_positive Null"
  "shares_positive (Group g c s) \<longleftrightarrow> 0 < g_shares g \<and> shares_positive c \<and> shares_positive s"
  by (auto simp: shares_positive_def)

lemma count_shares_nonneg: "shares_positive t \<Longrightarrow> 0 \<le> count_shares t"
  by (induction t) auto

lemma calc_Null_iff [simp]: "calc_fair_share_perc p sh t = Null \<longleftrightarrow> t = Null"
  by (cases t) (simp_all add: Let_def)

lemma shares_add: "of_int a / of_int k * p + of_int b / of_int k * p = of_int (a + b) / of_int k * (p :: rat)"
  by (simp add: add_divide_distrib distrib_right)

lemma chain_sum_calc:
  "0 < sh \<Longrightarrow> chain_sum (calc_fair_share_perc p sh t) = of_int (count_shares t) / of_int sh * p"
  by (induction t) (simp_all only: chain_sum.simps calc_fair_share_perc.simps count_shares.simps Let_def,
      simp_all add: add_divide_distrib distrib_right)

lemma chain_sum_calc_top:
  assumes "shares_positive (Group g c s)"
  shows "chain_sum (calc_fair_share_perc p RESC_UNSPECIFIED (Group g c s)) = p"
proof -
  have "0 < g_shares g + count_shares s" using assms count_shares_nonneg[of s] by simp
  then show ?thesis
    using shares_add[of "g_shares g" "g_shares g + count_shares s" p "count_shares s"]
    by (simp add: Let_def chain_sum_calc)
qed

lemma leaf_sum_calc:
  "shares_positive t \<Longrightarrow>
     (0 < sh \<longrightarrow> leaf_sum (calc_fair_share_perc p sh t) = of_int (count_shares t) / of_int sh * p) \<and>
     (t \<noteq> Null \<longrightarrow> leaf_sum (calc_fair_share_perc p RESC_UNSPECIFIED t) = p)"
proof (induction t arbitrary: p sh)
  case (Group g c s)
  have pos: "0 < g_shares g + count_shares s" "g_shares g + count_shares s \<noteq> RESC_UNSPECIFIED"
    using Group.prems count_shares_nonneg[of s] by auto
  have top: "leaf_sum (Group (g\<lparr>g_percentage := q\<rparr>) (calc_fair_share_perc q RESC_UNSPECIFIED c) s') = q + leaf_sum s'"
    for q s' using Group by (cases "c = Null") simp_all
  have s: "leaf_sum (calc_fair_share_perc p k s) = of_int (count_shares s) / of_int k * p" if "0 < k" for k
    using Group that by simp
  have sum: "of_int (g_shares g) / of_int k * p + leaf_sum (calc_fair_share_perc p k s) =
      of_int (g_shares g + count_shares s) / of_int k * p" if "0 < k" for k
    by (simp only: s[OF that] shares_add)
  have "leaf_sum (calc_fair_share_perc p sh (Group g c s)) =
      of_int (count_shares (Group g c s)) / of_int sh * p" if "0 < sh" for sh
    using that sum[OF that] by (simp only: calc_fair_share_perc.simps Let_def top count_shares.simps) simp
  moreover have "leaf_sum (calc_fair_share_perc p RESC_UNSPECIFIED (Group g c s)) = p"
    using sum[OF pos(1)] pos by (simp only: calc_fair_share_perc.simps Let_def top count_shares.simps) simp
  ultimately show ?case by simp
qed simp

section \<open>Usage\<close>

definition halved :: "group_data \<Rightarrow> group_data" where
  "halved g = g\<lparr>g_usage := (if g_usage g div 2 = 0 then 1 else g_usage g div 2)\<rparr>"

lemma find_decay:
  "\<forall>g \<in> set (all_groups t). 0 \<le> g_usage g \<Longrightarrow> find_ginfo name (decay_tree t) = map_option halved (find_ginfo name t)"
  by (induction t) (auto simp: Let_def halved_def map_option_or_else)

lemma decay_positive:
  "\<forall>g \<in> set (all_groups t). 0 \<le> g_usage g \<Longrightarrow> \<forall>g \<in> set (all_groups (decay_tree t)). 1 \<le> g_usage g"
  by (induction t) (auto simp: Let_def)

text \<open>Dumping the usage and reading it into a tree of the same groups with default usage.\<close>

fun reset_usage :: "group_info \<Rightarrow> group_info" where
  "reset_usage Null = Null"
| "reset_usage (Group g c s) = Group (g\<lparr>g_usage := 1, g_temp_usage := 1\<rparr>) (reset_usage c) (reset_usage s)"

lemma find_reset: "find_ginfo name (reset_usage t) = map_option (set_usage 1) (find_ginfo name t)"
  by (induction t) (auto simp: set_usage_def map_option_or_else)

lemma find_ginfo_mem:
  "distinct (map g_name (all_groups t)) \<Longrightarrow> g \<in> set (all_groups t) \<Longrightarrow> find_ginfo (g_name g) t = Some g"
proof (induction t)
  case (Group d c s)
  have none: "g_name h \<notin> g_name ` set (all_groups u) \<Longrightarrow> find_ginfo (g_name h) u = None" for h u
    by (induction u) auto
  consider "g = d" | "g \<in> set (all_groups s)" | "g \<in> set (all_groups c)" using Group.prems(2) by auto
  then show ?case
  proof cases
    case 1
    then show ?thesis by simp
  next
    case 2
    then have "g_name g \<noteq> g_name d" using Group.prems(1) by (auto simp: image_iff)
    then show ?thesis using Group.IH(2) Group.prems(1) 2 by simp
  next
    case 3
    then have "g_name g \<notin> g_name ` set (all_groups s)" "g_name g \<noteq> g_name d"
      using Group.prems(1) by (auto simp: disjoint_iff image_iff)
    then show ?thesis using Group.IH(1) Group.prems(1) 3 none[of g s] by simp
  qed
qed simp

lemma dump_usage_groups:
  "dump_usage t = map (\<lambda>g. (g_name g, g_usage g)) (filter (\<lambda>g. g_usage g \<noteq> 1) (all_groups t))"
  by (induction t) auto

text \<open>Reading the usage of groups that exist changes nothing but the usage.\<close>

lemma keeps_set_usage: "keeps_name (set_usage v)"
  by (simp add: keeps_name_def set_usage_def)

lemma read_usage_write_all:
  "\<forall>(n, v) \<in> set us. find_ginfo n t \<noteq> None \<Longrightarrow> read_usage us t = groups.write_all set_usage us t"
proof (induction us arbitrary: t)
  case (Cons e us)
  obtain n v where e: "e = (n, v)" by (cases e)
  have "find_alloc_ginfo n t = t" using Cons.prems by (auto simp: e find_alloc_ginfo_def)
  moreover have "find_ginfo m (upd_ginfo n (set_usage v) t) \<noteq> None" if "find_ginfo m t \<noteq> None" for m
    using that by (auto simp: find_upd_ginfo[OF keeps_set_usage])
  then have "\<forall>(m, u) \<in> set us. find_ginfo m (upd_ginfo n (set_usage v) t) \<noteq> None"
    using Cons.prems by (auto simp: e)
  from Cons.IH[OF this] have "read_usage us (upd_ginfo n (set_usage v) t) =
      groups.write_all set_usage us (upd_ginfo n (set_usage v) t)" .
  ultimately show ?case by (simp add: e groups.write_all_def)
qed (simp add: groups.write_all_def)

lemma dump_read_usage:
  assumes "distinct (map g_name (all_groups t))"
  shows "find_ginfo name (read_usage (dump_usage t) (reset_usage t)) =
     map_option (\<lambda>g. set_usage (g_usage g) g) (find_ginfo name t)"
proof -
  let ?us = "dump_usage t"
  have keys: "distinct (map fst ?us)"
    using assms by (simp add: dump_usage_groups comp_def distinct_map inj_on_def)
  have found: "find_ginfo n t = Some g \<longleftrightarrow> g \<in> set (all_groups t) \<and> g_name g = n" for n g
    using find_ginfo_mem[OF assms] find_ginfo_in find_ginfo_name by metis
  have "\<forall>(n, v) \<in> set ?us. find_ginfo n (reset_usage t) \<noteq> None"
    using find_ginfo_mem[OF assms] by (auto simp: dump_usage_groups find_reset)
  then have "find_ginfo name (read_usage ?us (reset_usage t)) =
      (case map_of ?us name of None \<Rightarrow> find_ginfo name (reset_usage t)
       | Some v \<Rightarrow> map_option (set_usage v) (find_ginfo name (reset_usage t)))"
    using groups.write_all_lookup[OF keeps_set_usage keys] by (simp add: read_usage_write_all)
  moreover have "map_of ?us name = (if g_usage g = 1 then None else Some (g_usage g))"
    if "find_ginfo name t = Some g" for g
  proof (cases "g_usage g = 1")
    case True
    have "x \<in> set (all_groups t) \<Longrightarrow> g_name x = name \<Longrightarrow> x = g" for x
      using find_ginfo_mem[OF assms, of x] that by simp
    then have "(name, v) \<notin> set ?us" for v using True by (auto simp: dump_usage_groups)
    then show ?thesis using True by (auto simp: map_of_eq_None_iff)
  next
    case False
    then have "(name, g_usage g) \<in> set ?us" using that found by (force simp: dump_usage_groups)
    then show ?thesis using False keys by simp
  qed
  ultimately show ?thesis
    by (cases "find_ginfo name t") (auto simp: find_reset set_usage_def split: option.splits)
qed

end
