(* ===== verification/Fairshare.thy ===== *)
theory Fairshare
  imports FairshareTree
begin

text \<open>
  Choosing the next job by fairshare: \<open>src/fairshare.cpp\<close>.  \<open>job_ginfo\<close> is what the scheduler attaches to a
  job: its queue's priority and the fairshare group of its owner.
\<close>

record fs_job =
  fj_job :: job_info
  fj_queue_priority :: int
  fj_percentage :: rat
  fj_temp_usage :: int

definition fs_value :: "'a fs_job_scheme \<Rightarrow> rat" where
  "fs_value j = fj_percentage j / of_int (fj_temp_usage j)"

definition calculate_usage_value :: "resource_req list \<Rightarrow> int" where
  "calculate_usage_value resreq =
     (case find_resource_req resreq ''walltime'' of None \<Rightarrow> 0 | Some r \<Rightarrow> rq_amount r)"

text \<open>\<open>None\<close> when the job has no \<open>procs\<close> request, which the source does not check.\<close>

definition update_usage_on_run :: "job_info \<Rightarrow> group_data \<Rightarrow> group_data option" where
  "update_usage_on_run job g =
     (case find_resource_req (ji_resreq job) ''procs'' of
        None \<Rightarrow> None
      | Some tmp \<Rightarrow>
          Some (g\<lparr>g_temp_usage := g_temp_usage g + calculate_usage_value (ji_resreq job) * rq_amount tmp\<rparr>))"

definition decay_fairshare_trees :: "group_info smap \<Rightarrow> group_info smap" where
  "decay_fairshare_trees trees = map (\<lambda>(n, t). (n, decay_tree t)) trees"

text \<open>\<open>get_tree\<close>: the tree is built on first use; building it may throw.\<close>

definition get_tree :: "(string \<Rightarrow> tree_error + group_info) \<Rightarrow> string \<Rightarrow> group_info smap \<Rightarrow>
    tree_error + (group_info \<times> group_info smap)" where
  "get_tree build name trees =
     (case smap_find trees name of
        Some t \<Rightarrow> Inr (t, trees)
      | None \<Rightarrow> (case build name of Inl e \<Rightarrow> Inl e | Inr t \<Rightarrow> Inr (t, smap_insert name t trees)))"

section \<open>Selection\<close>

definition runnable :: "'a fs_job_scheme \<Rightarrow> bool" where
  "runnable j \<longleftrightarrow> \<not> ji_can_not_run (fj_job j) \<and> ji_state (fj_job j) \<noteq> JobRunning"

text \<open>The loop of \<open>extract_fairshare\<close> over a vector of jobs: the best job, its value and queue priority.\<close>

fun extract_loop :: "bool \<Rightarrow> 'a fs_job_scheme list \<Rightarrow> 'a fs_job_scheme option \<Rightarrow> rat \<Rightarrow> int \<Rightarrow> 'a fs_job_scheme option" where
  "extract_loop prio [] best max_value max_priority = best"
| "extract_loop prio (j # js) best max_value max_priority =
     (if \<not> runnable j then extract_loop prio js best max_value max_priority
      else if prio \<and> fj_queue_priority j < max_priority then extract_loop prio js best max_value max_priority
      else
        (let mv = (if prio \<and> fj_queue_priority j > max_priority then - 1 else max_value);
             mp = (if prio then fj_queue_priority j else max_priority);
             cur_value = fs_value j
         in if mv < cur_value then extract_loop prio js (Some j) cur_value mp
            else extract_loop prio js best mv mp))"

definition extract_fairshare :: "bool \<Rightarrow> 'a fs_job_scheme list \<Rightarrow> 'a fs_job_scheme option" where
  "extract_fairshare priority_fairshare jobs = extract_loop priority_fairshare jobs None (- 1) (- 1)"

text \<open>The variant over the queues of the job owners; only the first runnable job of an owner counts.\<close>

fun extract_users :: "'a fs_job_scheme list list \<Rightarrow> 'a fs_job_scheme option \<Rightarrow> rat \<Rightarrow> int \<Rightarrow> 'a fs_job_scheme option" where
  "extract_users [] best max_value max_priority = best"
| "extract_users (u # us) best max_value max_priority =
     (case dropWhile (\<lambda>j. \<not> runnable j) u of
        [] \<Rightarrow> extract_users us best max_value max_priority
      | j # _ \<Rightarrow>
          (if fj_queue_priority j < max_priority then extract_users us best max_value max_priority
           else
             (let mv = (if fj_queue_priority j > max_priority then - 1 else max_value);
                  mp = (if fj_queue_priority j > max_priority then fj_queue_priority j else max_priority);
                  cur_value = fs_value j
              in if mv < cur_value then extract_users us (Some j) cur_value mp
                 else extract_users us best mv mp)))"

definition extract_fairshare_server :: "'a fs_job_scheme list list \<Rightarrow> 'a fs_job_scheme option" where
  "extract_fairshare_server jobs_by_owner = extract_users jobs_by_owner None (- 1) (- 1)"

section \<open>The order of the plan\<close>

definition compare_fairshare :: "'a fs_job_scheme \<Rightarrow> 'a fs_job_scheme \<Rightarrow> bool" where
  "compare_fairshare i j =
     (let si = ji_state (fj_job i); sj = ji_state (fj_job j);
          ids = (atoi (ji_job_id (fj_job i)) < atoi (ji_job_id (fj_job j)))
      in if si = JobRunning \<and> sj \<noteq> JobRunning then True
         else if si \<noteq> JobRunning \<and> sj = JobRunning then False
         else if si = JobRunning \<and> sj = JobRunning then ids
         else if si = JobQueued \<and> sj \<noteq> JobQueued then True
         else if si \<noteq> JobQueued \<and> sj = JobQueued then False
         else if si \<noteq> JobQueued \<and> sj \<noteq> JobQueued then ids
         else if fs_value i > fs_value j then True
         else if fs_value i = fs_value j then ids
         else False)"

definition plan_key :: "'a fs_job_scheme \<Rightarrow> int \<times> rat \<times> int" where
  "plan_key j =
     (let s = ji_state (fj_job j)
      in (if s = JobRunning then 0 else if s = JobQueued then 1 else 2,
          if s = JobQueued then - fs_value j else 0, atoi (ji_job_id (fj_job j))))"

interpretation plan_order: keyed_order compare_fairshare plan_key
  by unfold_locales (auto simp: compare_fairshare_def plan_key_def Let_def)

section \<open>The selected job is the best one\<close>

definition fs_ok :: "'a fs_job_scheme \<Rightarrow> bool" where
  "fs_ok j \<longleftrightarrow> 0 \<le> fj_percentage j \<and> 0 < fj_temp_usage j"

lemma fs_value_nonneg: "fs_ok j \<Longrightarrow> 0 \<le> fs_value j"
  by (simp add: fs_ok_def fs_value_def)

text \<open>By queue priority first, when that is configured, then by fairshare value.\<close>

definition fs_rank :: "bool \<Rightarrow> 'a fs_job_scheme \<Rightarrow> int \<times> rat" where
  "fs_rank prio j = (if prio then fj_queue_priority j else - 1, fs_value j)"

lemma fs_rank_le:
  "fs_rank prio i \<le> fs_rank prio j \<longleftrightarrow>
     (if prio then fj_queue_priority i < fj_queue_priority j \<or>
        fj_queue_priority i = fj_queue_priority j \<and> fs_value i \<le> fs_value j
      else fs_value i \<le> fs_value j)"
  by (auto simp: fs_rank_def)

definition loop_state :: "bool \<Rightarrow> 'a fs_job_scheme option \<Rightarrow> rat \<Rightarrow> int \<Rightarrow> bool" where
  "loop_state prio best mv mp \<longleftrightarrow>
     (best = None \<longrightarrow> mv = - 1) \<and> (\<forall>x. best = Some x \<longrightarrow> fs_rank prio x = (mp, mv)) \<and> (\<not> prio \<longrightarrow> mp = - 1)"

definition loop_result :: "bool \<Rightarrow> 'a fs_job_scheme list \<Rightarrow> 'a fs_job_scheme option \<Rightarrow> int \<times> rat \<Rightarrow> 'a fs_job_scheme option \<Rightarrow> bool" where
  "loop_result prio js best m r \<longleftrightarrow>
     (case r of
        None \<Rightarrow> best = None \<and> (\<forall>j \<in> set js. runnable j \<longrightarrow> fs_rank prio j < m)
      | Some b \<Rightarrow> (best = Some b \<or> b \<in> set js \<and> runnable b) \<and> m \<le> fs_rank prio b \<and>
          (\<forall>j \<in> set js. runnable j \<longrightarrow> fs_rank prio j \<le> fs_rank prio b))"

lemma loop_result_skip:
  "loop_result prio js best m r \<Longrightarrow> \<not> runnable j \<or> fs_rank prio j < m \<or> best \<noteq> None \<and> fs_rank prio j \<le> m \<Longrightarrow>
     loop_result prio (j # js) best m r"
  by (auto simp: loop_result_def split: option.splits)

lemma loop_result_take:
  "loop_result prio js (Some j) (fs_rank prio j) r \<Longrightarrow> runnable j \<Longrightarrow> m < fs_rank prio j \<Longrightarrow>
     loop_result prio (j # js) best m r"
  by (auto simp: loop_result_def split: option.splits)

lemma extract_loop_best:
  assumes "\<forall>j \<in> set js. fs_ok j" and "loop_state prio best mv mp"
  shows "loop_result prio js best (mp, mv) (extract_loop prio js best mv mp)"
  using assms
proof (induction js arbitrary: best mv mp)
  case Nil
  then show ?case by (cases best) (auto simp: loop_result_def loop_state_def)
next
  case (Cons j js)
  have ok: "0 \<le> fs_value j" "\<forall>j \<in> set js. fs_ok j" using Cons.prems(1) fs_value_nonneg by auto
  note st = Cons.prems(2)[unfolded loop_state_def]
  consider (skip) "\<not> runnable j" | (low) "runnable j" "prio" "fj_queue_priority j < mp"
    | (better) "runnable j" "(mp, mv) < fs_rank prio j" | (worse) "runnable j" "(mp, mv) \<ge> fs_rank prio j"
      "\<not> (prio \<and> fj_queue_priority j < mp)" by fastforce
  then show ?case
  proof cases
    case skip
    then show ?thesis using loop_result_skip[OF Cons.IH[OF ok(2) Cons.prems(2)]] by simp
  next
    case low
    then show ?thesis using loop_result_skip[OF Cons.IH[OF ok(2) Cons.prems(2)]] by (simp add: fs_rank_def)
  next
    case better
    have rank: "fs_rank prio j = (fst (fs_rank prio j), fs_value j)" by (simp add: fs_rank_def)
    have eq: "extract_loop prio (j # js) best mv mp =
        extract_loop prio js (Some j) (fs_value j) (fst (fs_rank prio j))"
      using better ok(1) st by (auto simp: fs_rank_def Let_def split: if_splits)
    have "loop_state prio (Some j) (fs_value j) (fst (fs_rank prio j))"
      by (auto simp: loop_state_def fs_rank_def)
    from Cons.IH[OF ok(2) this] show ?thesis
      using loop_result_take better unfolding eq rank[symmetric] by blast
  next
    case worse
    then have "best \<noteq> None" using st ok(1) by (auto simp: fs_rank_def split: if_splits)
    moreover have eq: "extract_loop prio (j # js) best mv mp = extract_loop prio js best mv mp"
      using worse ok(1) st by (auto simp: fs_rank_def Let_def split: if_splits)
    ultimately show ?thesis using loop_result_skip[OF Cons.IH[OF ok(2) Cons.prems(2)]] worse(2) unfolding eq by blast
  qed
qed

lemma extract_fairshare_best:
  assumes "\<forall>j \<in> set js. fs_ok j"
  shows "case extract_fairshare prio js of
       None \<Rightarrow> \<forall>j \<in> set js. runnable j \<longrightarrow> prio \<and> fj_queue_priority j < - 1
     | Some b \<Rightarrow> b \<in> set js \<and> runnable b \<and> (\<forall>j \<in> set js. runnable j \<longrightarrow> fs_rank prio j \<le> fs_rank prio b)"
proof -
  have "loop_result prio js None (- 1, - 1) (extract_loop prio js None (- 1) (- 1))"
    using assms by (rule extract_loop_best) (simp add: loop_state_def)
  moreover have "j \<in> set js \<Longrightarrow> fs_rank prio j < (- 1, - 1) \<Longrightarrow> prio \<and> fj_queue_priority j < - 1" for j
    using assms fs_value_nonneg[of j] by (auto simp: fs_rank_def split: if_splits)
  ultimately show ?thesis
    unfolding extract_fairshare_def loop_result_def by (auto split: option.splits)
qed

end
