(* ===== verification/PlanList.thy ===== *)
theory PlanList
  imports Ordering
begin

text \<open>
  The doubly linked lists of the plan: \<open>src/plan_list_operations.cpp\<close>.  Items live in a heap; an item holds
  its successor, its predecessor and the fields the positioning of jobs reads.  A pointer is a
  \<open>nat option\<close>, and the setters do nothing on a null pointer, as in the source.  \<open>list_rel\<close> relates a list
  header and the heap to the sequence of items it stands for; every operation is shown to refine an
  operation on sequences, and the locale \<open>sequence\<close> states the interface the planner uses.
\<close>

section \<open>Data\<close>

datatype listtype = Gaps | Jobs | Limits

record plan_item =
  pi_successor :: "nat option"
  pi_predeccessor :: "nat option"
  pi_start_time :: int
  pi_job_id :: int

record plan_heap =
  ph_item :: "nat \<Rightarrow> plan_item"
  ph_next :: nat

record plan_list =
  pl_type :: listtype
  pl_num_items :: int
  pl_first :: "nat option"
  pl_last :: "nat option"
  pl_current :: "nat option"

text \<open>Allocation of an item: \<open>job_create\<close> and \<open>gap_create\<close> set both links to null.\<close>

definition new_item :: plan_item where
  "new_item = \<lparr>pi_successor = None, pi_predeccessor = None, pi_start_time = 0, pi_job_id = 0\<rparr>"

definition alloc_item :: "plan_heap \<Rightarrow> plan_heap \<times> nat" where
  "alloc_item h = (h\<lparr>ph_item := (ph_item h)(ph_next h := new_item), ph_next := ph_next h + 1\<rparr>, ph_next h)"

definition list_create :: "listtype \<Rightarrow> plan_list" where
  "list_create type = \<lparr>pl_type = type, pl_num_items = 0, pl_first = None, pl_last = None, pl_current = None\<rparr>"

definition get_successor :: "plan_heap \<Rightarrow> nat option \<Rightarrow> nat option" where
  "get_successor h item = (case item of None \<Rightarrow> None | Some a \<Rightarrow> pi_successor (ph_item h a))"

definition get_predeccessor :: "plan_heap \<Rightarrow> nat option \<Rightarrow> nat option" where
  "get_predeccessor h item = (case item of None \<Rightarrow> None | Some a \<Rightarrow> pi_predeccessor (ph_item h a))"

definition set_successor :: "nat option \<Rightarrow> nat option \<Rightarrow> plan_heap \<Rightarrow> plan_heap" where
  "set_successor item s h =
     (case item of None \<Rightarrow> h
      | Some a \<Rightarrow> h\<lparr>ph_item := (ph_item h)(a := (ph_item h a)\<lparr>pi_successor := s\<rparr>)\<rparr>)"

definition set_predeccessor :: "nat option \<Rightarrow> nat option \<Rightarrow> plan_heap \<Rightarrow> plan_heap" where
  "set_predeccessor item p h =
     (case item of None \<Rightarrow> h
      | Some a \<Rightarrow> h\<lparr>ph_item := (ph_item h)(a := (ph_item h a)\<lparr>pi_predeccessor := p\<rparr>)\<rparr>)"

section \<open>Operations\<close>

definition list_append :: "plan_list \<Rightarrow> plan_list \<Rightarrow> plan_heap \<Rightarrow> (plan_list \<times> plan_heap) option" where
  "list_append l m h =
     (if pl_type l \<noteq> pl_type m then None
      else
        (let (l1, h1) =
               (if pl_num_items l > 0 \<and> pl_num_items m > 0 then
                  (l\<lparr>pl_last := pl_last m, pl_num_items := pl_num_items l + pl_num_items m\<rparr>,
                   set_predeccessor (pl_first m) (pl_last l) (set_successor (pl_last l) (pl_first m) h))
                else (l, h));
             l2 = (if pl_num_items l1 = 0 then
                     l1\<lparr>pl_first := pl_first m, pl_last := pl_last m, pl_num_items := pl_num_items l1 + pl_num_items m\<rparr>
                   else l1)
         in Some (l2, h1)))"

definition list_get_first :: "plan_list \<Rightarrow> plan_list \<times> nat option" where
  "list_get_first l = (l\<lparr>pl_current := pl_first l\<rparr>, pl_first l)"

definition list_get_last :: "plan_list \<Rightarrow> plan_list \<times> nat option" where
  "list_get_last l = (l\<lparr>pl_current := pl_last l\<rparr>, pl_last l)"

definition list_get_next :: "plan_heap \<Rightarrow> plan_list \<Rightarrow> plan_list \<times> nat option" where
  "list_get_next h l =
     (let c = (if pl_current l = None then pl_first l else get_successor h (pl_current l))
      in (l\<lparr>pl_current := c\<rparr>, c))"

definition list_get_previous :: "plan_heap \<Rightarrow> plan_list \<Rightarrow> plan_list \<times> nat option" where
  "list_get_previous h l =
     (let c = (if pl_current l = None then pl_last l else get_predeccessor h (pl_current l))
      in (l\<lparr>pl_current := c\<rparr>, c))"

text \<open>A null new item is allocated, for lists of jobs and of gaps.\<close>

definition item_or_new :: "plan_list \<Rightarrow> nat option \<Rightarrow> plan_heap \<Rightarrow> plan_heap \<times> nat option" where
  "item_or_new l item h =
     (if item = None \<and> (pl_type l = Jobs \<or> pl_type l = Gaps)
      then (let (h', a) = alloc_item h in (h', Some a)) else (h, item))"

definition insert_infrontof :: "plan_list \<Rightarrow> nat option \<Rightarrow> nat option \<Rightarrow> plan_heap \<Rightarrow> plan_list \<times> plan_heap \<times> nat option" where
  "insert_infrontof l nxt item h0 =
     (let (h, new) = item_or_new l item h0;
          pre = get_predeccessor h nxt;
          (l1, h1) = (if pre \<noteq> None then (l, set_successor pre new h) else (l\<lparr>pl_first := new\<rparr>, h));
          h2 = set_predeccessor nxt new (set_predeccessor new pre (set_successor new nxt h1))
      in (l1\<lparr>pl_num_items := pl_num_items l1 + 1, pl_current := new\<rparr>, h2, new))"

definition insert_inbackof :: "plan_list \<Rightarrow> nat option \<Rightarrow> nat option \<Rightarrow> plan_heap \<Rightarrow> plan_list \<times> plan_heap \<times> nat option" where
  "insert_inbackof l prv item h0 =
     (let (h, new) = item_or_new l item h0;
          suc = get_successor h prv;
          (l1, h1) = (if suc \<noteq> None then (l, set_predeccessor suc new h) else (l\<lparr>pl_last := new\<rparr>, h));
          h2 = set_successor prv new (set_predeccessor new prv (set_successor new suc h1))
      in (l1\<lparr>pl_num_items := pl_num_items l1 + 1, pl_current := new\<rparr>, h2, new))"

definition insert_only :: "plan_list \<Rightarrow> nat option \<Rightarrow> plan_list" where
  "insert_only l new = l\<lparr>pl_num_items := pl_num_items l + 1, pl_first := new, pl_last := new, pl_current := new\<rparr>"

definition list_add_begin :: "plan_list \<Rightarrow> nat option \<Rightarrow> plan_heap \<Rightarrow> plan_list \<times> plan_heap \<times> nat option" where
  "list_add_begin l item h0 =
     (let (h, new) = item_or_new l item h0
      in if pl_num_items l = 0 then (insert_only l new, h, new)
         else insert_infrontof l (pl_first l) new h)"

definition list_add_end :: "plan_list \<Rightarrow> nat option \<Rightarrow> plan_heap \<Rightarrow> plan_list \<times> plan_heap \<times> nat option" where
  "list_add_end l item h0 =
     (let (h, new) = item_or_new l item h0
      in if pl_num_items l = 0 then (insert_only l new, h, new)
         else insert_inbackof l (pl_last l) new h)"

definition list_add_infrontof :: "plan_list \<Rightarrow> nat option \<Rightarrow> nat option \<Rightarrow> plan_heap \<Rightarrow> plan_list \<times> plan_heap \<times> nat option" where
  "list_add_infrontof l nxt item h =
     (if nxt = None then list_add_begin l item h else insert_infrontof l nxt item h)"

definition list_add_inbackof :: "plan_list \<Rightarrow> nat option \<Rightarrow> nat option \<Rightarrow> plan_heap \<Rightarrow> plan_list \<times> plan_heap \<times> nat option" where
  "list_add_inbackof l prv item h =
     (if prv = None then list_add_end l item h else insert_inbackof l prv item h)"

definition list_get_item :: "plan_heap \<Rightarrow> plan_list \<Rightarrow> int \<Rightarrow> plan_list \<times> nat option" where
  "list_get_item h l position =
     (if pl_num_items l \<le> position \<or> position < 0 then (l, None)
      else
        (let c = (if pl_num_items l div 2 < position
                  then (get_predeccessor h ^^ nat (pl_num_items l - position - 1)) (pl_last l)
                  else (get_successor h ^^ nat position) (pl_first l))
         in (l\<lparr>pl_current := c\<rparr>, c)))"

text \<open>\<open>list_remove_item\<close>; a freed item keeps its links here, nobody may follow them.  \<open>None\<close>: return code 1.\<close>

definition list_remove_item :: "plan_list \<Rightarrow> nat option \<Rightarrow> bool \<Rightarrow> plan_heap \<Rightarrow> (plan_list \<times> plan_heap) option" where
  "list_remove_item l item set_free h =
     (if item = None then None
      else
        (let pre = get_predeccessor h item;
             suc = get_successor h item;
             (l1, h1) = (if pre \<noteq> None then (l, set_successor pre suc h)
                         else (l\<lparr>pl_first := suc\<rparr>, set_predeccessor suc None h));
             (l2, h2) = (if suc \<noteq> None then (l1, set_predeccessor suc pre h1)
                         else (l1\<lparr>pl_last := pre\<rparr>, set_successor pre None h1));
             l3 = l2\<lparr>pl_num_items := pl_num_items l2 - 1, pl_current := None\<rparr>
         in Some (l3, if set_free then h2 else set_predeccessor item None (set_successor item None h2))))"

definition list_remove :: "plan_list \<Rightarrow> int \<Rightarrow> bool \<Rightarrow> plan_heap \<Rightarrow> (plan_list \<times> plan_heap) option" where
  "list_remove l position set_free h =
     (let (l1, item) = list_get_item h l position in list_remove_item l1 item set_free h)"

definition list_move_item :: "plan_list \<Rightarrow> nat option \<Rightarrow> nat option \<Rightarrow> plan_heap \<Rightarrow> (plan_list \<times> plan_heap) option" where
  "list_move_item l item pre h =
     (case list_remove_item l item False h of
        None \<Rightarrow> None
      | Some (l1, h1) \<Rightarrow>
          (if pre \<noteq> None then (let (l2, h2, _) = list_add_inbackof l1 pre item h1 in Some (l2, h2))
           else (let (l2, f) = list_get_first l1; (l3, h3, _) = list_add_infrontof l2 f item h1 in Some (l3, h3))))"

text \<open>
  \<open>list_swap_item\<close>.  \<open>list_move_item\<close> returns 0 on success, so in \<open>move && move\<close> the second move is never
  made; the result here is the return code with the new state.
\<close>

definition move_code :: "(plan_list \<times> plan_heap) option \<Rightarrow> plan_list \<Rightarrow> plan_heap \<Rightarrow> int \<times> plan_list \<times> plan_heap" where
  "move_code r l h = (case r of None \<Rightarrow> (1, l, h) | Some (l', h') \<Rightarrow> (0, l', h'))"

definition list_swap_item :: "plan_list \<Rightarrow> nat option \<Rightarrow> nat option \<Rightarrow> plan_heap \<Rightarrow> int \<times> plan_list \<times> plan_heap" where
  "list_swap_item l one two h =
     (if one = two \<or> one = None \<or> two = None then (1, l, h)
      else if get_predeccessor h one \<noteq> None then
        (let (c, l1, h1) = move_code (list_move_item l one two h) l h
         in if c \<noteq> 0 then move_code (list_move_item l1 two (get_predeccessor h one) h1) l1 h1 else (0, l1, h1))
      else if get_predeccessor h two \<noteq> None then
        (let (c, l1, h1) = move_code (list_move_item l two one h) l h
         in if c \<noteq> 0 then move_code (list_move_item l1 one (get_predeccessor h two) h1) l1 h1 else (0, l1, h1))
      else (0, l, h))"

definition list_repleace_item :: "plan_list \<Rightarrow> nat option \<Rightarrow> nat option \<Rightarrow> bool \<Rightarrow> plan_heap \<Rightarrow> (plan_list \<times> plan_heap) option" where
  "list_repleace_item l old new set_free h =
     (if old = new \<or> old = None \<or> new = None then None
      else if get_successor h new \<noteq> None \<or> get_predeccessor h new \<noteq> None then None
      else
        (let h1 = set_predeccessor new (get_predeccessor h old) (set_successor new (get_successor h old) h);
             (l2, h2) = (if get_successor h1 new \<noteq> None then (l, set_predeccessor (get_successor h1 new) new h1)
                         else (l\<lparr>pl_last := new\<rparr>, h1));
             (l3, h3) = (if get_predeccessor h2 new \<noteq> None then (l2, set_successor (get_predeccessor h2 new) new h2)
                         else (l2\<lparr>pl_first := new\<rparr>, h2))
         in Some (l3, if set_free then h3 else set_predeccessor old None (set_successor old None h3))))"

text \<open>
  \<open>list_adjust_job_position\<close>.  The two walks are bounded by the number of items; \<open>None\<close> is a walk that has not
  ended by then, which a well-formed list excludes.
\<close>

definition job_after :: "plan_heap \<Rightarrow> nat \<Rightarrow> nat \<Rightarrow> bool" where
  "job_after h a b \<longleftrightarrow>
     pi_start_time (ph_item h a) > pi_start_time (ph_item h b) \<or>
     pi_start_time (ph_item h a) = pi_start_time (ph_item h b) \<and> pi_job_id (ph_item h a) > pi_job_id (ph_item h b)"

fun walk :: "(nat option \<Rightarrow> nat option) \<Rightarrow> (nat \<Rightarrow> bool) \<Rightarrow> nat \<Rightarrow> nat option \<Rightarrow> nat option option" where
  "walk step P fuel None = Some None"
| "walk step P 0 (Some a) = (if P a then None else Some (Some a))"
| "walk step P (Suc fuel) (Some a) = (if P a then walk step P fuel (step (Some a)) else Some (Some a))"

definition list_adjust_job_position :: "plan_list \<Rightarrow> nat \<Rightarrow> plan_heap \<Rightarrow> (plan_list \<times> plan_heap) option" where
  "list_adjust_job_position l job h =
     (let fuel = nat (pl_num_items l);
          pre = get_predeccessor h (Some job); suc = get_successor h (Some job)
      in case (walk (get_predeccessor h) (\<lambda>a. job_after h a job) fuel pre,
               walk (get_successor h) (\<lambda>a. job_after h job a) fuel suc) of
           (Some new_pre, Some new_suc) \<Rightarrow>
             (let p = (if new_suc \<noteq> suc then
                         (if new_suc = None then pl_last l else get_predeccessor h new_suc)
                       else new_pre)
              in if p \<noteq> pre then list_move_item l (Some job) p h else Some (l, h))
         | _ \<Rightarrow> None)"

section \<open>Segments\<close>

lemma links_set [simp]:
  "pi_successor (ph_item (set_successor i s h) a) = (if i = Some a then s else pi_successor (ph_item h a))"
  "pi_predeccessor (ph_item (set_successor i s h) a) = pi_predeccessor (ph_item h a)"
  "pi_predeccessor (ph_item (set_predeccessor i s h) a) = (if i = Some a then s else pi_predeccessor (ph_item h a))"
  "pi_successor (ph_item (set_predeccessor i s h) a) = pi_successor (ph_item h a)"
  "ph_next (set_successor i s h) = ph_next h" "ph_next (set_predeccessor i s h) = ph_next h"
  by (auto simp: set_successor_def set_predeccessor_def split: option.splits)

lemma data_set [simp]:
  "pi_start_time (ph_item (set_successor i s h) a) = pi_start_time (ph_item h a)"
  "pi_start_time (ph_item (set_predeccessor i s h) a) = pi_start_time (ph_item h a)"
  "pi_job_id (ph_item (set_successor i s h) a) = pi_job_id (ph_item h a)"
  "pi_job_id (ph_item (set_predeccessor i s h) a) = pi_job_id (ph_item h a)"
  by (auto simp: set_successor_def set_predeccessor_def split: option.splits)

lemma set_null [simp]: "set_successor None s h = h" "set_predeccessor None s h = h"
  by (simp_all add: set_successor_def set_predeccessor_def)

lemma set_twice [simp]:
  "set_successor i s (set_successor i t h) = set_successor i s h"
  "set_predeccessor i s (set_predeccessor i t h) = set_predeccessor i s h"
  by (auto simp: set_successor_def set_predeccessor_def split: option.splits)

lemma get_Some [simp]:
  "get_successor h (Some a) = pi_successor (ph_item h a)" "get_predeccessor h (Some a) = pi_predeccessor (ph_item h a)"
  by (simp_all add: get_successor_def get_predeccessor_def)

definition first_or :: "nat list \<Rightarrow> nat option \<Rightarrow> nat option" where
  "first_or xs q = (if xs = [] then q else Some (hd xs))"

definition last_or :: "nat option \<Rightarrow> nat list \<Rightarrow> nat option" where
  "last_or p xs = (if xs = [] then p else Some (last xs))"

lemma first_or_simps [simp]: "first_or [] q = q" "first_or (x # xs) q = Some x"
  by (simp_all add: first_or_def)

lemma last_or_simps [simp]: "last_or p [] = p" "last_or p (xs @ [x]) = Some x" "last_or p (x # xs) = last_or (Some x) xs"
  by (simp_all add: last_or_def)

lemma first_or_append: "first_or (xs @ ys) q = first_or xs (first_or ys q)"
  by (simp add: first_or_def)

lemma last_or_append: "last_or p (xs @ ys) = last_or (last_or p xs) ys"
  by (simp add: last_or_def)

text \<open>A chain of items between two neighbours.\<close>

fun seg :: "plan_heap \<Rightarrow> nat option \<Rightarrow> nat list \<Rightarrow> nat option \<Rightarrow> bool" where
  "seg h p [] q = True"
| "seg h p (x # xs) q \<longleftrightarrow>
     pi_predeccessor (ph_item h x) = p \<and> pi_successor (ph_item h x) = first_or xs q \<and> seg h (Some x) xs q"

lemma seg_append: "seg h p (xs @ ys) q \<longleftrightarrow> seg h p xs (first_or ys q) \<and> seg h (last_or p xs) ys q"
  by (induction xs arbitrary: p) (auto simp: first_or_append)

lemma seg_cong:
  "(\<And>x. x \<in> set xs \<Longrightarrow> pi_predeccessor (ph_item h' x) = pi_predeccessor (ph_item h x) \<and>
      pi_successor (ph_item h' x) = pi_successor (ph_item h x)) \<Longrightarrow> seg h' p xs q = seg h p xs q"
  by (induction xs arbitrary: p) auto

lemma seg_outside:
  "\<forall>x. i = Some x \<longrightarrow> x \<notin> set xs \<Longrightarrow> seg (set_successor i v h) p xs q = seg h p xs q"
  "\<forall>x. i = Some x \<longrightarrow> x \<notin> set xs \<Longrightarrow> seg (set_predeccessor i v h) p xs q = seg h p xs q"
  by (induction xs arbitrary: p) auto

lemma seg_outside_Some [simp]:
  "a \<notin> set xs \<Longrightarrow> seg (set_successor (Some a) v h) p xs q = seg h p xs q"
  "a \<notin> set xs \<Longrightarrow> seg (set_predeccessor (Some a) v h) p xs q = seg h p xs q"
  by (simp_all add: seg_outside)

lemma seg_set_first:
  "distinct xs \<Longrightarrow> seg h p xs q \<Longrightarrow> seg (set_predeccessor (first_or xs None) p' h) p' xs q"
  by (cases xs) auto

lemma seg_set_last:
  "distinct xs \<Longrightarrow> seg h p xs q \<Longrightarrow> seg (set_successor (last_or None xs) q' h) p xs q'"
proof (induction xs arbitrary: p rule: rev_induct)
  case (snoc x xs)
  then show ?case by (auto simp: seg_append)
qed simp

lemma first_or_Some: "first_or xs None = Some a \<Longrightarrow> a \<in> set xs"
  by (auto simp: first_or_def split: if_splits)

lemma last_or_Some: "last_or None xs = Some a \<Longrightarrow> a \<in> set xs"
  by (auto simp: last_or_def split: if_splits)

definition list_rel :: "plan_heap \<Rightarrow> plan_list \<Rightarrow> nat list \<Rightarrow> bool" where
  "list_rel h l xs \<longleftrightarrow>
     distinct xs \<and> seg h None xs None \<and> pl_first l = first_or xs None \<and> pl_last l = last_or None xs \<and>
     pl_num_items l = int (length xs) \<and> (\<forall>x \<in> set xs. x < ph_next h)"

lemma list_rel_create: "list_rel h (list_create t) []"
  by (simp add: list_rel_def list_create_def)

lemma seg_split:
  assumes "seg h None (as @ y # bs) None"
  shows "pi_predeccessor (ph_item h y) = last_or None as" "pi_successor (ph_item h y) = first_or bs None"
    "seg h None as (Some y)" "seg h (Some y) bs None"
  using assms by (auto simp: seg_append)

text \<open>Linking a new item in front of and behind an item.\<close>

lemma link_before:
  assumes "distinct (as @ x # y # bs)" and "seg h None (as @ y # bs) None"
  shows "seg (set_predeccessor (Some y) (Some x) (set_predeccessor (Some x) (last_or None as)
      (set_successor (Some x) (Some y) (set_successor (last_or None as) (Some x) h))))
    None (as @ x # y # bs) None"
proof -
  note sp = seg_split[OF assms(2)]
  have as: "seg (set_successor (last_or None as) (Some x) h) None as (Some x)"
    using seg_set_last[OF _ sp(3)] assms(1) by auto
  have l: "last_or None as = Some a \<Longrightarrow> a \<in> set as" for a by (rule last_or_Some)
  have "seg (set_successor (last_or None as) (Some x) h) (Some y) bs None"
    using sp(4) assms(1) l by (subst seg_outside) auto
  then show ?thesis
    using as sp assms(1) l by (auto simp: seg_append)
qed

lemma link_behind:
  assumes "distinct (as @ y # x # bs)" and "seg h None (as @ y # bs) None"
  shows "seg (set_successor (Some y) (Some x) (set_predeccessor (Some x) (Some y)
      (set_successor (Some x) (first_or bs None) (set_predeccessor (first_or bs None) (Some x) h))))
    None (as @ y # x # bs) None"
proof -
  note sp = seg_split[OF assms(2)]
  have bs: "seg (set_predeccessor (first_or bs None) (Some x) h) (Some x) bs None"
    using seg_set_first[OF _ sp(4)] assms(1) by auto
  have l: "first_or bs None = Some a \<Longrightarrow> a \<in> set bs" for a by (rule first_or_Some)
  have "seg (set_predeccessor (first_or bs None) (Some x) h) None as (Some y)"
    using sp(3) assms(1) l by (subst seg_outside) auto
  then show ?thesis
    using bs sp assms(1) l by (auto simp: seg_append)
qed

text \<open>Unlinking an item.\<close>

lemma unlink:
  assumes "distinct (as @ y # bs)" and "seg h None (as @ y # bs) None"
  shows "seg (set_predeccessor (first_or bs None) (last_or None as) (set_successor (last_or None as) (first_or bs None) h))
    None (as @ bs) None"
proof -
  note sp = seg_split[OF assms(2)]
  have l: "last_or None as = Some a \<Longrightarrow> a \<in> set as" for a by (rule last_or_Some)
  have f: "first_or bs None = Some a \<Longrightarrow> a \<in> set bs" for a by (rule first_or_Some)
  have "seg (set_successor (last_or None as) (first_or bs None) h) None as (first_or bs None)"
    using seg_set_last[OF _ sp(3)] assms(1) by auto
  moreover have "seg (set_successor (last_or None as) (first_or bs None) h) (Some y) bs None"
    using sp(4) assms(1) l by (subst seg_outside) auto
  moreover have "\<forall>a. first_or bs None = Some a \<longrightarrow> a \<notin> set as" using f assms(1) by auto
  ultimately show ?thesis
    using assms(1) seg_set_first by (auto simp: seg_append seg_outside)
qed

section \<open>Operations on sequences\<close>

lemma item_or_new_Some [simp]: "item_or_new l (Some x) h = (h, Some x)"
  by (simp add: item_or_new_def)

lemma insert_infrontof_rel:
  assumes "list_rel h l (as @ y # bs)" and "x \<notin> set (as @ y # bs)" and "x < ph_next h"
    and "insert_infrontof l (Some y) (Some x) h = (l', h', r)"
  shows "list_rel h' l' (as @ x # y # bs) \<and> r = Some x"
proof -
  have d: "distinct (as @ x # y # bs)" and sg: "seg h None (as @ y # bs) None"
    using assms(1,2) by (auto simp: list_rel_def)
  note pre = seg_split(1)[OF sg]
  have h': "h' = set_predeccessor (Some y) (Some x) (set_predeccessor (Some x) (last_or None as)
      (set_successor (Some x) (Some y) (set_successor (last_or None as) (Some x) h)))"
    and l': "l' = (if as = [] then l\<lparr>pl_first := Some x\<rparr> else l)\<lparr>pl_num_items := pl_num_items l + 1, pl_current := Some x\<rparr>"
    and r: "r = Some x"
    using assms(4) by (auto simp: insert_infrontof_def pre Let_def last_or_def split: if_splits)
  show ?thesis
    using link_before[OF d sg] d assms(1,3) r
    by (auto simp: list_rel_def h' l' first_or_append last_or_append) (auto simp: first_or_def)
qed

lemma insert_inbackof_rel:
  assumes "list_rel h l (as @ y # bs)" and "x \<notin> set (as @ y # bs)" and "x < ph_next h"
    and "insert_inbackof l (Some y) (Some x) h = (l', h', r)"
  shows "list_rel h' l' (as @ y # x # bs) \<and> r = Some x"
proof -
  have d: "distinct (as @ y # x # bs)" and sg: "seg h None (as @ y # bs) None"
    using assms(1,2) by (auto simp: list_rel_def)
  note suc = seg_split(2)[OF sg]
  have h': "h' = set_successor (Some y) (Some x) (set_predeccessor (Some x) (Some y)
      (set_successor (Some x) (first_or bs None) (set_predeccessor (first_or bs None) (Some x) h)))"
    and l': "l' = (if bs = [] then l\<lparr>pl_last := Some x\<rparr> else l)\<lparr>pl_num_items := pl_num_items l + 1, pl_current := Some x\<rparr>"
    and r: "r = Some x"
    using assms(4) by (auto simp: insert_inbackof_def suc Let_def first_or_def split: if_splits)
  show ?thesis
    using link_behind[OF d sg] d assms(1,3) r
    by (auto simp: list_rel_def h' l' first_or_append last_or_append) (auto simp: last_or_def)
qed

lemma insert_only_rel:
  assumes "list_rel h l []" and "x < ph_next h" and "pi_successor (ph_item h x) = None" "pi_predeccessor (ph_item h x) = None"
  shows "list_rel h (insert_only l (Some x)) [x]"
  using assms by (simp add: list_rel_def insert_only_def)

text \<open>An item that is in no list.\<close>

definition loose :: "plan_heap \<Rightarrow> nat \<Rightarrow> bool" where
  "loose h x \<longleftrightarrow> x < ph_next h \<and> pi_successor (ph_item h x) = None \<and> pi_predeccessor (ph_item h x) = None"

lemma list_add_end_rel:
  assumes "list_rel h l xs" and "x \<notin> set xs" and "loose h x" and "list_add_end l (Some x) h = (l', h', r)"
  shows "list_rel h' l' (xs @ [x]) \<and> r = Some x"
proof (cases xs rule: rev_cases)
  case Nil
  then show ?thesis
    using assms insert_only_rel[of h l x] by (auto simp: list_add_end_def list_rel_def loose_def)
next
  case (snoc ys y)
  have "insert_inbackof l (Some y) (Some x) h = (l', h', r)"
    using assms(1,4) snoc by (simp add: list_add_end_def list_rel_def last_or_append)
  then show ?thesis
    using insert_inbackof_rel[of h l ys y "[]" x l' h' r] assms snoc by (simp add: loose_def)
qed

lemma list_add_begin_rel:
  assumes "list_rel h l xs" and "x \<notin> set xs" and "loose h x" and "list_add_begin l (Some x) h = (l', h', r)"
  shows "list_rel h' l' (x # xs) \<and> r = Some x"
proof (cases xs)
  case Nil
  then show ?thesis
    using assms insert_only_rel[of h l x] by (auto simp: list_add_begin_def list_rel_def loose_def)
next
  case (Cons y ys)
  have "insert_infrontof l (Some y) (Some x) h = (l', h', r)"
    using assms(1,4) Cons by (simp add: list_add_begin_def list_rel_def)
  then show ?thesis
    using insert_infrontof_rel[of h l "[]" y ys x l' h' r] assms Cons by (simp add: loose_def)
qed

lemma list_remove_item_rel:
  assumes "list_rel h l (as @ y # bs)"
  shows "\<exists>l' h'. list_remove_item l (Some y) set_free h = Some (l', h') \<and> list_rel h' l' (as @ bs) \<and>
     (\<not> set_free \<longrightarrow> loose h' y) \<and>
     (\<forall>x. pi_start_time (ph_item h' x) = pi_start_time (ph_item h x) \<and> pi_job_id (ph_item h' x) = pi_job_id (ph_item h x)) \<and>
     ph_next h' = ph_next h"
proof -
  have d: "distinct (as @ y # bs)" and sg: "seg h None (as @ y # bs) None"
    using assms by (auto simp: list_rel_def)
  note links = seg_split(1,2)[OF sg]
  define h2 where "h2 = set_predeccessor (first_or bs None) (last_or None as)
      (set_successor (last_or None as) (first_or bs None) h)"
  define h3 where "h3 = (if set_free then h2 else set_predeccessor (Some y) None (set_successor (Some y) None h2))"
  define l3 where "l3 = (if bs = [] then \<lambda>l. l\<lparr>pl_last := last_or None as\<rparr> else id)
      ((if as = [] then l\<lparr>pl_first := first_or bs None\<rparr> else l))\<lparr>pl_num_items := pl_num_items l - 1, pl_current := None\<rparr>"
  have rm: "list_remove_item l (Some y) set_free h = Some (l3, h3)"
    by (simp add: list_remove_item_def links h3_def h2_def l3_def Let_def last_or_def first_or_def split: if_splits)
  have "seg h2 None (as @ bs) None" unfolding h2_def by (rule unlink[OF d sg])
  then have "seg h3 None (as @ bs) None" using d by (simp add: h3_def)
  then have "list_rel h3 l3 (as @ bs)"
    using assms
    by (auto simp: list_rel_def l3_def h3_def h2_def first_or_append last_or_append)
      (auto simp: first_or_def last_or_def)
  moreover have "\<not> set_free \<longrightarrow> loose h3 y" using assms by (simp add: h3_def h2_def loose_def list_rel_def)
  ultimately show ?thesis using rm by (simp add: h3_def h2_def)
qed

lemma insert_inbackof_data:
  assumes "insert_inbackof l (Some y) (Some x) h = (l', h', r)"
  shows "pi_start_time (ph_item h' a) = pi_start_time (ph_item h a) \<and> pi_job_id (ph_item h' a) = pi_job_id (ph_item h a)"
  using assms by (auto simp: insert_inbackof_def Let_def split: if_splits)

lemma insert_infrontof_data:
  assumes "insert_infrontof l (Some y) (Some x) h = (l', h', r)"
  shows "pi_start_time (ph_item h' a) = pi_start_time (ph_item h a) \<and> pi_job_id (ph_item h' a) = pi_job_id (ph_item h a)"
  using assms by (auto simp: insert_infrontof_def Let_def split: if_splits)

definition same_data :: "plan_heap \<Rightarrow> plan_heap \<Rightarrow> bool" where
  "same_data h h' \<longleftrightarrow> (\<forall>a. pi_start_time (ph_item h' a) = pi_start_time (ph_item h a) \<and>
     pi_job_id (ph_item h' a) = pi_job_id (ph_item h a))"

text \<open>Moving an item behind another item of the list, or to the front.\<close>

lemma list_move_item_behind:
  assumes "list_rel h l (as @ y # bs)" and "as @ bs = cs @ p # ds"
  shows "\<exists>l' h'. list_move_item l (Some y) (Some p) h = Some (l', h') \<and> list_rel h' l' (cs @ p # y # ds) \<and> same_data h h'"
proof -
  obtain l1 h1 where rm: "list_remove_item l (Some y) False h = Some (l1, h1)" "list_rel h1 l1 (as @ bs)" "loose h1 y"
      "same_data h h1"
    using list_remove_item_rel[OF assms(1), of False] by (auto simp: same_data_def)
  obtain l2 h2 r where ins: "insert_inbackof l1 (Some p) (Some y) h1 = (l2, h2, r)" by (metis surj_pair)
  have "y \<notin> set (cs @ p # ds)" using assms by (metis list_rel_def distinct_append not_distinct_conv_prefix
      distinct.simps(2) Un_iff set_append disjoint_iff list.set_intros(1))
  then have "list_rel h2 l2 (cs @ p # y # ds)"
    using insert_inbackof_rel[of h1 l1 cs p ds y l2 h2 r] rm ins assms(2) by (simp add: loose_def)
  moreover have "same_data h1 h2" using insert_inbackof_data[OF ins] by (simp add: same_data_def)
  ultimately show ?thesis
    using rm ins by (auto simp: list_move_item_def list_add_inbackof_def same_data_def)
qed

lemma list_move_item_front:
  assumes "list_rel h l (as @ y # bs)"
  shows "\<exists>l' h'. list_move_item l (Some y) None h = Some (l', h') \<and> list_rel h' l' (y # as @ bs) \<and> same_data h h'"
proof -
  obtain l1 h1 where rm: "list_remove_item l (Some y) False h = Some (l1, h1)" "list_rel h1 l1 (as @ bs)" "loose h1 y"
      "same_data h h1"
    using list_remove_item_rel[OF assms(1), of False] by (auto simp: same_data_def)
  let ?l = "l1\<lparr>pl_current := pl_first l1\<rparr>"
  have rel: "list_rel h1 ?l (as @ bs)" using rm(2) by (simp add: list_rel_def)
  obtain l2 h2 r where ins: "list_add_infrontof ?l (pl_first l1) (Some y) h1 = (l2, h2, r)" by (metis surj_pair)
  have y: "y \<notin> set (as @ bs)" using assms by (auto simp: list_rel_def)
  have "list_rel h2 l2 (y # as @ bs) \<and> same_data h1 h2"
  proof (cases "as @ bs")
    case Nil
    then have "list_add_begin ?l (Some y) h1 = (l2, h2, r)"
      using ins rm(2) by (simp add: list_add_infrontof_def list_rel_def)
    then show ?thesis
      using list_add_begin_rel[OF rel y rm(3)] Nil rel
      by (auto simp: list_add_begin_def list_rel_def same_data_def split: if_splits)
  next
    case (Cons z zs)
    then have i: "insert_infrontof ?l (Some z) (Some y) h1 = (l2, h2, r)"
      using ins rm(2) by (auto simp: list_add_infrontof_def list_rel_def)
    then show ?thesis
      using insert_infrontof_rel[of h1 ?l "[]" z zs y l2 h2 r] rel rm(3) y Cons insert_infrontof_data[OF i]
      by (simp add: loose_def same_data_def)
  qed
  then show ?thesis
    using rm ins by (auto simp: list_move_item_def list_get_first_def same_data_def)
qed

text \<open>Walking along the links.\<close>

lemma get_null [simp]: "get_successor h None = None" "get_predeccessor h None = None"
  by (simp_all add: get_successor_def get_predeccessor_def)

lemma succ_walk: "seg h p (x # xs) None \<Longrightarrow> i < length (x # xs) \<Longrightarrow> (get_successor h ^^ i) (Some x) = Some ((x # xs) ! i)"
proof (induction i arbitrary: p x xs)
  case (Suc i)
  then obtain y ys where xs: "xs = y # ys" by (cases xs) auto
  have "(get_successor h ^^ i) (get_successor h (Some x)) = Some ((y # ys) ! i)"
    using Suc.IH[of "Some x" y ys] Suc.prems xs by simp
  then show ?case by (simp add: xs funpow_swap1)
qed simp

lemma pred_walk:
  "seg h None (xs @ [x]) q \<Longrightarrow> i < length (xs @ [x]) \<Longrightarrow>
     (get_predeccessor h ^^ i) (Some x) = Some ((xs @ [x]) ! (length xs - i))"
proof (induction i arbitrary: x xs q)
  case (Suc i)
  then obtain ys y where xs: "xs = ys @ [y]" by (cases xs rule: rev_cases) auto
  have sg: "seg h None (ys @ [y]) (Some x)" "pi_predeccessor (ph_item h x) = Some y"
    using Suc.prems(1) by (auto simp: seg_append xs)
  have "(get_predeccessor h ^^ i) (get_predeccessor h (Some x)) = Some ((ys @ [y]) ! (length ys - i))"
    using Suc.IH[OF sg(1)] Suc.prems sg(2) xs by simp
  moreover have "(ys @ [y]) ! (length ys - i) = (xs @ [x]) ! (length xs - Suc i)"
    using Suc.prems(2) by (simp add: xs nth_append)
  ultimately show ?case by (simp add: funpow_swap1)
qed (simp add: nth_append)

lemma list_get_item_rel:
  assumes "list_rel h l xs" and "0 \<le> i" and "i < int (length xs)"
  shows "snd (list_get_item h l i) = Some (xs ! nat i) \<and> list_rel h (fst (list_get_item h l i)) xs"
proof -
  obtain x ys where xs: "xs = x # ys" using assms by (cases xs) auto
  obtain zs z where zs: "xs = zs @ [z]" using assms by (cases xs rule: rev_cases) auto
  have ends: "pl_first l = first_or xs None" "pl_last l = last_or None xs" using assms(1) by (simp_all add: list_rel_def)
  have sg: "seg h None xs None" "pl_first l = Some x" "pl_last l = Some z" "pl_num_items l = int (length xs)"
    using assms(1) ends(1)[unfolded xs] ends(2)[unfolded zs] by (simp_all add: list_rel_def)
  have fwd: "(get_successor h ^^ nat i) (Some x) = Some (xs ! nat i)"
    using succ_walk[of h None x ys "nat i"] sg assms xs by simp
  have "(get_predeccessor h ^^ nat (int (length xs) - i - 1)) (Some z) = Some (xs ! (length zs - nat (int (length xs) - i - 1)))"
    using pred_walk[of h zs z None "nat (int (length xs) - i - 1)"] sg(1) assms zs by simp
  moreover have "length zs - nat (int (length xs) - i - 1) = nat i" using assms(2,3) zs by simp
  ultimately show ?thesis
    using fwd sg assms by (auto simp: list_get_item_def Let_def list_rel_def)
qed

section \<open>Keeping jobs in order\<close>

definition job_key :: "plan_heap \<Rightarrow> nat \<Rightarrow> int \<times> int" where
  "job_key h a = (pi_start_time (ph_item h a), pi_job_id (ph_item h a))"

interpretation job_order: keyed_order "\<lambda>a b. job_after h b a" "job_key h" for h
  by unfold_locales (auto simp: job_after_def job_key_def)

definition jobs_sorted :: "plan_heap \<Rightarrow> nat list \<Rightarrow> bool" where
  "jobs_sorted h xs \<longleftrightarrow> sorted (map (job_key h) xs)"

lemma walk_successors:
  "seg h p xs None \<Longrightarrow> length xs \<le> fuel \<Longrightarrow>
     walk (get_successor h) P fuel (first_or xs None) = Some (first_or (dropWhile P xs) None)"
proof (induction xs arbitrary: p fuel)
  case (Cons x xs)
  then show ?case by (cases fuel) auto
qed simp

lemma walk_predeccessors:
  "seg h None xs q \<Longrightarrow> length xs \<le> fuel \<Longrightarrow>
     walk (get_predeccessor h) P fuel (last_or None xs) = Some (last_or None (rev (dropWhile P (rev xs))))"
proof (induction xs arbitrary: q fuel rule: rev_induct)
  case (snoc x xs)
  have sg: "seg h None xs (Some x)" "pi_predeccessor (ph_item h x) = last_or None xs"
    using snoc.prems(1) by (auto simp: seg_append)
  obtain f where "fuel = Suc f" "length xs \<le> f" using snoc.prems(2) by (cases fuel) auto
  then show ?case using snoc.IH[OF sg(1)] sg(2) by simp
qed simp

text \<open>Where the new position is, for a list that is sorted but for the job.\<close>

lemma dropWhile_split:
  obtains ys where "xs = ys @ dropWhile P xs" "\<forall>y \<in> set ys. P y"
  by (metis takeWhile_dropWhile_id set_takeWhileD)

lemma not_job_after: "\<not> job_after h a b \<longleftrightarrow> job_key h a \<le> job_key h b"
  using job_order.lt_key[where h = h and x = b and y = a] not_less by blast

lemma dropWhile_head: "dropWhile P xs = z # zs \<Longrightarrow> \<not> P z"
  by (simp add: dropWhile_eq_Cons_conv)

lemma sorted_tail_not:
  assumes "jobs_sorted h xs"
  shows "\<forall>y \<in> set (dropWhile (\<lambda>a. job_after h j a) xs). job_key h j \<le> job_key h y"
proof (cases "dropWhile (\<lambda>a. job_after h j a) xs")
  case (Cons z zs)
  have "jobs_sorted h (z # zs)"
    using assms by (metis Cons jobs_sorted_def map_append sorted_append takeWhile_dropWhile_id)
  then have "\<forall>y \<in> set zs. job_key h z \<le> job_key h y" by (simp add: jobs_sorted_def)
  moreover have "job_key h j \<le> job_key h z" using dropWhile_head[OF Cons] by (simp only: not_job_after)
  ultimately show ?thesis unfolding Cons by (auto intro: order_trans)
next
  case Nil
  then show ?thesis by (simp only: list.set rev.simps ball_empty)
qed

lemma sorted_init_not:
  assumes "jobs_sorted h xs"
  shows "\<forall>y \<in> set (rev (dropWhile (\<lambda>a. job_after h a j) (rev xs))). job_key h y \<le> job_key h j"
proof (cases "dropWhile (\<lambda>a. job_after h a j) (rev xs)")
  case (Cons z zs)
  have "xs = rev (z # zs) @ rev (takeWhile (\<lambda>a. job_after h a j) (rev xs))"
    by (metis Cons rev_append rev_rev_ident takeWhile_dropWhile_id)
  then have "jobs_sorted h (rev (z # zs))"
    using assms by (metis jobs_sorted_def map_append sorted_append)
  then have "\<forall>y \<in> set zs. job_key h y \<le> job_key h z" by (auto simp: jobs_sorted_def sorted_append)
  moreover have "job_key h z \<le> job_key h j" using dropWhile_head[OF Cons] by (simp only: not_job_after)
  ultimately show ?thesis unfolding Cons by (auto intro: order_trans)
next
  case Nil
  then show ?thesis by (simp only: list.set rev.simps ball_empty)
qed

lemma jobs_sorted_insert:
  assumes "jobs_sorted h (xs @ ys)" and "\<forall>x \<in> set xs. job_key h x \<le> job_key h j" and "\<forall>y \<in> set ys. job_key h j \<le> job_key h y"
  shows "jobs_sorted h (xs @ j # ys)"
  using assms by (auto simp: jobs_sorted_def sorted_append)

lemma jobs_sorted_data: "same_data h h' \<Longrightarrow> jobs_sorted h' xs = jobs_sorted h xs"
  by (simp add: jobs_sorted_def job_key_def[abs_def] same_data_def)

lemma same_prefix:
  assumes "distinct (xs @ ys)" and "xs @ ys = us @ vs" and "last_or None xs = last_or None us"
  shows "xs = us \<and> ys = vs"
proof (cases xs rule: rev_cases)
  case Nil
  then show ?thesis using assms by (auto simp: last_or_def split: if_splits)
next
  case (snoc xs' x)
  then obtain us' where "us = us' @ [x]" using assms(3) by (cases us rule: rev_cases) auto
  then show ?thesis using assms(1,2) snoc append_Cons_eq_iff[of x xs' ys us' vs] by simp
qed

text \<open>The item behind which the job belongs, moved there.\<close>

lemma list_move_to:
  assumes "list_rel h l (as @ j # bs)" and "as @ bs = cs @ ds"
  shows "\<exists>l' h'. list_move_item l (Some j) (last_or None cs) h = Some (l', h') \<and> list_rel h' l' (cs @ j # ds) \<and> same_data h h'"
proof (cases cs rule: rev_cases)
  case Nil
  then show ?thesis using list_move_item_front[OF assms(1)] assms(2) by simp
next
  case (snoc es p)
  then show ?thesis using list_move_item_behind[OF assms(1), of es p ds] assms(2) by simp
qed

lemma adjust_target:
  assumes rel: "list_rel h l (as @ j # bs)"
    and "as = as1 @ as2" "as1 = rev (dropWhile (\<lambda>a. job_after h a j) (rev as))"
    and "bs = bs1 @ bs2" "bs2 = dropWhile (\<lambda>a. job_after h j a) bs"
  shows "list_adjust_job_position l j h =
     (let cs = (if bs1 \<noteq> [] then as @ bs1 else as1)
      in if last_or None cs \<noteq> last_or None as then list_move_item l (Some j) (last_or None cs) h else Some (l, h))"
proof -
  have sg: "seg h None (as @ j # bs) None" and d: "distinct (as @ j # bs)"
    and len: "length as \<le> nat (pl_num_items l)" "length bs \<le> nat (pl_num_items l)"
    using rel by (auto simp: list_rel_def)
  note sp = seg_split[OF sg]
  have wp: "walk (get_predeccessor h) (\<lambda>a. job_after h a j) (nat (pl_num_items l)) (last_or None as) = Some (last_or None as1)"
    using walk_predeccessors[OF sp(3) len(1)] assms(3) by simp
  have ws: "walk (get_successor h) (\<lambda>a. job_after h j a) (nat (pl_num_items l)) (first_or bs None) = Some (first_or bs2 None)"
    using walk_successors[OF sp(4) len(2)] assms(5) by metis
  have suc: "first_or bs2 None \<noteq> first_or bs None \<longleftrightarrow> bs1 \<noteq> []"
    using d assms(4) by (cases bs1) (auto simp: first_or_def)
  have tgt: "(if first_or bs2 None = None then pl_last l else get_predeccessor h (first_or bs2 None)) = last_or None (as @ bs1)"
    if "bs1 \<noteq> []"
  proof (cases bs2)
    case Nil
    then show ?thesis using rel assms(4) that by (simp add: list_rel_def last_or_def)
  next
    case (Cons z zs)
    then have "pi_predeccessor (ph_item h z) = last_or (Some j) bs1"
      using sp(4) assms(4) by (simp add: seg_append)
    then show ?thesis using Cons that by (simp add: last_or_def)
  qed
  show ?thesis
    unfolding list_adjust_job_position_def Let_def get_Some sp(1,2) wp ws
    using suc tgt by auto
qed

lemma list_adjust_sorted:
  assumes rel: "list_rel h l (as @ j # bs)" and sorted: "jobs_sorted h (as @ bs)"
  shows "\<exists>l' h' ys. list_adjust_job_position l j h = Some (l', h') \<and> list_rel h' l' ys \<and> same_data h h' \<and>
     jobs_sorted h' ys \<and> mset ys = mset (as @ j # bs)"
proof -
  define as1 where "as1 = rev (dropWhile (\<lambda>a. job_after h a j) (rev as))"
  define as2 where "as2 = rev (takeWhile (\<lambda>a. job_after h a j) (rev as))"
  define bs1 where "bs1 = takeWhile (\<lambda>a. job_after h j a) bs"
  define bs2 where "bs2 = dropWhile (\<lambda>a. job_after h j a) bs"
  have as: "as = as1 @ as2" unfolding as1_def as2_def by (metis rev_append rev_rev_ident takeWhile_dropWhile_id)
  have bs: "bs = bs1 @ bs2" by (simp add: bs1_def bs2_def)
  have so: "jobs_sorted h as" "jobs_sorted h bs" using sorted by (auto simp: jobs_sorted_def sorted_append)
  have hi: "\<forall>y \<in> set bs2. job_key h j \<le> job_key h y" unfolding bs2_def by (rule sorted_tail_not[OF so(2)])
  have lo: "\<forall>y \<in> set as1. job_key h y \<le> job_key h j" unfolding as1_def by (rule sorted_init_not[OF so(1)])
  have as2: "\<forall>y \<in> set as2. job_key h j < job_key h y"
    unfolding as2_def by (auto dest!: set_takeWhileD simp: job_order.lt_key)
  have bs1: "\<forall>y \<in> set bs1. job_key h y < job_key h j"
    unfolding bs1_def by (auto dest!: set_takeWhileD simp: job_order.lt_key)
  have cross: "x \<in> set as \<Longrightarrow> y \<in> set bs \<Longrightarrow> job_key h x \<le> job_key h y" for x y
    using sorted by (auto simp: jobs_sorted_def sorted_append)
  define cs where "cs = (if bs1 \<noteq> [] then as @ bs1 else as1)"
  define ds where "ds = (if bs1 \<noteq> [] then bs2 else as2 @ bs)"
  have split: "as @ bs = cs @ ds" by (auto simp: cs_def ds_def as bs)
  have low: "\<forall>x \<in> set cs. job_key h x \<le> job_key h j"
  proof (cases "bs1 = []")
    case False
    then obtain y where y: "y \<in> set bs1" by (cases bs1) auto
    then have "\<forall>x \<in> set as. job_key h x \<le> job_key h y" using cross bs by auto
    then show ?thesis using y bs1 by (auto simp: cs_def less_imp_le intro: order_trans[OF _ less_imp_le])
  qed (simp add: cs_def lo)
  have high: "\<forall>y \<in> set ds. job_key h j \<le> job_key h y"
    using hi as2 bs by (auto simp: ds_def less_imp_le)
  have "mset (as @ bs) = mset (cs @ ds)" by (simp only: split)
  then have ys: "jobs_sorted h (cs @ j # ds)" "mset (cs @ j # ds) = mset (as @ j # bs)"
    using jobs_sorted_insert[OF _ low high] sorted[unfolded split] by simp_all
  note tgt = adjust_target[OF rel as as1_def bs bs2_def, folded cs_def, unfolded Let_def]
  show ?thesis
  proof (cases "last_or None cs = last_or None as")
    case True
    have "distinct (as @ bs)" using rel by (auto simp: list_rel_def)
    then have "as = cs" "bs = ds" using same_prefix[OF _ split] True by auto
    then show ?thesis
      using True rel ys by (intro exI[of _ l] exI[of _ h] exI[of _ "as @ j # bs"]) (simp add: tgt same_data_def)
  next
    case False
    obtain l' h' where mv: "list_move_item l (Some j) (last_or None cs) h = Some (l', h')"
        "list_rel h' l' (cs @ j # ds)" "same_data h h'"
      using list_move_to[OF rel split] by blast
    then show ?thesis
      using False ys jobs_sorted_data[OF mv(3)]
      by (intro exI[of _ l'] exI[of _ h'] exI[of _ "cs @ j # ds"]) (simp add: tgt)
  qed
qed

section \<open>The interface of a list\<close>

text \<open>
  What the planner relies on, for a state that stands for a sequence: appending, removing and
  reading by position.  \<open>free_item\<close> says that an item is in no list.
\<close>

locale sequence =
  fixes rel :: "'s \<Rightarrow> nat list \<Rightarrow> bool"
    and free_item :: "'s \<Rightarrow> nat \<Rightarrow> bool"
    and add_end :: "nat \<Rightarrow> 's \<Rightarrow> 's"
    and remove :: "nat \<Rightarrow> 's \<Rightarrow> 's"
    and get :: "'s \<Rightarrow> nat \<Rightarrow> nat option"
  assumes add_end_rel: "rel s xs \<Longrightarrow> free_item s x \<Longrightarrow> x \<notin> set xs \<Longrightarrow> rel (add_end x s) (xs @ [x])"
    and add_end_free: "rel s xs \<Longrightarrow> free_item s x \<Longrightarrow> free_item s y \<Longrightarrow> y \<noteq> x \<Longrightarrow> y \<notin> set xs \<Longrightarrow> free_item (add_end x s) y"
    and remove_rel: "rel s (as @ y # bs) \<Longrightarrow> rel (remove y s) (as @ bs) \<and> free_item (remove y s) y"
    and get_rel: "rel s xs \<Longrightarrow> i < length xs \<Longrightarrow> get s i = Some (xs ! i)"
begin

lemma add_all:
  "rel s xs \<Longrightarrow> \<forall>y \<in> set ys. free_item s y \<Longrightarrow> distinct ys \<Longrightarrow> set ys \<inter> set xs = {} \<Longrightarrow>
     rel (fold add_end ys s) (xs @ ys)"
proof (induction ys arbitrary: s xs)
  case (Cons y ys)
  have "rel (add_end y s) (xs @ [y])" using Cons.prems add_end_rel by auto
  moreover have "\<forall>z \<in> set ys. free_item (add_end y s) z"
  proof
    fix z
    assume "z \<in> set ys"
    then show "free_item (add_end y s) z"
      using Cons.prems by (intro add_end_free[of s xs]) auto
  qed
  ultimately have "rel (fold add_end ys (add_end y s)) ((xs @ [y]) @ ys)"
    using Cons.prems by (intro Cons.IH) (auto simp: disjoint_iff)
  then show ?case by simp
qed simp

lemma remove_then_add: "rel s (as @ y # bs) \<Longrightarrow> y \<notin> set (as @ bs) \<Longrightarrow> rel (add_end y (remove y s)) (as @ bs @ [y])"
  using remove_rel add_end_rel by fastforce

end

text \<open>The lists of the plan are such sequences.\<close>

definition pl_rel :: "plan_list \<times> plan_heap \<Rightarrow> nat list \<Rightarrow> bool" where
  "pl_rel s xs = list_rel (snd s) (fst s) xs"

definition pl_free :: "plan_list \<times> plan_heap \<Rightarrow> nat \<Rightarrow> bool" where
  "pl_free s x = loose (snd s) x"

definition pl_add_end :: "nat \<Rightarrow> plan_list \<times> plan_heap \<Rightarrow> plan_list \<times> plan_heap" where
  "pl_add_end x s = (let (l, h, _) = list_add_end (fst s) (Some x) (snd s) in (l, h))"

definition pl_remove :: "nat \<Rightarrow> plan_list \<times> plan_heap \<Rightarrow> plan_list \<times> plan_heap" where
  "pl_remove x s = (case list_remove_item (fst s) (Some x) False (snd s) of None \<Rightarrow> s | Some s' \<Rightarrow> s')"

definition pl_get :: "plan_list \<times> plan_heap \<Rightarrow> nat \<Rightarrow> nat option" where
  "pl_get s i = snd (list_get_item (snd s) (fst s) (int i))"

lemmas pl_defs = pl_rel_def pl_free_def pl_add_end_def pl_remove_def pl_get_def

lemma list_add_end_other:
  assumes "list_rel h l xs" and "loose h y" and "y \<noteq> x" and "y \<notin> set xs" and "list_add_end l (Some x) h = (l', h', r)"
  shows "loose h' y"
proof (cases xs rule: rev_cases)
  case Nil
  then show ?thesis using assms by (auto simp: list_add_end_def list_rel_def)
next
  case (snoc zs z)
  have "pi_successor (ph_item h z) = None" "pl_last l = Some z" "pl_num_items l \<noteq> 0"
    using assms(1) snoc by (auto simp: list_rel_def seg_append)
  then show ?thesis
    using assms snoc by (auto simp: list_add_end_def insert_inbackof_def Let_def loose_def)
qed

interpretation plan: sequence pl_rel pl_free pl_add_end pl_remove pl_get
proof
  fix s xs x
  assume "pl_rel s xs" "pl_free s x" "x \<notin> set xs"
  then show "pl_rel (pl_add_end x s) (xs @ [x])"
    using list_add_end_rel[of "snd s" "fst s" xs x] by (auto simp: pl_defs split: prod.splits)
next
  fix s xs x y
  assume "pl_rel s xs" "pl_free s x" "pl_free s y" "y \<noteq> x" "y \<notin> set xs"
  then show "pl_free (pl_add_end x s) y"
    using list_add_end_other[of "snd s" "fst s" xs y x] by (auto simp: pl_defs split: prod.splits)
next
  fix s as y bs
  assume "pl_rel s (as @ y # bs)"
  then show "pl_rel (pl_remove y s) (as @ bs) \<and> pl_free (pl_remove y s) y"
    using list_remove_item_rel[of "snd s" "fst s" as y bs False] by (auto simp: pl_defs)
next
  fix s xs i
  assume "pl_rel s xs" "i < length xs"
  then show "pl_get s i = Some (xs ! i)"
    using list_get_item_rel[of "snd s" "fst s" xs "int i"] by (simp add: pl_defs)
qed

end
