(* ===== verification/Examples.thy ===== *)
theory Examples
  imports Assign Fairshare PlanList
begin

text \<open>
  Small concrete inputs: two nodes with memory, a queued job that asks for one node, and a fairshare
  tree.  The theorems of the development are applied to them, so that their hypotheses are seen to
  hold together.
\<close>

definition ex_spec :: pars_spec_node where
  "ex_spec = \<lparr>ps_node_count = 1, ps_alternative = None, ps_host = None, ps_procs = 2, ps_mem = 400, ps_vmem = 0,
     ps_scratch = 0, ps_scratch_type = ScratchNone, ps_properties = []\<rparr>"

definition ex_env :: env where
  "ex_env = \<lparr>ev_now = 100, ev_has_account = (\<lambda>_ _ _. True),
     ev_parse_nodespec = (\<lambda>_. \<lparr>sp_is_exclusive = False, sp_nodes = [ex_spec], sp_total_nodes = 1, sp_total_procs = 2\<rparr>),
     ev_parse_prop = (\<lambda>s. \<lparr>pp_name = s, pp_value = None\<rparr>), ev_bootable = (\<lambda>_. None), ev_db = []\<rparr>"

definition ex_job :: job_info where
  "ex_job = (init_job_info ''1.server'')\<lparr>ji_state := JobQueued, ji_account := ''alice''\<rparr>"

definition ex_queue :: queue_info where
  "ex_queue = \<lparr>qi_name = ''default'', qi_is_started = True, qi_is_exec = True, qi_is_global = False,
     qi_dedtime_queue = False, qi_excl_nodes_only = False, qi_is_admin_queue = False, qi_max_run = RESC_INFINITY,
     qi_max_user_run = RESC_INFINITY, qi_max_group_run = RESC_INFINITY, qi_max_proc = RESC_INFINITY,
     qi_max_user_proc = RESC_INFINITY, qi_max_group_proc = RESC_INFINITY, qi_priority = 10,
     qi_starving_support = - 1, qi_excl_node_count = 0\<rparr>"

definition ex_mem :: resource where
  "ex_mem = \<lparr>r_type = ResourceStatic, r_name = ''mem'', r_str_val = ''1000'', r_avail = RESC_UNSPECIFIED,
     r_max = 1000, r_assign = 0\<rparr>"

definition ex_node :: "string \<Rightarrow> nat \<Rightarrow> node_info" where
  "ex_node name a = new_node_info MagratheaStateNone
     ((init_node_data \<lparr>raw_no_starving = False, raw_core_total = 4, raw_core_free = 4\<rparr> name)
       \<lparr>nd_resc := [(''mem'', a)]\<rparr>)"

definition ex_world :: world where
  "ex_world = \<lparr>w_heap = [ex_mem, ex_mem], w_nodes = [ex_node ''n1'' 0, ex_node ''n2'' 1],
     w_dynamic_resources = [], w_installing_node_count = 0, w_max_installing_nodes = RESC_INFINITY\<rparr>"

lemmas ex_defs = ex_spec_def ex_env_def ex_job_def ex_queue_def ex_mem_def ex_node_def ex_world_def

lemma ex_node_simps [simp]:
  "node_at ex_world 0 = ex_node ''n1'' 0" "node_at ex_world (Suc 0) = ex_node ''n2'' 1"
  "length (w_nodes ex_world) = 2" "w_heap ex_world = [ex_mem, ex_mem]" "w_dynamic_resources ex_world = []"
  by (simp_all add: node_at_def ex_world_def)

lemma ex_node_fields [simp]:
  "nd_resc (ex_node n a) = [(''mem'', a)]" "nd_name (ex_node n a) = n" "nd_type (ex_node n a) = NodeCluster"
  "nd_core_total (ex_node n a) = 4" "nd_core_free (ex_node n a) = 4" "nl_core_assigned (ex_node n a) = 0"
  "ni_assign (ex_node n a) = new_job_assign" "ni_phys_node (ex_node n a) = None" "ni_notusable (ex_node n a) = False"
  "nd_avail_after (ex_node n a) = 0" "nd_avail_before (ex_node n a) = 0" "nd_no_multinode (ex_node n a) = False"
  "ns_down (ex_node n a) = False" "ns_offline (ex_node n a) = False" "ns_unknown (ex_node n a) = False"
  "nd_exclusively_assigned (ex_node n a) = False" "ni_slave_nodes (ex_node n a) = []"
  "ni_hosted (ex_node n a) = []" "ni_alternatives (ex_node n a) = None" "ni_host (ex_node n a) = None" "nd_jobs (ex_node n a) = {}"
  "nd_node_cost (ex_node n a) = 1" "nd_priority (ex_node n a) = 0" "ni_phys_cluster (ex_node n a) = []"
  by (simp_all add: ex_node_def new_node_info_def node_data.defs init_node_data_def)

lemma ex_job_fields [simp]:
  "ji_cluster_mode ex_job = ClusterNone" "ji_placement ex_job = []" "ji_schedule ex_job = []"
  "ji_resreq ex_job = []" "ji_state ex_job = JobQueued" "ji_account ex_job = ''alice''"
  by (simp_all add: ex_job_def init_job_info_def)

lemma ex_job_spec [simp]:
  "is_exclusive (ev_parse_nodespec ex_env) ex_job = False"
  "sp_nodes (job_spec (ev_parse_nodespec ex_env) ex_job) = [ex_spec]"
  by (simp_all add: is_exclusive_def job_spec_def parsed_nodespec_def ex_job_def init_job_info_def ex_env_def Let_def)

text \<open>The job fits on the first node, whatever is assigned to it and whatever its schedule is.\<close>

lemma ex_job_schedule [simp]: "is_exclusive (ev_parse_nodespec ex_env) (ex_job\<lparr>ji_schedule := xs\<rparr>) = False"
  using ex_job_spec(1) by (simp add: is_exclusive_def)

lemma ex_can_fit_any:
  assumes "w_heap w = [ex_mem, ex_mem]"
  shows "can_fit_job_for_run ex_env w ex_queue (ex_job\<lparr>ji_schedule := xs\<rparr>) ex_spec ((ex_node ''n1'' 0)\<lparr>ni_assign := x\<rparr>) =
     (CheckAvailable, None)"
  using assms
  by (simp add: can_fit_run_available has_spec_available has_props_run_available can_run_job_def has_runnable_state_def
      outside_window_def is_virtual_node_def ends_too_late_def has_proc_def has_mem_def has_scratch_def ex_spec_def
      nd_get_resource_def rs_lookup_def smap_find_def ex_queue_def check_numeric_fit_def ex_mem_def to_sint_def to_sll_def
      Let_def) (simp add: ex_env_def)

lemma ex_job_same: "ex_job\<lparr>ji_schedule := []\<rparr> = ex_job"
  by (simp add: ex_job_def init_job_info_def)

lemma ex_node_same: "(ex_node n a)\<lparr>ni_assign := new_job_assign\<rparr> = ex_node n a"
  by (simp add: ex_node_def new_node_info_def node_data.defs init_node_data_def)

lemma ex_can_fit: "can_fit_job_for_run ex_env ex_world ex_queue ex_job ex_spec (ex_node ''n1'' 0) = (CheckAvailable, None)"
  using ex_can_fit_any[of ex_world "[]" new_job_assign] unfolding ex_job_same ex_node_same by simp

lemma ex_world_ok: "world_ok ex_world"
  by (auto simp: world_ok_def less_2_cases_iff rs_ok_def rs_addrs_def smap_ok_def)

text \<open>The outcome of \<open>check_nodespec\<close> for the job on the first node.\<close>

definition ex_found :: "world \<times> job_info" where
  "ex_found = (case check_nodespec ex_env empty_registry ex_queue 100 [0] ex_world ex_job of
     Some (w, j, _) \<Rightarrow> (w, j) | None \<Rightarrow> (ex_world, ex_job))"

text \<open>A plan of two jobs, in the wrong order.\<close>

definition ex_plan :: "plan_list \<times> plan_heap" where
  "ex_plan =
     (\<lparr>pl_type = Jobs, pl_num_items = 2, pl_first = Some 0, pl_last = Some 1, pl_current = None\<rparr>,
      \<lparr>ph_item = (\<lambda>a. if a = 0 then \<lparr>pi_successor = Some 1, pi_predeccessor = None, pi_start_time = 50, pi_job_id = 7\<rparr>
                     else \<lparr>pi_successor = None, pi_predeccessor = Some 0, pi_start_time = 20, pi_job_id = 8\<rparr>),
       ph_next = 2\<rparr>)"

lemma ex_plan_rel [simp]: "list_rel (snd ex_plan) (fst ex_plan) [0, 1]" "jobs_sorted (snd ex_plan) [1]"
  by (simp_all add: list_rel_def ex_plan_def jobs_sorted_def)

definition ex_assigned :: world where
  "ex_assigned = fst (commit_node 0 ex_spec ScratchNone None ex_world ex_job)"

lemma ex_assigned_node:
  "node_at ex_assigned 0 = (ex_node ''n1'' 0)\<lparr>ni_assign := new_job_assign\<lparr>ja_nodespec := Some ex_spec\<rparr>\<rparr>"
  "w_heap ex_assigned = [ex_mem, ex_mem]"
  by (simp_all add: ex_assigned_def commit_node_def node_at_upd_node upd_assign_def set_selected_alternative_def
      set_scratch_assign_def set_assignment_def new_job_assign_def)

lemma ex_suitable: "NodeSuitableForSpec mode ex_env w ex_queue (ex_job\<lparr>ji_schedule := xs\<rparr>) ex_spec 0 \<longleftrightarrow>
    (mode = SuitableAssignMode \<or> mode = SuitableRebootMode \<longrightarrow> \<not> node_taken w 0) \<and>
    (mode = SuitableFairshareMode \<longrightarrow> \<not> ja_flag_fairshare x)"
  if "w_heap w = [ex_mem, ex_mem]" "node_at w 0 = (ex_node ''n1'' 0)\<lparr>ni_assign := x\<rparr>"
  using ex_can_fit_any[OF that(1), of xs x] that
  by (cases mode) (simp_all add: NodeSuitableForSpec_def Let_def ex_node_def new_node_info_def node_data.defs init_node_data_def)

lemma ex_filter: "filter_job ex_env ex_world ex_job [0] = [0]"
proof -
  have "can_run_job ex_env ex_world ex_job (ex_node ''n1'' 0) = CheckAvailable"
    using ex_can_fit by (simp add: can_fit_run_available)
  then show ?thesis by (simp add: filter_job_def filter_nodes_def NodeSuitableForJob_def Let_def)
qed

lemma ex_not_taken: "\<not> node_taken ex_world 0"
  by (simp add: node_taken_def physical_node_def new_job_assign_def has_assignment_def)

lemma ex_try_assign:
  "try_assign_spec ex_env ex_queue [0] ex_world ex_job = (ex_assigned, ex_job\<lparr>ji_schedule := [0]\<rparr>, CheckAvailable)"
proof -
  have rb: "filter_reboot ex_env ex_world ex_queue ex_job ex_spec [0] = [0]"
    using ex_suitable[of ex_world new_job_assign SuitableRebootMode "[]"] ex_not_taken
    by (simp add: filter_reboot_def filter_nodes_def ex_job_same ex_node_same)
  have one: "ps_node_count ex_spec = Suc 0" by (simp add: ex_spec_def)
  have "assign_node ex_env ex_queue ex_spec ScratchNone None [0] ex_world ex_job =
      (ex_assigned, ex_job\<lparr>ji_schedule := [0]\<rparr>, 0)"
    using ex_not_taken ex_can_fit by (simp add: ex_assigned_def assigned_spec_def written_def commit_node_def Let_def)
  then show ?thesis
    by (simp add: try_assign_spec_def rb one sort_by_def del: assign_node.simps)
qed

lemma ex_check:
  "check_nodespec ex_env empty_registry ex_queue 100 [0] ex_world ex_job = Some (fst ex_found, snd ex_found, SUCCESS)"
proof -
  have fs: "filter_fairshare ex_env ex_assigned ex_queue (ex_job\<lparr>ji_schedule := [0]\<rparr>) ex_spec [0] = [0]"
    using ex_suitable[OF ex_assigned_node(2,1), of SuitableFairshareMode "[0]"]
    by (simp add: filter_fairshare_def filter_nodes_def new_job_assign_def)
  have one: "ps_node_count ex_spec = Suc 0" by (simp add: ex_spec_def)
  have flag: "\<not> ja_flag_fairshare (ni_assign (node_at ex_assigned 0))"
    by (simp add: ex_assigned_node new_job_assign_def)
  obtain w c where cost: "calculate_fairshare_cost ex_env ex_queue (ex_job\<lparr>ji_schedule := [0]\<rparr>) [0] ex_assigned = Some (w, c)"
    using flag by (simp add: calculate_fairshare_cost_def fs one sort_by_def Let_def)
  have "check_nodespec ex_env empty_registry ex_queue 100 [0] ex_world ex_job =
      Some (w, ex_job\<lparr>ji_schedule := [0], ji_calculated_fairshare := c\<rparr>, SUCCESS)"
    by (simp add: check_nodespec_def find_nodes_def ex_filter ex_try_assign cost)
  then show ?thesis by (simp add: ex_found_def)
qed

text \<open>A node built from the attributes of the server, and a node that can boot an image.\<close>

definition ex_arch :: resource where
  "ex_arch = set_capacity (new_resource ''arch'') ''x86''"

lemma ex_arch_fields [simp]: "r_type ex_arch = ResourceString" "r_str_val ex_arch = ''x86''"
proof -
  have "\<not> is_num ''x86''" by code_simp
  then show "r_type ex_arch = ResourceString" "r_str_val ex_arch = ''x86''" by (simp_all add: ex_arch_def set_capacity_def)
qed

definition ex_raw :: raw_fields where
  "ex_raw = \<lparr>raw_no_starving = False, raw_core_total = 0, raw_core_free = 0\<rparr>"

definition ex_built_env :: nd_env where
  "ex_built_env = \<lparr>e_heap = [ex_arch], e_reg = \<lparr>p_properties = [(''arch'', 0)], p_prop_index = [''arch''],
     p_values = [[(''x86'', 0)]], p_val_index = [[''x86'']]\<rparr>\<rparr>"

definition ex_built_node :: node_data where
  "ex_built_node = (init_node_data ex_raw ''n3'')
     \<lparr>nd_resc := [(''arch'', 0)], nd_reg_props := (nd_reg_props (init_node_data ex_raw ''n3''))[0 := 0]\<rparr>"

lemma ex_node_build:
  "new_node_data ex_raw \<lparr>e_heap = [], e_reg = empty_registry\<rparr>
     \<lparr>bs_name = ''n3'', bs_attribs = [\<lparr>at_name = ''resources_total'', at_resource = ''arch'', at_value = ''x86''\<rparr>]\<rparr> =
   (ex_built_env, Inr ex_built_node)"
proof -
  have "nd_reg_props (init_node_data ex_raw ''n3'') \<noteq> []" "nd_resc (init_node_data ex_raw ''n3'') = []"
    by (simp_all add: init_node_data_def)
  moreover have "\<not> is_num ''x86''" by code_simp
  ultimately show ?thesis
    by (simp add: new_node_data_def node_attr_def set_resource_capacity_def get_alloc_resource_def smap_find_def smap_insert_def
        set_capacity_def is_string_def register_string_def register_property_def register_name_def register_value_def
        empty_registry_def add_reg_props_def grow_reg_props_def vec_set_def ex_built_env_def ex_built_node_def ex_arch_def Let_def)
qed

definition ex_image :: repository_alternatives where
  "ex_image = \<lparr>ra_name = ''debian'', ra_proplist = None, ra_mark = 0\<rparr>"

definition ex_boot_node :: node_info where
  "ex_boot_node = (ex_node ''v1'' 0)\<lparr>nd_type := NodeVirtual, ni_alternatives := Some [ex_image], ni_host := Some 1,
     ni_rebootable := True, ni_magrathea_status := MagratheaStateDownBootable\<rparr>"

definition ex_boot_world :: world where
  "ex_boot_world = ex_world\<lparr>w_nodes := [ex_boot_node, (ex_node ''host'' 1)\<lparr>nd_type := NodeCloud\<rparr>]\<rparr>"

lemma ex_can_boot:
  "can_fit_job_for_boot ex_env ex_boot_world ex_queue ex_job ex_spec ex_boot_node = (CheckAvailable, None, Some (Some ex_image))"
  by (simp add: can_fit_job_for_boot_def can_boot_job_def has_bootable_state_def bootable_magrathea_def bootable_down_bootable_def
      has_props_boot_def has_spec_available has_proc_def has_mem_def has_scratch_def has_spec_def outside_window_def
      is_virtual_node_def ends_too_late_def installing_nodes_overlimit_def ex_boot_node_def ex_boot_world_def ex_spec_def
      nd_get_resource_def rs_lookup_def smap_find_def ex_queue_def check_numeric_fit_def ex_mem_def to_sint_def to_sll_def
      has_jobs_def node_at_def ex_world_def Let_def) (simp add: ex_env_def)

end
