(* ===== verification/Config.thy ===== *)
theory Config
  imports JobInfo
begin

text \<open>
  The configuration of the scheduler: the global structure \<open>conf\<close> (\<open>src/data_types.h\<close>), its initialisation and
  the parser of the configuration file (\<open>src/parse.cpp\<close>), and the table of sort orders (\<open>src/sort.cpp\<close>).
  A line is what \<open>fgets\<close> returns.  The policy bits the source keeps twice, as \<open>prime_x\<close> and \<open>non_prime_x\<close>, are
  two values of one record.  Buffers of fixed size are lists of that length: the invariant at the end of
  the theory says that no line of a file writes beyond one.
\<close>

section \<open>Sort orders\<close>

datatype sort_type =
    NO_SORT | SHORTEST_JOB_FIRST | LONGEST_JOB_FIRST | SMALLEST_MEM_FIRST | LARGEST_MEM_FIRST
  | HIGH_PRIORITY_FIRST | LOW_PRIORITY_FIRST | LARGE_WALLTIME_FIRST | SHORT_WALLTIME_FIRST | FAIR_SHARE | MULTI_SORT

definition sorting_info :: "(sort_type \<times> string) list" where
  "sorting_info =
     [(NO_SORT, ''no_sort''), (SHORTEST_JOB_FIRST, ''shortest_job_first''), (LONGEST_JOB_FIRST, ''longest_job_first''),
      (SMALLEST_MEM_FIRST, ''smallest_memory_first''), (LARGEST_MEM_FIRST, ''largest_memory_first''),
      (HIGH_PRIORITY_FIRST, ''high_priority_first''), (LOW_PRIORITY_FIRST, ''low_priority_first''),
      (LARGE_WALLTIME_FIRST, ''large_walltime_first''), (SHORT_WALLTIME_FIRST, ''short_walltime_first''),
      (FAIR_SHARE, ''fair_share''), (MULTI_SORT, ''multi_sort'')]"

definition num_sorts :: nat where "num_sorts = length sorting_info"

text \<open>The comparison of a sort order; \<open>NO_SORT\<close> has none, and \<open>multi_sort\<close> reads the keys that follow.\<close>

fun simple_cmp :: "(job_info \<Rightarrow> rat) \<Rightarrow> sort_type \<Rightarrow> (job_info \<Rightarrow> job_info \<Rightarrow> bool) option" where
  "simple_cmp perc SHORTEST_JOB_FIRST = Some cmp_job_cput_asc"
| "simple_cmp perc LONGEST_JOB_FIRST = Some cmp_job_cput_dsc"
| "simple_cmp perc SMALLEST_MEM_FIRST = Some cmp_job_mem_asc"
| "simple_cmp perc LARGEST_MEM_FIRST = Some cmp_job_mem_dsc"
| "simple_cmp perc HIGH_PRIORITY_FIRST = Some cmp_job_prio_dsc"
| "simple_cmp perc LOW_PRIORITY_FIRST = Some cmp_job_prio_asc"
| "simple_cmp perc LARGE_WALLTIME_FIRST = Some cmp_job_walltime_dsc"
| "simple_cmp perc SHORT_WALLTIME_FIRST = Some cmp_job_walltime_asc"
| "simple_cmp perc FAIR_SHARE = Some (cmp_fair_share perc)"
| "simple_cmp perc NO_SORT = None"
| "simple_cmp perc MULTI_SORT = None"

text \<open>
  \<open>cmp_sort\<close> with the array \<open>sort_by\<close>: \<open>None\<close> when there is no comparison to call.  The keys of \<open>multi_sort\<close> end
  at \<open>NO_SORT\<close>; a key \<open>multi_sort\<close> among them makes the function call itself without end and is \<open>None\<close> too.
\<close>

definition sort_keys :: "sort_type list \<Rightarrow> sort_type list" where
  "sort_keys sorts = takeWhile (\<lambda>s. s \<noteq> NO_SORT) (tl sorts)"

definition cmp_sort :: "(job_info \<Rightarrow> rat) \<Rightarrow> sort_type list \<Rightarrow> (job_info \<Rightarrow> job_info \<Rightarrow> bool) option" where
  "cmp_sort perc sorts =
     (if hd sorts = MULTI_SORT then
        (if MULTI_SORT \<in> set (sort_keys sorts) then None
         else Some (multi_sort (map (\<lambda>s. the (simple_cmp perc s)) (sort_keys sorts))))
      else simple_cmp perc (hd sorts))"

section \<open>The configuration structure\<close>

text \<open>\<open>ALL\<close> is written \<open>ALL_PRIME\<close>, because the name is a symbol of the logic.\<close>

datatype prime_time = ALL_PRIME | NONE | PRIME | NON_PRIME

datatype days = SUNDAY | SATURDAY | WEEKDAY

text \<open>\<open>struct t\<close>: the hour has five bits, the minute six.\<close>

record t =
  t_hour :: nat
  t_min :: nat
  t_none :: bool
  t_all :: bool

record timegap =
  tg_from :: int
  tg_to :: int

record cluster_limits =
  cl_percentages :: "rat list"
  cl_percentages_global :: "rat list"
  cl_tresholds :: "int list"

record policy =
  po_round_robin :: bool
  po_by_queue :: bool
  po_strict_fifo :: bool
  po_fair_share :: bool
  po_load_balancing :: bool
  po_help_starving_jobs :: bool
  po_sort_queues :: bool
  po_load_balancing_rr :: bool
  po_sort_by :: "sort_type list"

record config =
  cf_prime_policy :: policy
  cf_non_prime_policy :: policy
  cf_ignore_remote_local :: bool
  cf_move_jobs :: bool
  cf_priority_fairshare :: bool
  cf_half_life :: int
  cf_sync_time :: int
  cf_prime :: "days \<Rightarrow> prime_time \<Rightarrow> t"
  cf_holidays :: "int list"
  cf_num_holidays :: int
  cf_ded_time :: "timegap list"
  cf_holiday_year :: int
  cf_unknown_shares :: int
  cf_log_filter :: int
  cf_local_server :: string
  cf_ded_prefix :: string
  cf_max_starve :: int
  cf_ignored_queues :: "string list"
  cf_slave_servers :: "string list"
  cf_max_user_run :: int
  cf_max_cycle :: int
  cf_default_queue :: string
  cf_config_loaded :: int
  cf_optim_minimal_queued :: int
  cf_new_jobs_limit_per_cycle :: int
  cf_optim_duration_limit :: int
  cf_optim_timeout :: int
  cf_limits_for_clusters :: "string \<Rightarrow> (int \<times> cluster_limits) list option"

definition MAX_HOLIDAY_SIZE :: nat where "MAX_HOLIDAY_SIZE = 50"
definition MAX_DEDTIME_SIZE :: nat where "MAX_DEDTIME_SIZE = 50"
definition MAX_IGNORED_QUEUES :: nat where "MAX_IGNORED_QUEUES = 16"
definition MAX_SLAVE_SERVERS :: nat where "MAX_SLAVE_SERVERS = 32"
definition PBS_MAXQUEUENAME :: nat where "PBS_MAXQUEUENAME = 15"
definition PBS_MAXSERVERNAME :: nat where "PBS_MAXSERVERNAME = 1024"

text \<open>\<open>init_config\<close>: everything is zeroed, then the defaults are set.\<close>

definition zero_policy :: policy where
  "zero_policy =
     \<lparr>po_round_robin = False, po_by_queue = False, po_strict_fifo = False, po_fair_share = False,
      po_load_balancing = False, po_help_starving_jobs = False, po_sort_queues = False, po_load_balancing_rr = False,
      po_sort_by = replicate (num_sorts + 1) NO_SORT\<rparr>"

definition init_config :: config where
  "init_config =
     \<lparr>cf_prime_policy = zero_policy, cf_non_prime_policy = zero_policy, cf_ignore_remote_local = False,
      cf_move_jobs = False, cf_priority_fairshare = False, cf_half_life = 0, cf_sync_time = 0,
      cf_prime = (\<lambda>_ _. \<lparr>t_hour = 0, t_min = 0, t_none = False, t_all = False\<rparr>),
      cf_holidays = replicate MAX_HOLIDAY_SIZE 0, cf_num_holidays = 0,
      cf_ded_time = replicate MAX_DEDTIME_SIZE \<lparr>tg_from = 0, tg_to = 0\<rparr>, cf_holiday_year = 0, cf_unknown_shares = 0,
      cf_log_filter = 0, cf_local_server = [], cf_ded_prefix = [], cf_max_starve = 0,
      cf_ignored_queues = replicate MAX_IGNORED_QUEUES [], cf_slave_servers = replicate MAX_SLAVE_SERVERS [],
      cf_max_user_run = 15, cf_max_cycle = 60 * 60, cf_default_queue = ''default'', cf_config_loaded = 0,
      cf_optim_minimal_queued = 0, cf_new_jobs_limit_per_cycle = 0, cf_optim_duration_limit = 0, cf_optim_timeout = 0,
      cf_limits_for_clusters = [[] \<mapsto> []]\<rparr>"

section \<open>Tokens of a line\<close>

text \<open>\<open>strtok\<close> with the text it keeps for the next call: the word, and what follows the delimiter that ends it.\<close>

definition strtok :: "string \<Rightarrow> string \<Rightarrow> (string \<times> string) option" where
  "strtok delim s =
     (let r = dropWhile (\<lambda>c. c \<in> set delim) s
      in if r = [] then None
         else Some (takeWhile (\<lambda>c. c \<notin> set delim) r, tl (dropWhile (\<lambda>c. c \<notin> set delim) r)))"

definition strip_newline :: "string \<Rightarrow> string" where
  "strip_newline buf = (if buf \<noteq> [] \<and> last buf = CHR 0x0A then butlast buf else buf)"

definition blanks :: string where "blanks = [CHR '' '', CHR 0x09]"

text \<open>The number a value stands for: 1 and 0 for the words of truth, the decimal prefix, \<open>-1\<close> for other words.\<close>

definition config_num :: "string \<Rightarrow> int" where
  "config_num v =
     (if v = ''true'' \<or> v = ''True'' \<or> is_prefix ''TRUE'' v then 1
      else if v = ''false'' \<or> v = ''False'' \<or> v = ''FALSE'' then 0
      else if v \<noteq> [] \<and> isdigit (hd v) then to_sint (fst (strtol v))
      else - 1)"

text \<open>The third word, and whether it is wrong; a wrong word leaves \<open>ALL_PRIME\<close>.\<close>

definition config_prime :: "string option \<Rightarrow> prime_time \<times> bool" where
  "config_prime word =
     (case word of
        None \<Rightarrow> (ALL_PRIME, False)
      | Some p \<Rightarrow>
          (if p = ''prime'' \<or> p = ''PRIME'' then (PRIME, False)
           else if p = ''non_prime'' \<or> p = ''NON_PRIME'' then (NON_PRIME, False)
           else if p = ''all'' \<or> p = ''ALL'' then (ALL_PRIME, False)
           else if p = ''none'' \<or> p = ''NONE'' then (NONE, False)
           else (ALL_PRIME, True)))"

section \<open>Limits of clusters\<close>

lemma split_sign_shorter: "length (snd (split_sign x)) \<le> length x"
  by (simp add: split_sign_def)

lemma strtol_shorter: "length (snd (strtol s)) \<le> length s"
proof -
  obtain n u where u: "split_sign (dropWhile isspace s) = (n, u)" by fastforce
  then have "length u \<le> length s"
    using split_sign_shorter[of "dropWhile isspace s"] length_dropWhile_le[of isspace s] by simp
  moreover have "length (dropWhile isdigit u) \<le> length u" by (rule length_dropWhile_le)
  ultimately show ?thesis by (simp add: strtol_def u Let_def)
qed

lemma strtod_shorter: "length (snd (strtod s)) \<le> length s"
proof -
  have expo: "length (snd (split_exponent x)) \<le> length x" for x
  proof -
    obtain n u where u: "split_sign (tl x) = (n, u)" by fastforce
    then have "length u \<le> length x" using split_sign_shorter[of "tl x"] by simp
    moreover have "length (dropWhile isdigit u) \<le> length u" by (rule length_dropWhile_le)
    ultimately show ?thesis by (simp add: split_exponent_def u Let_def)
  qed
  obtain n u where u: "split_sign (dropWhile isspace s) = (n, u)" by fastforce
  have len: "length u \<le> length s" using split_sign_shorter[of "dropWhile isspace s"] length_dropWhile_le[of isspace s] u by simp
  define r where "r = dropWhile isdigit u"
  have r: "length r \<le> length s" using length_dropWhile_le[of isdigit u] len by (simp add: r_def)
  have "length (dropWhile isdigit (tl r)) \<le> length s"
    using length_dropWhile_le[of isdigit "tl r"] r length_tl[of r] by linarith
  then have "length (snd (split_exponent r)) \<le> length s" "length (snd (split_exponent (dropWhile isdigit (tl r)))) \<le> length s"
    using expo[of r] expo[of "dropWhile isdigit (tl r)"] r by linarith+
  then show ?thesis
    by (auto simp: strtod_def Let_def u r_def[symmetric] split: prod.splits)
qed

text \<open>
  The loop over threshold, local and global percentage; \<open>True\<close> is the error return.  The characters between the
  numbers are skipped unread.
\<close>

definition push_treshold :: "int \<Rightarrow> cluster_limits \<Rightarrow> cluster_limits" where
  "push_treshold v l = l\<lparr>cl_tresholds := cl_tresholds l @ [v]\<rparr>"

definition push_percentage :: "rat \<Rightarrow> cluster_limits \<Rightarrow> cluster_limits" where
  "push_percentage v l = l\<lparr>cl_percentages := cl_percentages l @ [v]\<rparr>"

definition push_global :: "rat \<Rightarrow> cluster_limits \<Rightarrow> cluster_limits" where
  "push_global v l = l\<lparr>cl_percentages_global := cl_percentages_global l @ [v]\<rparr>"

function limit_loop :: "string \<Rightarrow> cluster_limits \<Rightarrow> bool \<times> cluster_limits" where
  "limit_loop d l =
     (if d \<noteq> [] \<and> hd d = CHR '';'' \<and> tl d \<noteq> [] then
        (let d1 = snd (strtol (tl d)); d2 = snd (strtod (tl d1)); d3 = snd (strtod (tl d2));
             l1 = push_treshold (fst (strtol (tl d))) l; l2 = push_percentage (fst (strtod (tl d1))) l1
         in if d1 = [] \<or> tl d1 = [] then (True, l)
            else if d2 = [] \<or> tl d2 = [] then (True, l1)
            else limit_loop d3 (push_global (fst (strtod (tl d2))) l2))
      else (False, l))"
  by pat_completeness auto

termination limit_loop
proof (relation "measure (\<lambda>(d, l). length d)", goal_cases)
  case (2 d l d1 d2 d3 l1 l2)
  then have "length d3 \<le> length (tl d2)" "length d2 \<le> length (tl d1)" "length d1 \<le> length (tl d)"
    by (simp_all only: strtod_shorter strtol_shorter)
  then show ?case using 2(1) by (cases d) auto
qed simp

declare limit_loop.simps [simp del]

text \<open>
  The limits of a cluster are a \<open>std::map\<close> from numbers of processors, kept sorted by its keys.  \<open>None\<close>: there is no colon and the null pointer \<open>strchr\<close> returns is followed.\<close>

definition parse_limit :: "string \<Rightarrow> config \<Rightarrow> (bool \<times> config) option" where
  "parse_limit parsed_value conf =
     (case strchr parsed_value (CHR '':'') of
        None \<Rightarrow> None
      | Some (cluster, rest) \<Rightarrow>
          (let (n, d) = strtol rest; num_cpus = to_sint n
           in if d = [] \<or> hd d \<noteq> CHR '';'' then Some (True, conf)
              else
                (let table = (case cf_limits_for_clusters conf cluster of None \<Rightarrow> [] | Some m \<Rightarrow> m);
                     old = (case map_of table num_cpus of
                              None \<Rightarrow> \<lparr>cl_percentages = [], cl_percentages_global = [], cl_tresholds = []\<rparr> | Some l \<Rightarrow> l);
                     (err, new) = limit_loop d old
                 in Some (err, conf\<lparr>cf_limits_for_clusters :=
                      (cf_limits_for_clusters conf)(cluster \<mapsto>
                        insort_key fst (num_cpus, new) (filter (\<lambda>e. fst e \<noteq> num_cpus) table))\<rparr>))))"

section \<open>Settings\<close>

definition on_policies :: "prime_time \<Rightarrow> (policy \<Rightarrow> policy) \<Rightarrow> config \<Rightarrow> config" where
  "on_policies prime f conf =
     (let c = (if prime = PRIME \<or> prime = ALL_PRIME then conf\<lparr>cf_prime_policy := f (cf_prime_policy conf)\<rparr> else conf)
      in if prime = NON_PRIME \<or> prime = ALL_PRIME then c\<lparr>cf_non_prime_policy := f (cf_non_prime_policy c)\<rparr> else c)"

definition policy_flags :: "(string \<times> (bool \<Rightarrow> policy \<Rightarrow> policy)) list" where
  "policy_flags =
     [(''round_robin'', \<lambda>b p. p\<lparr>po_round_robin := b\<rparr>), (''by_queue'', \<lambda>b p. p\<lparr>po_by_queue := b\<rparr>),
      (''strict_fifo'', \<lambda>b p. p\<lparr>po_strict_fifo := b\<rparr>), (''fair_share'', \<lambda>b p. p\<lparr>po_fair_share := b\<rparr>),
      (''load_balancing'', \<lambda>b p. p\<lparr>po_load_balancing := b\<rparr>),
      (''help_starving_jobs'', \<lambda>b p. p\<lparr>po_help_starving_jobs := b\<rparr>),
      (''sort_queues'', \<lambda>b p. p\<lparr>po_sort_queues := b\<rparr>), (''load_balancing_rr'', \<lambda>b p. p\<lparr>po_load_balancing_rr := b\<rparr>)]"

text \<open>The settings that take a number or a truth value; the argument is \<open>num\<close> and the text of the value.\<close>

definition number_settings :: "(string \<times> (int \<Rightarrow> string \<Rightarrow> config \<Rightarrow> config)) list" where
  "number_settings =
     [(''ignore_remote_local_queues'', \<lambda>num v c. c\<lparr>cf_ignore_remote_local := (num \<noteq> 0)\<rparr>),
      (''max_starve'', \<lambda>num v c. c\<lparr>cf_max_starve := res_to_num v\<rparr>),
      (''half_life'', \<lambda>num v c. c\<lparr>cf_half_life := res_to_num v\<rparr>),
      (''sync_time'', \<lambda>num v c. c\<lparr>cf_sync_time := res_to_num v\<rparr>),
      (''unknown_shares'', \<lambda>num v c. c\<lparr>cf_unknown_shares := num\<rparr>),
      (''log_filter'', \<lambda>num v c. c\<lparr>cf_log_filter := num\<rparr>),
      (''cycle_length'', \<lambda>num v c. c\<lparr>cf_max_cycle := res_to_num v\<rparr>),
      (''max_user_run'', \<lambda>num v c. c\<lparr>cf_max_user_run := to_sint (res_to_num v)\<rparr>),
      (''job_moving'', \<lambda>num v c. c\<lparr>cf_move_jobs := (num \<noteq> 0)\<rparr>),
      (''fair_share_with_priority'', \<lambda>num v c. c\<lparr>cf_priority_fairshare := (num \<noteq> 0)\<rparr>),
      (''optim_minimal_queued'', \<lambda>num v c. c\<lparr>cf_optim_minimal_queued := num\<rparr>),
      (''new_jobs_limit_per_cycle'', \<lambda>num v c. c\<lparr>cf_new_jobs_limit_per_cycle := num\<rparr>),
      (''optim_duration_limit'', \<lambda>num v c. c\<lparr>cf_optim_duration_limit := num\<rparr>),
      (''optim_timeout'', \<lambda>num v c. c\<lparr>cf_optim_timeout := num\<rparr>)]"

text \<open>The settings that copy a name into a buffer, with the length the buffer holds.\<close>

fun set_first_empty :: "string \<Rightarrow> string list \<Rightarrow> string list" where
  "set_first_empty v [] = []"
| "set_first_empty v (x # xs) = (if x = [] then v # xs else x # set_first_empty v xs)"

definition name_settings :: "(string \<times> nat \<times> (string \<Rightarrow> config \<Rightarrow> config)) list" where
  "name_settings =
     [(''dedicated_prefix'', PBS_MAXQUEUENAME, \<lambda>v c. c\<lparr>cf_ded_prefix := v\<rparr>),
      (''local_server'', PBS_MAXSERVERNAME, \<lambda>v c. c\<lparr>cf_local_server := v\<rparr>),
      (''ignore_queue'', PBS_MAXQUEUENAME, \<lambda>v c. c\<lparr>cf_ignored_queues := set_first_empty v (cf_ignored_queues c)\<rparr>),
      (''slave_server'', PBS_MAXSERVERNAME, \<lambda>v c. c\<lparr>cf_slave_servers := set_first_empty v (cf_slave_servers c)\<rparr>),
      (''default_queue'', PBS_MAXQUEUENAME, \<lambda>v c. c\<lparr>cf_default_queue := v\<rparr>)]"

definition find_sort :: "string \<Rightarrow> sort_type option" where
  "find_sort v = map_option fst (List.find (\<lambda>(s, n). n = v) sorting_info)"

text \<open>The parser counts the keys of \<open>multi_sort\<close> for prime and non-prime time.\<close>

record parse_state =
  pz_conf :: config
  pz_pkey_num :: nat
  pz_npkey_num :: nat

definition set_sort :: "nat \<Rightarrow> sort_type \<Rightarrow> policy \<Rightarrow> policy option" where
  "set_sort i s p = map_option (\<lambda>xs. p\<lparr>po_sort_by := xs\<rparr>) (vec_set (po_sort_by p) i s)"

text \<open>
  A sort key.  Both arrays are written when the key is for prime time or for all times, and neither for
  non-prime time: the source tests \<open>PRIME\<close> twice.  \<open>None\<close> is a write beyond the array.
\<close>

definition add_key :: "prime_time \<Rightarrow> sort_type \<Rightarrow> parse_state \<Rightarrow> parse_state option" where
  "add_key prime s st =
     (if ((prime = PRIME \<or> prime = ALL_PRIME) \<and> pz_pkey_num st \<le> num_sorts) \<or>
         ((prime = NON_PRIME \<or> prime = ALL_PRIME) \<and> pz_npkey_num st \<le> num_sorts)
      then
        (if prime = PRIME \<or> prime = ALL_PRIME then
           (case (set_sort (pz_pkey_num st) s (cf_prime_policy (pz_conf st)),
                  set_sort (pz_npkey_num st) s (cf_non_prime_policy (pz_conf st))) of
              (Some p, Some np) \<Rightarrow>
                Some (st\<lparr>pz_conf := (pz_conf st)\<lparr>cf_prime_policy := p, cf_non_prime_policy := np\<rparr>,
                         pz_pkey_num := pz_pkey_num st + 1, pz_npkey_num := pz_npkey_num st + 1\<rparr>)
            | _ \<Rightarrow> None)
         else Some st)
      else Some st)"

definition config_setting :: "string \<Rightarrow> string \<Rightarrow> string \<Rightarrow> string option \<Rightarrow> parse_state \<Rightarrow> (bool \<times> parse_state) option" where
  "config_setting name v text third st =
     (let num = config_num v; (prime, bad) = config_prime third; conf = pz_conf st
      in case map_of policy_flags name of
           Some f \<Rightarrow> Some (bad, st\<lparr>pz_conf := on_policies prime (f (num \<noteq> 0)) conf\<rparr>)
         | None \<Rightarrow>
         (case map_of number_settings name of
            Some f \<Rightarrow> Some (bad, st\<lparr>pz_conf := f num v conf\<rparr>)
          | None \<Rightarrow>
          (case map_of name_settings name of
             Some (cap, f) \<Rightarrow> (if length v > cap then Some (True, st) else Some (bad, st\<lparr>pz_conf := f v conf\<rparr>))
           | None \<Rightarrow>
             (if name = ''sort_by'' then
                (case find_sort v of
                   None \<Rightarrow> Some (True, st)
                 | Some s \<Rightarrow> Some (False, st\<lparr>pz_conf := on_policies prime (\<lambda>p. p\<lparr>po_sort_by := (po_sort_by p)[0 := s]\<rparr>) conf\<rparr>))
              else if name = ''key'' then
                (case find_sort v of
                   None \<Rightarrow> Some (True, st)
                 | Some s \<Rightarrow> map_option (\<lambda>st'. (False, st')) (add_key prime s st))
              else if name = ''limit'' then
                map_option (\<lambda>(err, c). (err, st\<lparr>pz_conf := c\<rparr>)) (parse_limit text conf)
              else Some (bad, st)))))"

definition config_file_line :: "string \<Rightarrow> parse_state \<Rightarrow> (bool \<times> parse_state) option" where
  "config_file_line buf st =
     (if skip_line buf then Some (False, st)
      else case strtok (CHR '':'' # blanks) (strip_newline buf) of
             None \<Rightarrow> Some (True, st)
           | Some (name, r1) \<Rightarrow>
               (case strtok blanks r1 of
                  None \<Rightarrow> Some (True, st)
                | Some (v, r2) \<Rightarrow>
                    config_setting name v (dropWhile (\<lambda>c. c \<in> set blanks) r1) (map_option fst (strtok blanks r2)) st))"

text \<open>The loop over the lines; the numbers of the lines reported as wrong are collected.\<close>

fun config_lines :: "string list \<Rightarrow> nat \<Rightarrow> parse_state \<Rightarrow> (nat list \<times> parse_state) option" where
  "config_lines [] linenum st = Some ([], st)"
| "config_lines (l # ls) linenum st =
     (case config_file_line l st of
        None \<Rightarrow> None
      | Some (err, st') \<Rightarrow>
          map_option (\<lambda>(errs, s). (if err then linenum # errs else errs, s)) (config_lines ls (linenum + 1) st'))"

text \<open>\<open>parse_config\<close> of a file given by its lines and its modification time; no file returns 0.\<close>

definition parse_config :: "(string list \<times> int) option \<Rightarrow> config \<Rightarrow> (int \<times> config) option" where
  "parse_config file conf =
     (case file of
        None \<Rightarrow> Some (0, conf)
      | Some (lines, mtime) \<Rightarrow>
          map_option (\<lambda>(errs, st). (1, pz_conf st))
            (config_lines lines 1 \<lparr>pz_conf = conf\<lparr>cf_config_loaded := mtime\<rparr>, pz_pkey_num = 1, pz_npkey_num = 1\<rparr>))"

text \<open>\<open>reinit_config\<close> starts over when the file is newer than the configuration; \<open>None\<close>: the file cannot be read.\<close>

definition reinit_config :: "int option \<Rightarrow> config \<Rightarrow> int \<times> config" where
  "reinit_config mtime conf =
     (case mtime of
        None \<Rightarrow> (0, conf)
      | Some m \<Rightarrow> if m \<le> cf_config_loaded conf then (0, conf) else (1, init_config))"

section \<open>No line writes beyond a buffer\<close>

definition config_ok :: "config \<Rightarrow> bool" where
  "config_ok c \<longleftrightarrow>
     length (po_sort_by (cf_prime_policy c)) = num_sorts + 1 \<and>
     length (po_sort_by (cf_non_prime_policy c)) = num_sorts + 1 \<and>
     length (cf_holidays c) = MAX_HOLIDAY_SIZE \<and> length (cf_ded_time c) = MAX_DEDTIME_SIZE \<and>
     length (cf_ignored_queues c) = MAX_IGNORED_QUEUES \<and> (\<forall>q \<in> set (cf_ignored_queues c). length q \<le> PBS_MAXQUEUENAME) \<and>
     length (cf_slave_servers c) = MAX_SLAVE_SERVERS \<and> (\<forall>q \<in> set (cf_slave_servers c). length q \<le> PBS_MAXSERVERNAME) \<and>
     length (cf_local_server c) \<le> PBS_MAXSERVERNAME \<and> length (cf_ded_prefix c) \<le> PBS_MAXQUEUENAME \<and>
     length (cf_default_queue c) \<le> PBS_MAXQUEUENAME"

definition parse_ok :: "parse_state \<Rightarrow> bool" where
  "parse_ok st \<longleftrightarrow> config_ok (pz_conf st) \<and> pz_npkey_num st = pz_pkey_num st \<and> pz_pkey_num st \<le> num_sorts + 1"

text \<open>A limit line without a colon is the one line that stops the parser.\<close>

definition limit_without_colon :: "string \<Rightarrow> bool" where
  "limit_without_colon buf \<longleftrightarrow>
     \<not> skip_line buf \<and>
     (case strtok (CHR '':'' # blanks) (strip_newline buf) of
        None \<Rightarrow> False
      | Some (name, r1) \<Rightarrow> name = ''limit'' \<and> strtok blanks r1 \<noteq> None \<and>
          CHR '':'' \<notin> set (dropWhile (\<lambda>c. c \<in> set blanks) r1))"

lemma config_ok_init: "config_ok init_config"
  by (simp add: config_ok_def init_config_def zero_policy_def PBS_MAXQUEUENAME_def)

lemma config_ok_loaded [simp]: "config_ok (c\<lparr>cf_config_loaded := m\<rparr>) = config_ok c"
  by (simp add: config_ok_def)

lemma config_ok_limits [simp]: "config_ok (c\<lparr>cf_limits_for_clusters := m\<rparr>) = config_ok c"
  by (simp add: config_ok_def)

lemma policy_flag_sorts:
  assumes "map_of policy_flags name = Some f" shows "po_sort_by (f b p) = po_sort_by p"
proof -
  have "\<forall>(n, f) \<in> set policy_flags. po_sort_by (f b p) = po_sort_by p" by (simp add: policy_flags_def)
  then show ?thesis using map_of_SomeD[OF assms] by blast
qed

lemma on_policies_ok:
  assumes "config_ok c" and "\<And>p. length (po_sort_by (f p)) = length (po_sort_by p)"
  shows "config_ok (on_policies prime f c)"
  using assms by (simp add: config_ok_def on_policies_def Let_def)

lemma number_setting_ok:
  assumes "map_of number_settings name = Some f" shows "config_ok (f num v c) = config_ok c"
proof -
  have "\<forall>(n, f) \<in> set number_settings. config_ok (f num v c) = config_ok c"
    by (simp add: number_settings_def config_ok_def)
  then show ?thesis using map_of_SomeD[OF assms] by blast
qed

lemma set_first_empty_length [simp]: "length (set_first_empty v xs) = length xs"
  by (induction xs) auto

lemma set_first_empty_elems: "x \<in> set (set_first_empty v xs) \<Longrightarrow> x = v \<or> x \<in> set xs"
  by (induction xs) (auto split: if_splits)

lemma name_setting_ok:
  assumes "map_of name_settings name = Some (cap, f)" and "length v \<le> cap" and "config_ok c"
  shows "config_ok (f v c)"
proof -
  have "\<forall>(n, cap, f) \<in> set name_settings. length v \<le> cap \<longrightarrow> config_ok c \<longrightarrow> config_ok (f v c)"
    by (auto simp: name_settings_def config_ok_def dest!: set_first_empty_elems)
  then show ?thesis using map_of_SomeD[OF assms(1)] assms(2,3) by blast
qed

lemma add_key_ok:
  assumes "parse_ok st" shows "\<exists>st'. add_key prime s st = Some st' \<and> parse_ok st'"
  using assms by (cases prime) (auto simp: add_key_def parse_ok_def config_ok_def set_sort_def vec_set_def)

lemma parse_limit_ok:
  assumes "CHR '':'' \<in> set text" and "config_ok c"
  shows "\<exists>err c'. parse_limit text c = Some (err, c') \<and> config_ok c'"
  using assms by (auto simp: parse_limit_def strchr_def Let_def split: prod.splits)

lemma config_setting_ok:
  assumes "parse_ok st" and "name = ''limit'' \<Longrightarrow> CHR '':'' \<in> set text"
  shows "\<exists>err st'. config_setting name v text third st = Some (err, st') \<and> parse_ok st'"
proof -
  obtain prime bad where third: "config_prime third = (prime, bad)" by fastforce
  have conf: "config_ok (pz_conf st)" using assms(1) by (simp add: parse_ok_def)
  have keep: "parse_ok (st\<lparr>pz_conf := c\<rparr>)" if "config_ok c" for c using assms(1) that by (simp add: parse_ok_def)
  show ?thesis
  proof (cases "map_of policy_flags name")
    case (Some f)
    then show ?thesis
      using keep[OF on_policies_ok[OF conf]] policy_flag_sorts[OF Some] by (simp add: config_setting_def third)
  next
    case flags: None
    show ?thesis
    proof (cases "map_of number_settings name")
      case (Some f)
      then show ?thesis using flags keep number_setting_ok[OF Some] conf by (simp add: config_setting_def third)
    next
      case numbers: None
      show ?thesis
      proof (cases "map_of name_settings name")
        case (Some cf)
        then show ?thesis
          using flags numbers keep name_setting_ok[of name _ _ v "pz_conf st"] conf assms(1)
          by (cases cf) (auto simp: config_setting_def third)
      next
        case None
        have key: "\<exists>st'. add_key prime s st = Some st' \<and> parse_ok st'" for s by (rule add_key_ok[OF assms(1)])
        have sort: "parse_ok (st\<lparr>pz_conf := on_policies prime (\<lambda>p. p\<lparr>po_sort_by := (po_sort_by p)[0 := s]\<rparr>) (pz_conf st)\<rparr>)" for s
          by (intro keep on_policies_ok[OF conf]) simp
        consider "name = ''sort_by''" | "name = ''key''" | "name = ''limit''"
          | "name \<noteq> ''sort_by''" "name \<noteq> ''key''" "name \<noteq> ''limit''" by blast
        then show ?thesis
        proof cases
          case 1
          then show ?thesis using flags numbers None assms(1) sort
            by (cases "find_sort v") (auto simp: config_setting_def third)
        next
          case 2
          obtain st' where "add_key prime (the (find_sort v)) st = Some st'" "parse_ok st'" using key by blast
          with 2 show ?thesis using flags numbers None assms(1)
            by (cases "find_sort v") (auto simp: config_setting_def third)
        next
          case 3
          then obtain err c' where "parse_limit text (pz_conf st) = Some (err, c')" "config_ok c'"
            using parse_limit_ok[OF assms(2) conf] by blast
          with 3 show ?thesis using flags numbers None keep by (simp add: config_setting_def third)
        qed (use flags numbers None assms(1) in \<open>simp add: config_setting_def third\<close>)
      qed
    qed
  qed
qed

lemma config_line_ok:
  assumes "parse_ok st" and "\<not> limit_without_colon buf"
  shows "\<exists>err st'. config_file_line buf st = Some (err, st') \<and> parse_ok st'"
  using assms config_setting_ok[OF assms(1)]
  by (auto simp: config_file_line_def limit_without_colon_def split: option.splits)

lemma config_lines_ok:
  "parse_ok st \<Longrightarrow> \<forall>l \<in> set lines. \<not> limit_without_colon l \<Longrightarrow>
     \<exists>errs st'. config_lines lines n st = Some (errs, st') \<and> parse_ok st'"
proof (induction lines arbitrary: n st)
  case (Cons l ls)
  then obtain e st1 where 1: "config_file_line l st = Some (e, st1)" "parse_ok st1" using config_line_ok by (metis list.set_intros(1))
  with Cons.IH[of st1 "n + 1"] Cons.prems obtain errs st2 where "config_lines ls (n + 1) st1 = Some (errs, st2)" "parse_ok st2"
    by auto
  with 1 show ?case by simp
qed simp

lemma parse_config_ok:
  assumes "config_ok c" and "\<forall>l \<in> set lines. \<not> limit_without_colon l"
  shows "\<exists>c'. parse_config (Some (lines, m)) c = Some (1, c') \<and> config_ok c'"
  using config_lines_ok[of "\<lparr>pz_conf = c\<lparr>cf_config_loaded := m\<rparr>, pz_pkey_num = 1, pz_npkey_num = 1\<rparr>" lines 1] assms
  by (auto simp: parse_config_def parse_ok_def num_sorts_def)

section \<open>Every configured order can be sorted with\<close>

lemma simple_cmp_known: "simple_cmp perc s = Some lt \<Longrightarrow> lt \<in> job_cmps perc"
  by (cases s) (auto simp: job_cmps_def)

lemma simple_cmp_Some: "s \<noteq> NO_SORT \<Longrightarrow> s \<noteq> MULTI_SORT \<Longrightarrow> \<exists>lt. simple_cmp perc s = Some lt"
  by (cases s) auto

lemma cmp_sort_strict_weak:
  assumes "cmp_sort perc sorts = Some lt" shows "strict_weak lt"
proof (cases "hd sorts = MULTI_SORT")
  case True
  then have keys: "MULTI_SORT \<notin> set (sort_keys sorts)"
    and lt: "lt = multi_sort (map (\<lambda>s. the (simple_cmp perc s)) (sort_keys sorts))"
    using assms by (auto simp: cmp_sort_def split: if_splits)
  have "NO_SORT \<notin> set (sort_keys sorts)" by (auto simp: sort_keys_def dest: set_takeWhileD)
  then have "the (simple_cmp perc s) \<in> job_cmps perc" if "s \<in> set (sort_keys sorts)" for s
    using simple_cmp_Some[of s perc] simple_cmp_known keys that by (metis option.sel)
  then show ?thesis unfolding lt by (intro multi_sort_strict_weak) auto
next
  case False
  then have "lt \<in> job_cmps perc" using assms simple_cmp_known by (auto simp: cmp_sort_def)
  then show ?thesis by (rule job_cmps_strict_weak)
qed

end
