(* ===== verification/Times.thy ===== *)
theory Times
  imports Config
begin

text \<open>
  Times: prime time and holidays (\<open>src/prime.cpp\<close>), dedicated times (\<open>src/dedtime.cpp\<close>) and the part of the
  cycle status they decide (\<open>struct status\<close> of \<open>src/data_types.h\<close>, \<open>update_cycle_status\<close> of \<open>src/fifo.cpp\<close>).
  \<open>localtime\<close> and \<open>mktime\<close> depend on the time zone of the machine and are parameters.  A file is the list of lines
  \<open>fgets\<close> returns.
\<close>

section \<open>Status of a cycle\<close>

record tm =
  tm_min :: int
  tm_hour :: int
  tm_mday :: int
  tm_mon :: int
  tm_year :: int
  tm_wday :: int
  tm_yday :: int

record status =
  cs_policy :: policy
  cs_is_prime :: bool
  cs_is_ded_time :: bool
  cs_current_time :: int

definition init_prime_time :: "config \<Rightarrow> status \<Rightarrow> status" where
  "init_prime_time conf s = s\<lparr>cs_is_prime := True, cs_policy := cf_prime_policy conf\<rparr>"

definition init_non_prime_time :: "config \<Rightarrow> status \<Rightarrow> status" where
  "init_non_prime_time conf s = s\<lparr>cs_is_prime := False, cs_policy := cf_non_prime_policy conf\<rparr>"

section \<open>Prime time\<close>

text \<open>With fifty holidays \<open>num_holidays\<close> is one more than the array holds; the read beyond it is not modelled.\<close>

definition is_holiday :: "config \<Rightarrow> int \<Rightarrow> bool" where
  "is_holiday conf jdate = (jdate \<in> set (take (nat (cf_num_holidays conf)) (cf_holidays conf)))"

text \<open>The chain that reads the flags \<open>all\<close> and \<open>none\<close> assigns a value the second conditional replaces on every path.\<close>

definition check_prime :: "config \<Rightarrow> days \<Rightarrow> tm \<Rightarrow> prime_time" where
  "check_prime conf d t =
     (let p = cf_prime conf d PRIME; np = cf_prime conf d NON_PRIME
      in if int (t_hour np) - int (t_hour p) \<ge> 0 then
           (if tm_hour t > int (t_hour p) \<and> tm_hour t < int (t_hour np) then PRIME
            else if tm_hour t = int (t_hour p) then
              (if t_hour p = t_hour np then
                 (if tm_min t \<ge> int (t_min p) \<and> tm_min t < int (t_min np) then PRIME else NON_PRIME)
               else if tm_min t > int (t_min p) then PRIME
               else NON_PRIME)
            else NON_PRIME)
         else if tm_hour t > int (t_hour p) \<or> tm_hour t < int (t_hour np) then PRIME
         else NON_PRIME)"

text \<open>\<open>is_prime_time\<close> keeps the last day it looked for a holiday on in a static variable.\<close>

definition is_prime_time :: "config \<Rightarrow> tm \<Rightarrow> int \<Rightarrow> prime_time \<times> int" where
  "is_prime_time conf t last_day =
     (if cf_holiday_year conf = 0 then (PRIME, last_day)
      else
        (let check = (\<not> tm_year t > cf_holiday_year conf \<and> tm_yday t > last_day);
             day = (if check then tm_yday t else last_day)
         in if check \<and> is_holiday conf (tm_yday t + 1) then (NON_PRIME, day)
            else if tm_wday t = 0 then (check_prime conf SUNDAY t, day)
            else if tm_wday t = 6 then (check_prime conf SATURDAY t, day)
            else (check_prime conf WEEKDAY t, day)))"

text \<open>C division truncates; a value stored in a bit field keeps its low bits.\<close>

definition c_div :: "int \<Rightarrow> int \<Rightarrow> int" where
  "c_div a b = (if 0 \<le> a then a div b else - (- a div b))"

definition c_mod :: "int \<Rightarrow> int \<Rightarrow> int" where
  "c_mod a b = a - c_div a b * b"

definition set_prime :: "days \<Rightarrow> prime_time \<Rightarrow> (t \<Rightarrow> t) \<Rightarrow> config \<Rightarrow> config" where
  "set_prime d pr f conf = conf\<lparr>cf_prime := (cf_prime conf)(d := (cf_prime conf d)(pr := f (cf_prime conf d pr)))\<rparr>"

definition load_day :: "days \<Rightarrow> prime_time \<Rightarrow> string option \<Rightarrow> config \<Rightarrow> int \<times> config" where
  "load_day d pr tok conf =
     (case tok of
        None \<Rightarrow> (- 1, conf)
      | Some w \<Rightarrow>
          (if w = ''all'' \<or> w = ''ALL'' then (0, set_prime d pr (\<lambda>x. x\<lparr>t_all := True, t_hour := 0, t_min := 0\<rparr>) conf)
           else if w = ''none'' \<or> w = ''NONE'' then
             (0, set_prime d pr (\<lambda>x. x\<lparr>t_none := True, t_hour := 0, t_min := 0\<rparr>) conf)
           else
             (let (n, rest) = strtol w; num = to_sint n
              in if rest = [] then
                   (0, set_prime d pr (\<lambda>x. x\<lparr>t_hour := nat (c_div num 100 mod 32), t_min := nat (c_mod num 100 mod 64)\<rparr>) conf)
                 else (- 1, conf))))"

text \<open>The two words of a day: the second is read only when the first is right.\<close>

definition load_times :: "days \<Rightarrow> string \<Rightarrow> config \<Rightarrow> string \<times> config" where
  "load_times d rest conf =
     (let tok1 = strtok blanks rest;
          rest1 = (case tok1 of None \<Rightarrow> [] | Some (_, r) \<Rightarrow> r);
          (ret, conf1) = load_day d PRIME (map_option fst tok1) conf
      in if ret < 0 then (rest1, conf1)
         else
           (let tok2 = strtok blanks rest1;
                rest2 = (case tok2 of None \<Rightarrow> [] | Some (_, r) \<Rightarrow> r)
            in (rest2, snd (load_day d NON_PRIME (map_option fst tok2) conf1))))"

definition four_digits :: "string \<Rightarrow> bool" where
  "four_digits w \<longleftrightarrow> length w = 4 \<and> list_all isdigit w"

text \<open>
  One line of the holidays file with the index of the next holiday; \<open>None\<close> is a write beyond the array or a line
  of separators \<open>strtok\<close> finds no word in.  A line that starts with a year is read twice: for the times of
  a working day and, because the second conditional is not an \<open>else\<close>, as a holiday.
\<close>

definition holidays_line :: "string \<Rightarrow> nat \<times> config \<Rightarrow> (nat \<times> config) option" where
  "holidays_line buf = (\<lambda>(hol_index, conf).
     (let line = strip_newline buf
      in if skip_line line then Some (hol_index, conf)
         else case strtok blanks line of
                None \<Rightarrow> None
              | Some (name, rest) \<Rightarrow>
                  (let (rest1, conf1) = (if four_digits name then load_times WEEKDAY rest conf else (rest, conf))
                   in if name = ''HOLIDAYFILE_VERSION1'' then Some (hol_index, conf1)
                      else if name = ''YEAR'' then
                        (case strtok blanks rest1 of
                           None \<Rightarrow> Some (hol_index, conf1)
                         | Some (tok, _) \<Rightarrow>
                             (let (n, e) = strtol tok
                              in Some (hol_index, if e \<noteq> [] then conf1 else conf1\<lparr>cf_holiday_year := to_sint n\<rparr>)))
                      else if name = ''saturday'' then Some (hol_index, snd (load_times SATURDAY rest1 conf1))
                      else if name = ''sunday'' then Some (hol_index, snd (load_times SUNDAY rest1 conf1))
                      else if name = ''weekday'' then Some (hol_index, snd (load_times WEEKDAY rest1 conf1))
                      else map_option (\<lambda>hs. (hol_index + 1, conf1\<lparr>cf_holidays := hs\<rparr>))
                             (vec_set (cf_holidays conf1) hol_index (to_sint (fst (strtol name)))))))"

fun holidays_lines :: "string list \<Rightarrow> nat \<times> config \<Rightarrow> (nat \<times> config) option" where
  "holidays_lines [] st = Some st"
| "holidays_lines (l # ls) st = (case holidays_line l st of None \<Rightarrow> None | Some st' \<Rightarrow> holidays_lines ls st')"

definition parse_holidays :: "string list option \<Rightarrow> config \<Rightarrow> config option" where
  "parse_holidays file conf =
     (case file of
        None \<Rightarrow> Some conf
      | Some lines \<Rightarrow>
          map_option (\<lambda>(hol_index, c). c\<lparr>cf_num_holidays := int hol_index + 1\<rparr>) (holidays_lines lines (0, conf)))"

section \<open>Dedicated time\<close>

definition is_ded_time :: "config \<Rightarrow> int \<Rightarrow> bool" where
  "is_ded_time conf now = (now > tg_from (hd (cf_ded_time conf)) \<and> now < tg_to (hd (cf_ded_time conf)))"

definition cmp_ded_time :: "timegap \<Rightarrow> timegap \<Rightarrow> int" where
  "cmp_ded_time v1 v2 =
     (if tg_from v1 = 0 \<and> tg_from v2 \<noteq> 0 then 1
      else if tg_from v2 = 0 \<and> tg_from v1 \<noteq> 0 then - 1
      else if tg_from v1 > tg_from v2 then 1
      else if tg_from v1 < tg_from v2 then - 1
      else 0)"

text \<open>\<open>qsort\<close>; the order of equal elements is not specified by C and is the original one here.\<close>

definition sort_ded_time :: "timegap list \<Rightarrow> timegap list" where
  "sort_ded_time gaps = sort_by (\<lambda>a b. cmp_ded_time a b < 0) gaps"

text \<open>\<open>sscanf\<close> with the directives the source uses; the values converted before the first mismatch.\<close>

datatype scan_item = Scan_Int | Scan_Char char | Scan_Space

fun sscanf :: "scan_item list \<Rightarrow> string \<Rightarrow> int list" where
  "sscanf [] s = []"
| "sscanf (Scan_Int # fs) s =
     (let (n, rest) = strtol s in if rest = s then [] else to_sint n # sscanf fs rest)"
| "sscanf (Scan_Char c # fs) s = (if s \<noteq> [] \<and> hd s = c then sscanf fs (tl s) else [])"
| "sscanf (Scan_Space # fs) s = sscanf fs (dropWhile isspace s)"

definition ded_format :: "scan_item list" where
  "ded_format =
     (let date = [Scan_Int, Scan_Char (CHR ''/''), Scan_Int, Scan_Char (CHR ''/''), Scan_Int, Scan_Space,
                  Scan_Int, Scan_Char (CHR '':''), Scan_Int]
      in date @ [Scan_Space] @ date)"

definition tm_of :: "int \<Rightarrow> int \<Rightarrow> int \<Rightarrow> int \<Rightarrow> int \<Rightarrow> tm" where
  "tm_of mon mday year hour mins =
     \<lparr>tm_min = mins, tm_hour = hour, tm_mday = mday, tm_mon = mon, tm_year = year, tm_wday = 0, tm_yday = 0\<rparr>"

text \<open>The year of the start is corrected from two digits; the year of the end only from four.\<close>

definition from_year :: "int \<Rightarrow> int" where
  "from_year y = (let y1 = (if y < 90 then y + 100 else y) in if y1 > 1900 then y1 - 1900 else y1)"

definition to_year :: "int \<Rightarrow> int" where
  "to_year y = (if y > 1900 then y - 1900 else y)"

definition ded_line :: "(tm \<Rightarrow> int) \<Rightarrow> string \<Rightarrow> timegap option" where
  "ded_line mktime line =
     (case sscanf ded_format line of
        [mon1, day1, year1, hour1, min1, mon2, day2, year2, hour2, min2] \<Rightarrow>
          Some \<lparr>tg_from = mktime (tm_of (mon1 - 1) day1 (from_year year1) hour1 min1),
                tg_to = mktime (tm_of (mon2 - 1) day2 (to_year year2) hour2 min2)\<rparr>
      | _ \<Rightarrow> None)"

text \<open>\<open>None\<close>: more intervals than the array holds.\<close>

fun ded_lines :: "(tm \<Rightarrow> int) \<Rightarrow> int \<Rightarrow> string list \<Rightarrow> nat \<Rightarrow> timegap list \<Rightarrow> timegap list option" where
  "ded_lines mktime now [] i gaps = Some gaps"
| "ded_lines mktime now (l # ls) i gaps =
     (if skip_line l then ded_lines mktime now ls i gaps
      else case ded_line mktime l of
             None \<Rightarrow> ded_lines mktime now ls i gaps
           | Some g \<Rightarrow>
               (if tg_from g < now \<and> tg_to g < now then ded_lines mktime now ls i gaps
                else case vec_set gaps i g of None \<Rightarrow> None | Some gaps' \<Rightarrow> ded_lines mktime now ls (i + 1) gaps'))"

text \<open>
  \<open>memset(conf.ded_time, 0, MAX_DEDTIME_SIZE)\<close> clears 50 bytes: the first three intervals of 16 bytes and the two low
  bytes of the start of the fourth.
\<close>

definition clear_ded_time :: "timegap list \<Rightarrow> timegap list" where
  "clear_ded_time gaps =
     replicate (min 3 (length gaps)) \<lparr>tg_from = 0, tg_to = 0\<rparr> @
     (case drop 3 gaps of [] \<Rightarrow> [] | g # gs \<Rightarrow> g\<lparr>tg_from := tg_from g div 65536 * 65536\<rparr> # gs)"

definition parse_ded_file :: "(tm \<Rightarrow> int) \<Rightarrow> int \<Rightarrow> string list option \<Rightarrow> config \<Rightarrow> (int \<times> config) option" where
  "parse_ded_file mktime now file conf =
     (case file of
        None \<Rightarrow> Some (1, conf)
      | Some lines \<Rightarrow>
          map_option (\<lambda>gaps. (0, conf\<lparr>cf_ded_time := sort_ded_time gaps\<rparr>))
            (ded_lines mktime now lines 0 (clear_ded_time (cf_ded_time conf))))"

section \<open>The start of a cycle\<close>

definition update_cycle_status :: "(int \<Rightarrow> tm) \<Rightarrow> int \<Rightarrow> config \<times> status \<times> int \<Rightarrow> config \<times> status \<times> int" where
  "update_cycle_status localtime now = (\<lambda>(conf, cstat, last_day).
     (let c1 = cstat\<lparr>cs_current_time := now\<rparr>;
          dedtime = is_ded_time conf now;
          conf1 = (if cs_is_ded_time c1 \<and> \<not> dedtime
                   then conf\<lparr>cf_ded_time := sort_ded_time ((cf_ded_time conf)[0 := \<lparr>tg_from = 0, tg_to = 0\<rparr>])\<rparr> else conf);
          c2 = c1\<lparr>cs_is_ded_time := dedtime\<rparr>;
          (prime, day) = is_prime_time conf1 (localtime now) last_day;
          c3 = (if prime = PRIME \<and> \<not> cs_is_prime c2 then init_prime_time conf1 c2
                else if prime = NON_PRIME \<and> cs_is_prime c2 then init_non_prime_time conf1 c2
                else c2)
      in (conf1, c3, day)))"

section \<open>Dedicated times stay in order\<close>

definition ded_key :: "timegap \<Rightarrow> bool \<times> int" where
  "ded_key g = (tg_from g = 0, tg_from g)"

interpretation ded_order: keyed_order "\<lambda>a b. cmp_ded_time a b < 0" ded_key
  by unfold_locales (auto simp: cmp_ded_time_def ded_key_def)

definition ded_sorted :: "timegap list \<Rightarrow> bool" where
  "ded_sorted gaps \<longleftrightarrow> sorted_wrt (\<lambda>a b. \<not> cmp_ded_time b a < 0) gaps"

lemma ded_sorted_sort: "ded_sorted (sort_ded_time gaps)"
  unfolding ded_sorted_def sort_ded_time_def by (rule ded_order.sorted_sort_by)

lemma mset_sort_ded_time [simp]: "mset (sort_ded_time gaps) = mset gaps"
  by (simp add: sort_ded_time_def)

text \<open>The first interval of a sorted array is the earliest one that is set.\<close>

lemma ded_first:
  assumes "ded_sorted gaps" and "g \<in> set gaps" and "tg_from g \<noteq> 0"
  shows "tg_from (hd gaps) \<noteq> 0 \<and> tg_from (hd gaps) \<le> tg_from g"
proof -
  obtain x xs where g: "gaps = x # xs" using assms(2) by (cases gaps) auto
  then have "g = x \<or> \<not> cmp_ded_time g x < 0" using assms(1,2) by (auto simp: ded_sorted_def)
  then show ?thesis using assms(3) g by (auto simp: cmp_ded_time_def split: if_splits)
qed

lemma update_cycle_ded_sorted:
  assumes "ded_sorted (cf_ded_time conf)" and "update_cycle_status localtime now (conf, cstat, d) = (conf', cstat', d')"
  shows "ded_sorted (cf_ded_time conf') \<and> cs_is_ded_time cstat' = is_ded_time conf now \<and> cs_current_time cstat' = now"
  using assms ded_sorted_sort
  by (auto simp: update_cycle_status_def Let_def init_prime_time_def init_non_prime_time_def split: prod.splits if_splits)

text \<open>When a dedicated time has passed, its interval is dropped and the next one comes to the front.\<close>

lemma passed_ded_time_dropped:
  assumes "cs_is_ded_time cstat" and "\<not> is_ded_time conf now" and "cf_ded_time conf \<noteq> []"
    and "update_cycle_status localtime now (conf, cstat, d) = (conf', cstat', d')"
  shows "mset (cf_ded_time conf') = add_mset \<lparr>tg_from = 0, tg_to = 0\<rparr> (mset (tl (cf_ded_time conf)))"
proof -
  have "cf_ded_time conf' = sort_ded_time ((cf_ded_time conf)[0 := \<lparr>tg_from = 0, tg_to = 0\<rparr>])"
    using assms(1,2,4) by (auto simp: update_cycle_status_def Let_def split: prod.splits if_splits)
  then show ?thesis using assms(3) by (cases "cf_ded_time conf") auto
qed

text \<open>What the file leaves in the array.\<close>

lemma ded_lines_spec:
  "ded_lines mktime now ls i gaps = Some gaps' \<Longrightarrow>
     length gaps' = length gaps \<and> take i gaps' = take i gaps \<and>
     (\<forall>g \<in> set gaps'. g \<in> set gaps \<or> \<not> (tg_from g < now \<and> tg_to g < now))"
proof (induction ls arbitrary: i gaps gaps')
  case (Cons l ls)
  show ?case
  proof (cases "skip_line l \<or> ded_line mktime l = None")
    case True
    then have "ded_lines mktime now ls i gaps = Some gaps'" using Cons.prems by (auto split: if_splits option.splits)
    then show ?thesis by (rule Cons.IH)
  next
    case False
    then obtain g where g: "ded_line mktime l = Some g" "\<not> skip_line l" by auto
    show ?thesis
    proof (cases "tg_from g < now \<and> tg_to g < now")
      case True
      then have "ded_lines mktime now ls i gaps = Some gaps'" using Cons.prems g by simp
      then show ?thesis by (rule Cons.IH)
    next
      case later: False
      then obtain gaps1 where v: "vec_set gaps i g = Some gaps1" "ded_lines mktime now ls (i + 1) gaps1 = Some gaps'"
        using g Cons.prems by (auto split: option.splits)
      have g1: "gaps1 = gaps[i := g]" "i < length gaps" using v(1) by (auto simp: vec_set_def split: if_splits)
      note ih = Cons.IH[OF v(2)]
      have "take i gaps' = take i (take (i + 1) gaps')" by simp
      also have "\<dots> = take i gaps" using ih g1 by (simp add: min_def)
      finally show ?thesis using ih g1 set_update_subset_insert[of gaps i g] later by auto
    qed
  qed
qed simp

section \<open>Prime time\<close>

text \<open>Between the start hours of prime and non-prime time, minutes count only in the first hour.\<close>

lemma check_prime_interval:
  assumes "t_hour (cf_prime conf d PRIME) < t_hour (cf_prime conf d NON_PRIME)" and "0 \<le> tm_min t" "tm_min t < 60"
  shows "check_prime conf d t = PRIME \<longleftrightarrow>
     int (t_hour (cf_prime conf d PRIME)) * 60 + int (t_min (cf_prime conf d PRIME)) < tm_hour t * 60 + tm_min t \<and>
     tm_hour t < int (t_hour (cf_prime conf d NON_PRIME)) \<and> (int (t_hour (cf_prime conf d PRIME)) \<le> tm_hour t)
   \<or> int (t_hour (cf_prime conf d PRIME)) < tm_hour t \<and> tm_hour t < int (t_hour (cf_prime conf d NON_PRIME))"
  using assms by (auto simp: check_prime_def Let_def)

text \<open>The holidays are looked up once a day: a second call on the same day does not find a holiday again.\<close>

lemma holiday_forgotten:
  assumes "cf_holiday_year conf \<noteq> 0" and "tm_year t \<le> cf_holiday_year conf" and "last_day < tm_yday t"
    and "is_holiday conf (tm_yday t + 1)" and "is_prime_time conf t last_day = (r, day)"
  shows "r = NON_PRIME \<and> day = tm_yday t \<and>
    fst (is_prime_time conf t day) =
      check_prime conf (if tm_wday t = 0 then SUNDAY else if tm_wday t = 6 then SATURDAY else WEEKDAY) t"
  using assms by (auto simp: is_prime_time_def Let_def split: if_splits)

lemma load_day_reads:
  assumes "strtol w = (n, [])" and "0 \<le> n" "n < 2400" "n mod 100 < 60" and "w \<notin> {''all'', ''ALL'', ''none'', ''NONE''}"
  shows "load_day d pr (Some w) conf =
     (0, set_prime d pr (\<lambda>x. x\<lparr>t_hour := nat (n div 100), t_min := nat (n mod 100)\<rparr>) conf)"
proof -
  have "to_sint n = n" using assms(2,3) by (simp add: to_sint_def)
  moreover have "c_mod n 100 = n mod 100" using assms(2) by (simp add: c_mod_def c_div_def minus_div_mult_eq_mod)
  moreover have "n div 100 mod 32 = n div 100" using assms(2,3) by simp
  moreover have "n mod 100 mod 64 = n mod 100" using assms(4) by (simp add: mod_pos_pos_trivial)
  ultimately show ?thesis using assms by (simp add: load_day_def c_div_def)
qed

end
