(* ===== verification/ServerInfo.thy ===== *)
theory ServerInfo
  imports Assign Times Fairshare
begin

text \<open>
  The server and its queues as the scheduling cycle sees them: \<open>src/ServerInfo.cpp\<close>, the member functions of
  \<open>queue_info\<close> in \<open>src/queue_info.cpp\<close> and the counting functions of \<open>src/check.cpp\<close>.  Jobs are shared by the server
  and the queues, so they live in a table and the vectors hold indices into it.  The numbers of running jobs and cores
  per user and group are kept in caches that are filled on demand and updated when a job starts; the locale
  \<open>counter_cache\<close> states what a cache promises and is interpreted for each of them.
\<close>

section \<open>State\<close>

record queue_state =
  qs_info :: queue_info
  qs_sc :: state_count
  qs_jobs :: "nat list"
  qs_running_jobs :: "nat list"
  qs_jobs_by_group :: "string \<Rightarrow> int option"
  qs_jobs_by_user :: "string \<Rightarrow> int option"
  qs_cores_by_group :: "string \<Rightarrow> int option"
  qs_cores_by_user :: "string \<Rightarrow> int option"
  qs_running_cores :: "int option"
  qs_is_ok_to_run :: bool
  qs_excl_nodes :: "nat list"
  qs_queue_cost :: rat
  qs_fairshare_tree :: string
  qs_is_route :: bool
  qs_required_property :: "string option"

text \<open>\<open>exec_count\<close> is only used with \<open>operator[]\<close>: a missing entry is 0.\<close>

record server_info =
  si_name :: string
  si_world :: world
  si_nodes :: "nat list"
  si_non_dedicated_nodes :: "nat list"
  si_job_tab :: "job_info list"
  si_job_queue :: "nat list"
  si_queues :: "queue_state list"
  si_jobs :: "nat list"
  si_running_jobs :: "nat list"
  si_sc :: state_count
  si_max_run :: int
  si_max_user_run :: int
  si_max_group_run :: int
  si_jobs_by_group :: "string \<Rightarrow> int option"
  si_jobs_by_user :: "string \<Rightarrow> int option"
  si_exec_count :: "string \<Rightarrow> int"
  si_jobs_by_owner :: "(string \<times> nat list) list"

definition job_at :: "server_info \<Rightarrow> nat \<Rightarrow> job_info" where
  "job_at s j = si_job_tab s ! j"

lemma job_at_fun: "job_at s = (!) (si_job_tab s)"
  by (rule ext) (simp add: job_at_def)

definition upd_job :: "nat \<Rightarrow> (job_info \<Rightarrow> job_info) \<Rightarrow> server_info \<Rightarrow> server_info" where
  "upd_job j f s = s\<lparr>si_job_tab := (si_job_tab s)[j := f (si_job_tab s ! j)]\<rparr>"

lemma job_at_upd_job: "job_at (upd_job j f s) i = (if i = j \<and> j < length (si_job_tab s) then f (job_at s j) else job_at s i)"
  by (cases "j < length (si_job_tab s)") (simp_all add: job_at_def upd_job_def nth_list_update list_update_beyond)

definition queue_at :: "server_info \<Rightarrow> nat \<Rightarrow> queue_state" where
  "queue_at s q = si_queues s ! q"

definition upd_queue :: "nat \<Rightarrow> (queue_state \<Rightarrow> queue_state) \<Rightarrow> server_info \<Rightarrow> server_info" where
  "upd_queue q f s = s\<lparr>si_queues := (si_queues s)[q := f (si_queues s ! q)]\<rparr>"

definition queue_of :: "server_info \<Rightarrow> nat \<Rightarrow> queue_state" where
  "queue_of s j = queue_at s (si_job_queue s ! j)"

section \<open>Counting\<close>

definition count_by_user :: "job_info list \<Rightarrow> string \<Rightarrow> int" where
  "count_by_user jobs user = int (length (filter (\<lambda>i. ji_account i = user) jobs))"

definition count_by_group :: "job_info list \<Rightarrow> string \<Rightarrow> int" where
  "count_by_group jobs grp = int (length (filter (\<lambda>i. ji_group i = grp) jobs))"

definition job_procs :: "(string \<Rightarrow> pars_spec) \<Rightarrow> job_info \<Rightarrow> int" where
  "job_procs parse j = int (sp_total_procs (job_spec parse j))"

text \<open>
  The cores of the running jobs of a queue that satisfy a condition, added up in an \<open>int\<close>.  \<open>None\<close> is the failed
  precondition that the counter of running jobs equals the number of running jobs.
\<close>

definition count_procs :: "(string \<Rightarrow> pars_spec) \<Rightarrow> (job_info \<Rightarrow> bool) \<Rightarrow> job_info list \<Rightarrow> int" where
  "count_procs parse P jobs = to_sint (sum_list (map (job_procs parse) (filter P jobs)))"

definition queue_running :: "server_info \<Rightarrow> queue_state \<Rightarrow> job_info list" where
  "queue_running s q = map (job_at s) (qs_running_jobs q)"

definition count_queue_procs :: "(string \<Rightarrow> pars_spec) \<Rightarrow> server_info \<Rightarrow> queue_state \<Rightarrow> int option" where
  "count_queue_procs parse s q =
     (if sc_running (qs_sc q) = int (length (qs_running_jobs q))
      then Some (count_procs parse (\<lambda>_. True) (queue_running s q)) else None)"

definition count_queue_user_procs :: "(string \<Rightarrow> pars_spec) \<Rightarrow> server_info \<Rightarrow> queue_state \<Rightarrow> string \<Rightarrow> int option" where
  "count_queue_user_procs parse s q account =
     (if sc_running (qs_sc q) = int (length (qs_running_jobs q))
      then Some (count_procs parse (\<lambda>j. ji_account j = account) (queue_running s q)) else None)"

definition count_queue_group_procs :: "(string \<Rightarrow> pars_spec) \<Rightarrow> server_info \<Rightarrow> queue_state \<Rightarrow> string \<Rightarrow> int option" where
  "count_queue_group_procs parse s q grp =
     (if sc_running (qs_sc q) = int (length (qs_running_jobs q))
      then Some (count_procs parse (\<lambda>j. ji_group j = grp) (queue_running s q)) else None)"

section \<open>Caches\<close>

text \<open>Reading through a cache: the value, and the cache in which it is now present.\<close>

definition cached :: "('k \<Rightarrow> int option) \<Rightarrow> 'k \<Rightarrow> int \<Rightarrow> int \<times> ('k \<Rightarrow> int option)" where
  "cached c k v = (case c k of Some n \<Rightarrow> (n, c) | None \<Rightarrow> (v, c(k \<mapsto> v)))"

text \<open>A job starts: a cached value grows, a missing one is counted afresh.\<close>

definition bump :: "('k \<Rightarrow> int option) \<Rightarrow> 'k \<Rightarrow> int \<Rightarrow> int \<Rightarrow> 'k \<Rightarrow> int option" where
  "bump c k d v = (case c k of Some n \<Rightarrow> c(k \<mapsto> n + d) | None \<Rightarrow> c(k \<mapsto> v))"

text \<open>A cache is right when every value it holds is the count.\<close>

definition cache_ok :: "('k \<Rightarrow> int option) \<Rightarrow> ('k \<Rightarrow> int) \<Rightarrow> bool" where
  "cache_ok c f \<longleftrightarrow> (\<forall>k n. c k = Some n \<longrightarrow> n = f k)"

locale counter_cache =
  fixes count :: "'j list \<Rightarrow> 'k \<Rightarrow> int" and key :: "'j \<Rightarrow> 'k" and weight :: "'j \<Rightarrow> int"
  assumes count_snoc: "count (js @ [j]) k = count js k + (if k = key j then weight j else 0)"
begin

lemma cached_value: "cache_ok c (count js) \<Longrightarrow> fst (cached c k (count js k)) = count js k"
  by (auto simp: cache_ok_def cached_def split: option.split)

lemma cached_ok: "cache_ok c (count js) \<Longrightarrow> cache_ok (snd (cached c k (count js k))) (count js)"
  by (auto simp: cache_ok_def cached_def split: option.split)

lemma bump_ok:
  "cache_ok c (count js) \<Longrightarrow> cache_ok (bump c (key j) (weight j) (count (js @ [j]) (key j))) (count (js @ [j]))"
  by (auto simp: cache_ok_def bump_def count_snoc split: option.split)

end

interpretation users: counter_cache count_by_user ji_account "\<lambda>_. 1"
  by unfold_locales (simp add: count_by_user_def)

interpretation groups_count: counter_cache count_by_group ji_group "\<lambda>_. 1"
  by unfold_locales (simp add: count_by_group_def)

text \<open>Cores are counted in an \<open>int\<close>: the law holds for the number before it is cut to 32 bits.\<close>

definition procs_by :: "(string \<Rightarrow> pars_spec) \<Rightarrow> (job_info \<Rightarrow> 'k) \<Rightarrow> job_info list \<Rightarrow> 'k \<Rightarrow> int" where
  "procs_by parse key jobs k = sum_list (map (job_procs parse) (filter (\<lambda>j. key j = k) jobs))"

interpretation cores_by: counter_cache "procs_by parse key" key "job_procs parse" for parse key
  by unfold_locales (auto simp: procs_by_def)

section \<open>Operations of the server\<close>

definition server_running :: "server_info \<Rightarrow> job_info list" where
  "server_running s = map (job_at s) (si_running_jobs s)"

definition number_of_running_jobs_for_user :: "string \<Rightarrow> server_info \<Rightarrow> int \<times> server_info" where
  "number_of_running_jobs_for_user username s =
     (let (n, c) = cached (si_jobs_by_user s) username (count_by_user (server_running s) username)
      in (n, s\<lparr>si_jobs_by_user := c\<rparr>))"

definition number_of_running_jobs_for_group :: "string \<Rightarrow> server_info \<Rightarrow> int \<times> server_info" where
  "number_of_running_jobs_for_group groupname s =
     (let (n, c) = cached (si_jobs_by_group s) groupname (count_by_group (server_running s) groupname)
      in (n, s\<lparr>si_jobs_by_group := c\<rparr>))"

text \<open>\<open>server_info::update_on_job_run\<close>: the job is booked on every node that carries an assignment.\<close>

definition plan_assigned :: "env \<Rightarrow> job_info \<Rightarrow> nat list \<Rightarrow> world \<Rightarrow> world" where
  "plan_assigned ev job nodes w =
     fold (\<lambda>a w. case ja_nodespec (ni_assign (node_at w a)) of
                   None \<Rightarrow> w | Some spec \<Rightarrow> plan_on_node ev job a spec w) nodes w"

definition started :: "state_count \<Rightarrow> state_count" where
  "started c = c\<lparr>sc_running := sc_running c + 1, sc_queued := sc_queued c - 1\<rparr>"

definition update_on_job_run :: "env \<Rightarrow> nat \<Rightarrow> server_info \<Rightarrow> server_info" where
  "update_on_job_run ev j s =
     (let job = job_at s j;
          s1 = s\<lparr>si_sc := started (si_sc s),
                 si_world := plan_assigned ev job (si_nodes s) (plan_on_server job (si_world s)),
                 si_running_jobs := si_running_jobs s @ [j]\<rparr>
      in s1\<lparr>si_jobs_by_group := bump (si_jobs_by_group s1) (ji_group job) 1
              (count_by_group (server_running s1) (ji_group job)),
            si_jobs_by_user := bump (si_jobs_by_user s1) (ji_account job) 1
              (count_by_user (server_running s1) (ji_account job))\<rparr>)"

text \<open>\<open>regenerate_jobs_by_owner\<close>: the jobs of each owner by queue priority, job priority and identifier.\<close>

definition owner_before :: "server_info \<Rightarrow> nat \<Rightarrow> nat \<Rightarrow> bool" where
  "owner_before s l r =
     (let lq = qi_priority (qs_info (queue_of s l)); rq = qi_priority (qs_info (queue_of s r))
      in if lq > rq then True
         else if lq < rq then False
         else if ji_priority (job_at s l) > ji_priority (job_at s r) then True
         else if ji_priority (job_at s l) < ji_priority (job_at s r) then False
         else ji_job_id (job_at s l) < ji_job_id (job_at s r))"

fun add_owned :: "string \<Rightarrow> nat \<Rightarrow> (string \<times> nat list) list \<Rightarrow> (string \<times> nat list) list" where
  "add_owned owner j [] = [(owner, [j])]"
| "add_owned owner j ((o', js) # rest) =
     (if o' = owner then (o', js @ [j]) # rest else (o', js) # add_owned owner j rest)"

definition regenerate_jobs_by_owner :: "server_info \<Rightarrow> server_info" where
  "regenerate_jobs_by_owner s =
     s\<lparr>si_jobs_by_owner :=
         map (\<lambda>(o', js). (o', sort_by (owner_before s) js))
           (fold (\<lambda>j. add_owned (ji_account (job_at s j)) j) (si_jobs s) [])\<rparr>"

section \<open>Operations of a queue\<close>

definition queue_jobs_for_user :: "nat \<Rightarrow> string \<Rightarrow> server_info \<Rightarrow> int \<times> server_info" where
  "queue_jobs_for_user q username s =
     (let (n, c) = cached (qs_jobs_by_user (queue_at s q)) username (count_by_user (queue_running s (queue_at s q)) username)
      in (n, upd_queue q (\<lambda>x. x\<lparr>qs_jobs_by_user := c\<rparr>) s))"

definition queue_jobs_for_group :: "nat \<Rightarrow> string \<Rightarrow> server_info \<Rightarrow> int \<times> server_info" where
  "queue_jobs_for_group q groupname s =
     (let (n, c) = cached (qs_jobs_by_group (queue_at s q)) groupname (count_by_group (queue_running s (queue_at s q)) groupname)
      in (n, upd_queue q (\<lambda>x. x\<lparr>qs_jobs_by_group := c\<rparr>) s))"

definition number_of_running_cores :: "(string \<Rightarrow> pars_spec) \<Rightarrow> nat \<Rightarrow> server_info \<Rightarrow> (int \<times> server_info) option" where
  "number_of_running_cores parse q s =
     (case qs_running_cores (queue_at s q) of
        Some n \<Rightarrow> Some (n, s)
      | None \<Rightarrow> map_option (\<lambda>n. (n, upd_queue q (\<lambda>x. x\<lparr>qs_running_cores := Some n\<rparr>) s))
                  (count_queue_procs parse s (queue_at s q)))"

text \<open>
  The two functions below look a key up in the cache of cores and insert a missing count into the cache of
  jobs; when the key is there already, the insertion does nothing and the number of jobs is returned.
\<close>

definition number_of_running_cores_for_group ::
    "(string \<Rightarrow> pars_spec) \<Rightarrow> nat \<Rightarrow> string \<Rightarrow> server_info \<Rightarrow> (int \<times> server_info) option" where
  "number_of_running_cores_for_group parse q grp s =
     (case qs_cores_by_group (queue_at s q) grp of
        Some n \<Rightarrow> Some (n, s)
      | None \<Rightarrow>
          map_option (\<lambda>n. let (v, c) = cached (qs_jobs_by_group (queue_at s q)) grp n
                          in (v, upd_queue q (\<lambda>x. x\<lparr>qs_jobs_by_group := c\<rparr>) s))
            (count_queue_group_procs parse s (queue_at s q) grp))"

definition number_of_running_cores_for_user ::
    "(string \<Rightarrow> pars_spec) \<Rightarrow> nat \<Rightarrow> string \<Rightarrow> server_info \<Rightarrow> (int \<times> server_info) option" where
  "number_of_running_cores_for_user parse q user s =
     (case qs_cores_by_user (queue_at s q) user of
        Some n \<Rightarrow> Some (n, s)
      | None \<Rightarrow>
          map_option (\<lambda>n. let (v, c) = cached (qs_jobs_by_user (queue_at s q)) user n
                          in (v, upd_queue q (\<lambda>x. x\<lparr>qs_jobs_by_user := c\<rparr>) s))
            (count_queue_user_procs parse s (queue_at s q) user))"

text \<open>\<open>queue_info::update_on_job_run\<close>; \<open>None\<close> is the failed precondition of the counting functions.\<close>

definition update_queue_on_job_run :: "(string \<Rightarrow> pars_spec) \<Rightarrow> nat \<Rightarrow> nat \<Rightarrow> server_info \<Rightarrow> server_info option" where
  "update_queue_on_job_run parse q j s =
     (let job = job_at s j; old = queue_at s q;
          q1 = old\<lparr>qs_sc := started (qs_sc old), qs_running_jobs := qs_running_jobs old @ [j]\<rparr>;
          q2 = q1\<lparr>qs_jobs_by_group := bump (qs_jobs_by_group q1) (ji_group job) 1
                    (count_by_group (queue_running s q1) (ji_group job)),
                  qs_jobs_by_user := bump (qs_jobs_by_user q1) (ji_account job) 1
                    (count_by_user (queue_running s q1) (ji_account job))\<rparr>
      in if (qs_running_cores q2 = None \<or> qs_cores_by_group q2 (ji_group job) = None \<or>
             qs_cores_by_user q2 (ji_account job) = None) \<and>
            sc_running (qs_sc q1) \<noteq> int (length (qs_running_jobs q1)) then None
         else
           Some (upd_queue q (\<lambda>_. q2\<lparr>
             qs_running_cores := Some (case qs_running_cores q2 of
                 Some n \<Rightarrow> n + job_procs parse job
               | None \<Rightarrow> count_procs parse (\<lambda>_. True) (queue_running s q1)),
             qs_cores_by_group := bump (qs_cores_by_group q2) (ji_group job) (job_procs parse job)
               (count_procs parse (\<lambda>x. ji_group x = ji_group job) (queue_running s q1)),
             qs_cores_by_user := bump (qs_cores_by_user q2) (ji_account job) (job_procs parse job)
               (count_procs parse (\<lambda>x. ji_account x = ji_account job) (queue_running s q1))\<rparr>) s))"

definition update_queue_on_move :: "nat \<Rightarrow> nat \<Rightarrow> server_info \<Rightarrow> server_info" where
  "update_queue_on_move q j s =
     upd_queue (si_job_queue s ! j) (\<lambda>x. x\<lparr>qs_sc := (qs_sc x)\<lparr>sc_queued := sc_queued (qs_sc x) - 1\<rparr>\<rparr>)
       (upd_queue q (\<lambda>x. x\<lparr>qs_sc := (qs_sc x)\<lparr>sc_running := sc_running (qs_sc x) + 1\<rparr>\<rparr>) s)"

section \<open>The invariant\<close>

definition queue_ok :: "server_info \<Rightarrow> queue_state \<Rightarrow> bool" where
  "queue_ok s q \<longleftrightarrow>
     sc_running (qs_sc q) = int (length (qs_running_jobs q)) \<and>
     cache_ok (qs_jobs_by_user q) (count_by_user (queue_running s q)) \<and>
     cache_ok (qs_jobs_by_group q) (count_by_group (queue_running s q))"

definition server_ok :: "server_info \<Rightarrow> bool" where
  "server_ok s \<longleftrightarrow>
     sc_running (si_sc s) = int (length (si_running_jobs s)) \<and>
     cache_ok (si_jobs_by_user s) (count_by_user (server_running s)) \<and>
     cache_ok (si_jobs_by_group s) (count_by_group (server_running s)) \<and>
     (\<forall>q < length (si_queues s). queue_ok s (queue_at s q))"

text \<open>What the caches do not determine: the state without them.\<close>

definition bare_queue :: "queue_state \<Rightarrow> queue_state" where
  "bare_queue q = q\<lparr>qs_jobs_by_group := (\<lambda>_. None), qs_jobs_by_user := (\<lambda>_. None)\<rparr>"

definition bare_server :: "server_info \<Rightarrow> server_info" where
  "bare_server s =
     s\<lparr>si_jobs_by_group := (\<lambda>_. None), si_jobs_by_user := (\<lambda>_. None), si_queues := map bare_queue (si_queues s)\<rparr>"

definition same_counts :: "server_info \<Rightarrow> server_info \<Rightarrow> bool" where
  "same_counts s s' \<longleftrightarrow> bare_server s' = bare_server s \<and> (server_ok s \<longrightarrow> server_ok s')"

lemma same_counts_refl [simp]: "same_counts s s"
  by (simp add: same_counts_def)

lemma same_counts_trans [trans]: "same_counts s s' \<Longrightarrow> same_counts s' s'' \<Longrightarrow> same_counts s s''"
  by (simp add: same_counts_def)

lemma queue_at_upd: "q < length (si_queues s) \<Longrightarrow>
    queue_at (upd_queue q f s) p = (if p = q then f (queue_at s q) else queue_at s p)"
  by (simp add: queue_at_def upd_queue_def)

lemma upd_queue_fields [simp]:
  "si_job_tab (upd_queue q f s) = si_job_tab s" "si_running_jobs (upd_queue q f s) = si_running_jobs s"
  "si_sc (upd_queue q f s) = si_sc s" "si_world (upd_queue q f s) = si_world s"
  "si_jobs_by_user (upd_queue q f s) = si_jobs_by_user s" "si_jobs_by_group (upd_queue q f s) = si_jobs_by_group s"
  "length (si_queues (upd_queue q f s)) = length (si_queues s)" "si_exec_count (upd_queue q f s) = si_exec_count s"
  "si_job_queue (upd_queue q f s) = si_job_queue s" "si_max_run (upd_queue q f s) = si_max_run s"
  "si_max_user_run (upd_queue q f s) = si_max_user_run s" "si_max_group_run (upd_queue q f s) = si_max_group_run s"
  "si_nodes (upd_queue q f s) = si_nodes s" "si_jobs (upd_queue q f s) = si_jobs s"
  by (simp_all add: upd_queue_def)

lemma queue_running_tab: "si_job_tab s' = si_job_tab s \<Longrightarrow> queue_running s' q = queue_running s q"
  by (simp add: queue_running_def job_at_def)

lemma server_running_tab:
  "si_job_tab s' = si_job_tab s \<Longrightarrow> si_running_jobs s' = si_running_jobs s \<Longrightarrow> server_running s' = server_running s"
  by (simp add: server_running_def job_at_def)

lemma queue_ok_tab: "si_job_tab s' = si_job_tab s \<Longrightarrow> queue_ok s' q = queue_ok s q"
  using queue_running_tab[of s' s q] by (simp add: queue_ok_def)

lemma server_ok_caches:
  assumes "server_ok s" and "si_job_tab s' = si_job_tab s" "si_running_jobs s' = si_running_jobs s" "si_sc s' = si_sc s"
    "si_queues s' = si_queues s"
    and "cache_ok (si_jobs_by_user s') (count_by_user (server_running s))"
    and "cache_ok (si_jobs_by_group s') (count_by_group (server_running s))"
  shows "server_ok s'"
  using assms by (simp add: server_ok_def queue_at_def queue_ok_tab[OF assms(2)] server_running_tab[OF assms(2,3)])

text \<open>Reading a count gives the count and changes a cache only.\<close>

lemma running_jobs_for_user:
  assumes "server_ok s" and "number_of_running_jobs_for_user u s = (n, s')"
  shows "n = count_by_user (server_running s) u \<and> same_counts s s'"
proof -
  let ?c = "cached (si_jobs_by_user s) u (count_by_user (server_running s) u)"
  have c: "cache_ok (si_jobs_by_user s) (count_by_user (server_running s))" using assms(1) by (simp add: server_ok_def)
  have s': "s' = s\<lparr>si_jobs_by_user := snd ?c\<rparr>" "n = fst ?c"
    using assms(2) by (auto simp: number_of_running_jobs_for_user_def split: prod.splits)
  have "server_ok s'"
    by (rule server_ok_caches[OF assms(1)]) (use users.cached_ok[OF c, of u] assms(1) s' in \<open>simp_all add: server_ok_def\<close>)
  then show ?thesis using users.cached_value[OF c, of u] s' by (simp add: same_counts_def bare_server_def)
qed

lemma running_jobs_for_group:
  assumes "server_ok s" and "number_of_running_jobs_for_group u s = (n, s')"
  shows "n = count_by_group (server_running s) u \<and> same_counts s s'"
proof -
  let ?c = "cached (si_jobs_by_group s) u (count_by_group (server_running s) u)"
  have c: "cache_ok (si_jobs_by_group s) (count_by_group (server_running s))" using assms(1) by (simp add: server_ok_def)
  have s': "s' = s\<lparr>si_jobs_by_group := snd ?c\<rparr>" "n = fst ?c"
    using assms(2) by (auto simp: number_of_running_jobs_for_group_def split: prod.splits)
  have "server_ok s'"
    by (rule server_ok_caches[OF assms(1)]) (use groups_count.cached_ok[OF c, of u] assms(1) s' in \<open>simp_all add: server_ok_def\<close>)
  then show ?thesis using groups_count.cached_value[OF c, of u] s' by (simp add: same_counts_def bare_server_def)
qed

text \<open>A change of one queue that keeps it right and shows only in its caches.\<close>

lemma upd_queue_same_counts:
  assumes "q < length (si_queues s)" and "queue_ok s (queue_at s q) \<Longrightarrow> queue_ok s (f (queue_at s q))"
    and "bare_queue (f (queue_at s q)) = bare_queue (queue_at s q)"
  shows "same_counts s (upd_queue q f s)"
proof -
  have "map bare_queue ((si_queues s)[q := f (si_queues s ! q)]) = map bare_queue (si_queues s)"
    using assms(1,3) by (simp add: map_update queue_at_def) (metis length_map list_update_id nth_map)
  then have "bare_server (upd_queue q f s) = bare_server s" by (simp add: bare_server_def upd_queue_def)
  moreover have "server_ok (upd_queue q f s)" if "server_ok s"
    using that assms(1,2)
    by (auto simp: server_ok_def queue_at_upd queue_ok_tab[of "upd_queue q f s" s] server_running_tab[of "upd_queue q f s" s])
  ultimately show ?thesis by (simp add: same_counts_def)
qed

lemma queue_jobs_for_user_count:
  assumes "server_ok s" and "q < length (si_queues s)" and "queue_jobs_for_user q u s = (n, s')"
  shows "n = count_by_user (queue_running s (queue_at s q)) u \<and> same_counts s s'"
proof -
  let ?c = "cached (qs_jobs_by_user (queue_at s q)) u (count_by_user (queue_running s (queue_at s q)) u)"
  have c: "cache_ok (qs_jobs_by_user (queue_at s q)) (count_by_user (queue_running s (queue_at s q)))"
    using assms(1,2) by (simp add: server_ok_def queue_ok_def)
  have s': "s' = upd_queue q (\<lambda>x. x\<lparr>qs_jobs_by_user := snd ?c\<rparr>) s" "n = fst ?c"
    using assms(3) by (auto simp: queue_jobs_for_user_def split: prod.splits)
  have "same_counts s s'" unfolding s'
    by (rule upd_queue_same_counts[OF assms(2)])
      (use users.cached_ok[OF c, of u] in \<open>simp_all add: queue_ok_def queue_running_def bare_queue_def\<close>)
  then show ?thesis using users.cached_value[OF c, of u] s'(2) by simp
qed

lemma queue_jobs_for_group_count:
  assumes "server_ok s" and "q < length (si_queues s)" and "queue_jobs_for_group q u s = (n, s')"
  shows "n = count_by_group (queue_running s (queue_at s q)) u \<and> same_counts s s'"
proof -
  let ?c = "cached (qs_jobs_by_group (queue_at s q)) u (count_by_group (queue_running s (queue_at s q)) u)"
  have c: "cache_ok (qs_jobs_by_group (queue_at s q)) (count_by_group (queue_running s (queue_at s q)))"
    using assms(1,2) by (simp add: server_ok_def queue_ok_def)
  have s': "s' = upd_queue q (\<lambda>x. x\<lparr>qs_jobs_by_group := snd ?c\<rparr>) s" "n = fst ?c"
    using assms(3) by (auto simp: queue_jobs_for_group_def split: prod.splits)
  have "same_counts s s'" unfolding s'
    by (rule upd_queue_same_counts[OF assms(2)])
      (use groups_count.cached_ok[OF c, of u] in \<open>simp_all add: queue_ok_def queue_running_def bare_queue_def\<close>)
  then show ?thesis using groups_count.cached_value[OF c, of u] s'(2) by simp
qed

section \<open>Starting a job keeps the counts right\<close>

lemma update_on_job_run_ok:
  assumes "server_ok s"
  shows "server_ok (update_on_job_run ev j s) \<and>
     server_running (update_on_job_run ev j s) = server_running s @ [job_at s j] \<and>
     si_queues (update_on_job_run ev j s) = si_queues s \<and> si_job_tab (update_on_job_run ev j s) = si_job_tab s"
proof -
  let ?s = "update_on_job_run ev j s"
  have frame: "si_job_tab ?s = si_job_tab s" "si_queues ?s = si_queues s" "si_running_jobs ?s = si_running_jobs s @ [j]"
    "sc_running (si_sc ?s) = sc_running (si_sc s) + 1"
    by (simp_all add: update_on_job_run_def started_def Let_def)
  have run: "server_running ?s = server_running s @ [job_at s j]"
    using frame(1,3) by (simp add: server_running_def job_at_def)
  have caches: "si_jobs_by_user ?s = bump (si_jobs_by_user s) (ji_account (job_at s j)) 1
        (count_by_user (server_running s @ [job_at s j]) (ji_account (job_at s j)))"
    "si_jobs_by_group ?s = bump (si_jobs_by_group s) (ji_group (job_at s j)) 1
        (count_by_group (server_running s @ [job_at s j]) (ji_group (job_at s j)))"
    by (simp_all add: update_on_job_run_def Let_def server_running_def job_at_fun)
  have "server_ok ?s"
    using assms users.bump_ok[of "si_jobs_by_user s" "server_running s" "job_at s j"]
      groups_count.bump_ok[of "si_jobs_by_group s" "server_running s" "job_at s j"]
    unfolding server_ok_def run caches frame(2,3,4) queue_at_def queue_ok_tab[OF frame(1)] by simp
  then show ?thesis using run frame by simp
qed

lemma update_queue_on_job_run_ok:
  assumes "server_ok s" and q: "q < length (si_queues s)"
  shows "\<exists>q'. update_queue_on_job_run parse q j s = Some (upd_queue q (\<lambda>_. q') s) \<and>
     server_ok (upd_queue q (\<lambda>_. q') s) \<and> qs_info q' = qs_info (queue_at s q) \<and> qs_jobs q' = qs_jobs (queue_at s q) \<and>
     qs_fairshare_tree q' = qs_fairshare_tree (queue_at s q) \<and>
     qs_running_jobs q' = qs_running_jobs (queue_at s q) @ [j] \<and>
     queue_running s q' = queue_running s (queue_at s q) @ [job_at s j]"
proof -
  let ?q = "queue_at s q" and ?job = "job_at s j"
  have ok: "queue_ok s ?q" using assms by (simp add: server_ok_def)
  then obtain q' where up: "update_queue_on_job_run parse q j s = Some (upd_queue q (\<lambda>_. q') s)"
    and info: "qs_info q' = qs_info ?q" "qs_running_jobs q' = qs_running_jobs ?q @ [j]"
      "qs_sc q' = started (qs_sc ?q)" "qs_jobs q' = qs_jobs ?q" "qs_fairshare_tree q' = qs_fairshare_tree ?q"
    and user: "qs_jobs_by_user q' = bump (qs_jobs_by_user ?q) (ji_account ?job) 1
        (count_by_user (queue_running s ?q @ [?job]) (ji_account ?job))"
    and grp: "qs_jobs_by_group q' = bump (qs_jobs_by_group ?q) (ji_group ?job) 1
        (count_by_group (queue_running s ?q @ [?job]) (ji_group ?job))"
    by (simp add: update_queue_on_job_run_def Let_def started_def queue_ok_def queue_running_def)
  have run: "queue_running s q' = queue_running s ?q @ [?job]" using info by (simp add: queue_running_def)
  have "queue_ok s q'"
    using ok users.bump_ok[of "qs_jobs_by_user ?q" "queue_running s ?q" ?job]
      groups_count.bump_ok[of "qs_jobs_by_group ?q" "queue_running s ?q" ?job]
    by (simp add: queue_ok_def run user grp info started_def)
  then have "server_ok (upd_queue q (\<lambda>_. q') s)"
    using assms by (auto simp: server_ok_def queue_at_upd queue_ok_tab[of "upd_queue q (\<lambda>_. q') s" s]
        server_running_tab[of "upd_queue q (\<lambda>_. q') s" s])
  then show ?thesis using up info run by blast
qed

text \<open>Counts depend on the owners and groups of jobs only.\<close>

lemma count_by_user_accounts: "map ji_account js = map ji_account js' \<Longrightarrow> count_by_user js = count_by_user js'"
proof
  fix u
  assume "map ji_account js = map ji_account js'"
  moreover have "count_by_user xs u = int (length (filter (\<lambda>a. a = u) (map ji_account xs)))" for xs
    by (simp add: count_by_user_def filter_map o_def)
  ultimately show "count_by_user js u = count_by_user js' u" by metis
qed

lemma count_by_group_groups: "map ji_group js = map ji_group js' \<Longrightarrow> count_by_group js = count_by_group js'"
proof
  fix u
  assume "map ji_group js = map ji_group js'"
  moreover have "count_by_group xs u = int (length (filter (\<lambda>a. a = u) (map ji_group xs)))" for xs
    by (simp add: count_by_group_def filter_map o_def)
  ultimately show "count_by_group js u = count_by_group js' u" by metis
qed

definition keeps_owner :: "server_info \<Rightarrow> server_info \<Rightarrow> bool" where
  "keeps_owner s s' \<longleftrightarrow>
     map ji_account (si_job_tab s') = map ji_account (si_job_tab s) \<and> map ji_group (si_job_tab s') = map ji_group (si_job_tab s) \<and>
     si_running_jobs s' = si_running_jobs s \<and> si_queues s' = si_queues s \<and> si_sc s' = si_sc s \<and>
     si_jobs_by_user s' = si_jobs_by_user s \<and> si_jobs_by_group s' = si_jobs_by_group s"

definition in_tab :: "server_info \<Rightarrow> bool" where
  "in_tab s \<longleftrightarrow> (\<forall>j \<in> set (si_running_jobs s). j < length (si_job_tab s)) \<and>
     (\<forall>q \<in> set (si_queues s). \<forall>j \<in> set (qs_running_jobs q). j < length (si_job_tab s))"

lemma map_nth_eq: "map f xs = map f ys \<Longrightarrow> i < length xs \<Longrightarrow> f (xs ! i) = f (ys ! i)"
  by (metis length_map nth_map)

lemma keeps_owner_counts:
  assumes "keeps_owner s s'" and "in_tab s"
  shows "count_by_user (server_running s') = count_by_user (server_running s)"
    and "count_by_group (server_running s') = count_by_group (server_running s)"
    and "q \<in> set (si_queues s) \<Longrightarrow> count_by_user (queue_running s' q) = count_by_user (queue_running s q)"
    and "q \<in> set (si_queues s) \<Longrightarrow> count_by_group (queue_running s' q) = count_by_group (queue_running s q)"
proof -
  have tab: "map ji_account (si_job_tab s') = map ji_account (si_job_tab s)"
    "map ji_group (si_job_tab s') = map ji_group (si_job_tab s)"
    using assms(1) by (simp_all add: keeps_owner_def)
  then have len: "length (si_job_tab s') = length (si_job_tab s)" using map_eq_imp_length_eq by blast
  have job: "ji_account (job_at s' j) = ji_account (job_at s j)" "ji_group (job_at s' j) = ji_group (job_at s j)"
    if "j < length (si_job_tab s)" for j
    using that tab len by (auto simp: job_at_def intro: map_nth_eq)
  show "count_by_user (server_running s') = count_by_user (server_running s)"
    "count_by_group (server_running s') = count_by_group (server_running s)"
    using assms job
    by (auto intro!: count_by_user_accounts count_by_group_groups simp: server_running_def keeps_owner_def in_tab_def)
  show "q \<in> set (si_queues s) \<Longrightarrow> count_by_user (queue_running s' q) = count_by_user (queue_running s q)"
    "q \<in> set (si_queues s) \<Longrightarrow> count_by_group (queue_running s' q) = count_by_group (queue_running s q)"
    using assms(2) job by (auto intro!: count_by_user_accounts count_by_group_groups simp: queue_running_def in_tab_def)
qed

lemma keeps_owner_ok:
  assumes "keeps_owner s s'" and "in_tab s" and "server_ok s" shows "server_ok s'"
  using assms keeps_owner_counts[OF assms(1,2)]
  by (auto simp: server_ok_def queue_ok_def queue_at_def keeps_owner_def)

lemma keeps_owner_upd_job:
  assumes "ji_account (f (job_at s j)) = ji_account (job_at s j)" "ji_group (f (job_at s j)) = ji_group (job_at s j)"
  shows "keeps_owner s (upd_job j f s)"
  using assms by (simp add: keeps_owner_def upd_job_def map_update job_at_def) (metis length_map list_update_beyond list_update_id map_update not_le nth_map)

section \<open>The jobs of an owner\<close>

definition owner_key :: "server_info \<Rightarrow> nat \<Rightarrow> int \<times> int \<times> string" where
  "owner_key s j = (- qi_priority (qs_info (queue_of s j)), - ji_priority (job_at s j), ji_job_id (job_at s j))"

interpretation owner_order: keyed_order "owner_before s" "owner_key s" for s
  by unfold_locales (auto simp: owner_before_def owner_key_def Let_def less_prod_def)

definition owned_by :: "server_info \<Rightarrow> (string \<times> nat list) list \<Rightarrow> bool" where
  "owned_by s m \<longleftrightarrow> distinct (map fst m) \<and> (\<forall>(o', js) \<in> set m. \<forall>j \<in> set js. ji_account (job_at s j) = o')"

lemma add_owned_fst: "fst ` set (add_owned owner j m) = insert owner (fst ` set m)"
  by (induction owner j m rule: add_owned.induct) (simp_all, blast)

lemma add_owned_ok: "owned_by s m \<Longrightarrow> owned_by s (add_owned (ji_account (job_at s j)) j m)"
proof (induction m)
  case (Cons x m)
  then have "owned_by s (add_owned (ji_account (job_at s j)) j m)" by (auto simp: owned_by_def)
  then show ?case using Cons.prems add_owned_fst[of "ji_account (job_at s j)" j m]
    by (cases x) (auto simp: owned_by_def)
qed (simp add: owned_by_def)

lemma add_owned_mset: "mset (concat (map snd (add_owned owner j m))) = add_mset j (mset (concat (map snd m)))"
  by (induction m) auto

lemma owned_jobs:
  "owned_by s m \<Longrightarrow>
     owned_by s (fold (\<lambda>j. add_owned (ji_account (job_at s j)) j) js m) \<and>
     mset (concat (map snd (fold (\<lambda>j. add_owned (ji_account (job_at s j)) j) js m))) = mset js + mset (concat (map snd m))"
proof (induction js arbitrary: m)
  case (Cons j js)
  from Cons.IH[OF add_owned_ok[OF Cons.prems, of j]] show ?case by (simp add: add_owned_mset del: mset_concat)
qed simp

lemma mset_concat_sorted: "mset (concat (map snd (map (\<lambda>(o', js). (o', sort_by lt js)) m))) = mset (concat (map snd m))"
  by (induction m) auto

text \<open>Every job is in the list of its owner, once, and the lists are in order.\<close>

lemma jobs_by_owner_spec:
  fixes s defines "m \<equiv> si_jobs_by_owner (regenerate_jobs_by_owner s)"
  shows "owned_by s m \<and> mset (concat (map snd m)) = mset (si_jobs s) \<and>
     (\<forall>(o', js) \<in> set m. sorted_wrt (\<lambda>a b. \<not> owner_before s b a) js)"
proof -
  let ?f = "fold (\<lambda>j. add_owned (ji_account (job_at s j)) j) (si_jobs s) []"
  have f: "owned_by s ?f" "mset (concat (map snd ?f)) = mset (si_jobs s)"
    using owned_jobs[of s "[]" "si_jobs s"] by (simp_all add: owned_by_def)
  have m: "m = map (\<lambda>(o', js). (o', sort_by (owner_before s) js)) ?f"
    by (simp add: m_def regenerate_jobs_by_owner_def)
  have "map fst m = map fst ?f" unfolding m by (simp add: o_def split_def)
  moreover have "\<forall>(o', js) \<in> set m. \<forall>j \<in> set js. ji_account (job_at s j) = o'"
    using f(1) by (auto simp: m owned_by_def)
  ultimately have "owned_by s m" using f(1) by (simp add: owned_by_def)
  moreover have "mset (concat (map snd m)) = mset (si_jobs s)" unfolding m mset_concat_sorted f(2) ..
  moreover have "\<forall>(o', js) \<in> set m. sorted_wrt (\<lambda>a b. \<not> owner_before s b a) js"
    using owner_order.sorted_sort_by by (auto simp: m)
  ultimately show ?thesis by blast
qed

end
