(* ===== verification/RunChecks.thy ===== *)
theory RunChecks
  imports ServerInfo
begin

text \<open>
  Whether a queue or a job may run now: \<open>src/check.cpp\<close> and \<open>cloud_check\<close> of \<open>src/misc.cpp\<close>.  The checks return 0 or a
  code and run in a fixed order; the ones that count running jobs go through the caches of the server and the queue
  and therefore return the state.  \<open>None\<close> is a failed precondition or a null pointer.
\<close>

section \<open>Codes and environment\<close>

definition QUEUE_NOT_STARTED :: int where "QUEUE_NOT_STARTED = RET_BASE + 4"
definition QUEUE_NOT_EXEC :: int where "QUEUE_NOT_EXEC = RET_BASE + 5"
definition QUEUE_JOB_LIMIT_REACHED :: int where "QUEUE_JOB_LIMIT_REACHED = RET_BASE + 6"
definition SERVER_JOB_LIMIT_REACHED :: int where "SERVER_JOB_LIMIT_REACHED = RET_BASE + 7"
definition SERVER_USER_LIMIT_REACHED :: int where "SERVER_USER_LIMIT_REACHED = RET_BASE + 8"
definition QUEUE_USER_LIMIT_REACHED :: int where "QUEUE_USER_LIMIT_REACHED = RET_BASE + 9"
definition SERVER_GROUP_LIMIT_REACHED :: int where "SERVER_GROUP_LIMIT_REACHED = RET_BASE + 10"
definition QUEUE_GROUP_LIMIT_REACHED :: int where "QUEUE_GROUP_LIMIT_REACHED = RET_BASE + 11"
definition DED_TIME :: int where "DED_TIME = RET_BASE + 12"
definition CROSS_DED_TIME_BOUNDRY :: int where "CROSS_DED_TIME_BOUNDRY = RET_BASE + 13"
definition QUEUE_IGNORED :: int where "QUEUE_IGNORED = RET_BASE + 18"
definition QUEUE_REMOTE_LOCAL :: int where "QUEUE_REMOTE_LOCAL = RET_BASE + 19"
definition CLUSTER_RUNNING :: int where "CLUSTER_RUNNING = RET_BASE + 23"
definition CLUSTER_PERMISSIONS :: int where "CLUSTER_PERMISSIONS = RET_BASE + 24"
definition INSUFICIENT_DYNAMIC_RESOURCE :: int where "INSUFICIENT_DYNAMIC_RESOURCE = RET_BASE + 27"
definition QUEUE_PROC_LIMIT_REACHED :: int where "QUEUE_PROC_LIMIT_REACHED = RET_BASE + 29"
definition QUEUE_USER_PROC_LIMIT_REACHED :: int where "QUEUE_USER_PROC_LIMIT_REACHED = RET_BASE + 30"
definition QUEUE_GROUP_PROC_LIMIT_REACHED :: int where "QUEUE_GROUP_PROC_LIMIT_REACHED = RET_BASE + 31"
definition SCHEDULER_LOOP_RUN_LIMIT_REACHED :: int where "SCHEDULER_LOOP_RUN_LIMIT_REACHED = RET_BASE + 33"
definition UNKNOWN_LOCATION_PROPERTY_REQUEST :: int where "UNKNOWN_LOCATION_PROPERTY_REQUEST = RET_BASE + 34"

lemmas code_defs =
  RET_BASE_def SUCCESS_def QUEUE_NOT_STARTED_def QUEUE_NOT_EXEC_def QUEUE_JOB_LIMIT_REACHED_def SERVER_JOB_LIMIT_REACHED_def
  SERVER_USER_LIMIT_REACHED_def QUEUE_USER_LIMIT_REACHED_def SERVER_GROUP_LIMIT_REACHED_def QUEUE_GROUP_LIMIT_REACHED_def
  DED_TIME_def CROSS_DED_TIME_BOUNDRY_def QUEUE_IGNORED_def QUEUE_REMOTE_LOCAL_def CLUSTER_RUNNING_def
  CLUSTER_PERMISSIONS_def INSUFICIENT_DYNAMIC_RESOURCE_def QUEUE_PROC_LIMIT_REACHED_def
  QUEUE_USER_PROC_LIMIT_REACHED_def QUEUE_GROUP_PROC_LIMIT_REACHED_def SCHEDULER_LOOP_RUN_LIMIT_REACHED_def
  UNKNOWN_LOCATION_PROPERTY_REQUEST_def

text \<open>
  What the checks read besides the server: configuration, cycle status, property registry, and the lookups of
  other code: the record of a virtual cluster in the site cache, the members of a Unix group, and the
  membership test of the Torque library.
\<close>

record cycle_env =
  ce_env :: env
  ce_conf :: config
  ce_status :: status
  ce_reg :: prop_registry
  ce_cluster :: "string \<Rightarrow> string option"
  ce_getgrnam :: "string \<Rightarrow> string list option"
  ce_in_group :: "string \<Rightarrow> string \<Rightarrow> bool"

section \<open>Queues\<close>

definition check_ded_time_queue :: "status \<Rightarrow> queue_info \<Rightarrow> int" where
  "check_ded_time_queue cstat q =
     (if cs_is_ded_time cstat then (if qi_dedtime_queue q then 0 else DED_TIME)
      else (if qi_dedtime_queue q then DED_TIME else 0))"

definition check_ignored :: "config \<Rightarrow> queue_info \<Rightarrow> int" where
  "check_ignored conf q = (if qi_name q \<in> set (cf_ignored_queues conf) then QUEUE_IGNORED else SUCCESS)"

definition check_queue_remote_local :: "config \<Rightarrow> string \<Rightarrow> queue_info \<Rightarrow> int" where
  "check_queue_remote_local conf server_name q =
     (if \<not> qi_is_global q then
        (if cf_ignore_remote_local conf then
           (if is_prefix ''localhost'' server_name \<or> is_prefix (cf_local_server conf) server_name then 0
            else QUEUE_REMOTE_LOCAL)
         else 0)
      else 0)"

definition is_ok_to_run_queue :: "config \<Rightarrow> status \<Rightarrow> string \<Rightarrow> queue_info \<Rightarrow> int" where
  "is_ok_to_run_queue conf cstat server_name q =
     (if qi_is_exec q then
        (if qi_is_started q then
           (let rc = check_ded_time_queue cstat q
            in if rc \<noteq> 0 then rc
               else (let rc = check_ignored conf q
                     in if rc \<noteq> 0 then rc
                        else (let rc = check_queue_remote_local conf server_name q
                              in if rc \<noteq> 0 then rc else SUCCESS)))
         else QUEUE_NOT_STARTED)
      else QUEUE_NOT_EXEC)"

section \<open>Limits on running jobs\<close>

definition check_server_max_run :: "server_info \<Rightarrow> int" where
  "check_server_max_run s =
     (if si_max_run s = RESC_INFINITY then 0
      else if si_max_run s > sc_running (si_sc s) then 0
      else SERVER_JOB_LIMIT_REACHED)"

definition check_queue_max_run :: "queue_state \<Rightarrow> int" where
  "check_queue_max_run q =
     (if qi_max_run (qs_info q) = RESC_INFINITY then 0
      else if qi_max_run (qs_info q) > sc_running (qs_sc q) then 0
      else QUEUE_JOB_LIMIT_REACHED)"

definition check_server_max_user_run :: "string \<Rightarrow> server_info \<Rightarrow> int \<times> server_info" where
  "check_server_max_user_run account s =
     (if si_max_user_run s = RESC_INFINITY then (0, s)
      else (let (n, s') = number_of_running_jobs_for_user account s
            in (if n < si_max_user_run s then 0 else SERVER_USER_LIMIT_REACHED, s')))"

definition check_server_max_group_run :: "string \<Rightarrow> server_info \<Rightarrow> int \<times> server_info" where
  "check_server_max_group_run grp s =
     (if si_max_group_run s = RESC_INFINITY then (0, s)
      else (let (n, s') = number_of_running_jobs_for_group grp s
            in (if n < si_max_group_run s then 0 else SERVER_GROUP_LIMIT_REACHED, s')))"

definition check_queue_max_user_run :: "nat \<Rightarrow> string \<Rightarrow> server_info \<Rightarrow> int \<times> server_info" where
  "check_queue_max_user_run q account s =
     (if qi_max_user_run (qs_info (queue_at s q)) = RESC_INFINITY then (0, s)
      else (let (n, s') = queue_jobs_for_user q account s
            in (if n < qi_max_user_run (qs_info (queue_at s q)) then 0 else QUEUE_USER_LIMIT_REACHED, s')))"

definition check_queue_max_group_run :: "nat \<Rightarrow> string \<Rightarrow> server_info \<Rightarrow> int \<times> server_info" where
  "check_queue_max_group_run q grp s =
     (if qi_max_group_run (qs_info (queue_at s q)) = RESC_INFINITY then (0, s)
      else (let (n, s') = queue_jobs_for_group q grp s
            in (if n < qi_max_group_run (qs_info (queue_at s q)) then 0 else QUEUE_GROUP_LIMIT_REACHED, s')))"

text \<open>
  The text of the specification is parsed here without the cache of the job.  The sums of \<open>int\<close> values are not
  cut to 32 bits: their overflow is undefined in C++.
\<close>

definition check_queue_proc_limits :: "env \<Rightarrow> nat \<Rightarrow> nat \<Rightarrow> server_info \<Rightarrow> int option" where
  "check_queue_proc_limits ev q j s =
     (let parse = ev_parse_nodespec ev; job = job_at s j; qs = queue_at s q; qi = qs_info qs;
          this_job = to_sint (int (sp_total_procs (parse (ji_nodespec job))));
          all = count_queue_procs parse s qs;
          user = count_queue_user_procs parse s qs (ji_account job);
          grp = count_queue_group_procs parse s qs (ji_group job)
      in if qi_max_proc qi \<noteq> RESC_INFINITY \<and> all = None then None
         else if qi_max_proc qi \<noteq> RESC_INFINITY \<and> the all + this_job > qi_max_proc qi then Some QUEUE_PROC_LIMIT_REACHED
         else if qi_max_user_proc qi \<noteq> RESC_INFINITY \<and> user = None then None
         else if qi_max_user_proc qi \<noteq> RESC_INFINITY \<and> the user + this_job > qi_max_user_proc qi
           then Some QUEUE_USER_PROC_LIMIT_REACHED
         else if qi_max_group_proc qi \<noteq> RESC_INFINITY \<and> grp = None then None
         else if qi_max_group_proc qi \<noteq> RESC_INFINITY \<and> the grp + this_job > qi_max_group_proc qi
           then Some QUEUE_GROUP_PROC_LIMIT_REACHED
         else Some 0)"

section \<open>Other checks\<close>

definition check_ded_time_boundry :: "config \<Rightarrow> status \<Rightarrow> job_info \<Rightarrow> int" where
  "check_ded_time_boundry conf cstat job =
     (let g = hd (cf_ded_time conf)
      in if tg_from g = 0 then 0
         else case find_resource_req (ji_resreq job) ''walltime'' of
                None \<Rightarrow> CROSS_DED_TIME_BOUNDRY
              | Some res \<Rightarrow>
                  (let finish_time = cs_current_time cstat + rq_amount res
                   in if \<not> cs_is_ded_time cstat \<and> finish_time > tg_from g then CROSS_DED_TIME_BOUNDRY
                      else if cs_is_ded_time cstat \<and> finish_time > tg_to g then CROSS_DED_TIME_BOUNDRY
                      else 0))"

definition check_dynamic_resources :: "resc_info_db \<Rightarrow> dynamic_resource smap \<Rightarrow> job_info \<Rightarrow> int" where
  "check_dynamic_resources db dyn job =
     (if list_all (\<lambda>(_, i). ri_source i \<noteq> ResCheckDynamic \<or>
            (case find_resource_req (ji_resreq job) (ri_name i) of
               None \<Rightarrow> True
             | Some r \<Rightarrow> (case smap_find dyn (ri_name i) of None \<Rightarrow> False | Some d \<Rightarrow> would_fit d (rq_amount r)))) db
      then SUCCESS else INSUFICIENT_DYNAMIC_RESOURCE)"

definition cloud_check :: "cycle_env \<Rightarrow> job_info \<Rightarrow> int \<times> job_info" where
  "cloud_check ce job =
     (let jowner = takeWhile (\<lambda>c. c \<noteq> CHR ''@'') (ji_account job)
      in if ji_cluster_mode job = ClusterUse then
           (case ce_cluster ce (ji_cluster_name job) of
              None \<Rightarrow> (CLUSTER_PERMISSIONS, job)
            | Some cluster \<Rightarrow>
                (case retrieve_cluster_attr (Some cluster) ''owner'' of
                   None \<Rightarrow> (0, job)
                 | Some owner \<Rightarrow>
                     (if jowner = owner then (0, job)
                      else case retrieve_cluster_attr (Some cluster) ''group'' of
                             None \<Rightarrow> (CLUSTER_PERMISSIONS, job)
                           | Some grp \<Rightarrow>
                               (if (case ce_getgrnam ce grp of None \<Rightarrow> False | Some members \<Rightarrow> jowner \<in> set members) \<or>
                                   ce_in_group ce grp jowner then (0, job)
                                else (CLUSTER_PERMISSIONS, job\<lparr>ji_can_never_run := True\<rparr>)))))
         else if ji_cluster_mode job = ClusterCreate \<and> ce_cluster ce (ji_custom_name job) \<noteq> None then (CLUSTER_RUNNING, job)
         else (0, job))"

section \<open>Jobs\<close>

text \<open>The checks in order, up to the first that does not return 0.\<close>

fun run_checks :: "(server_info \<Rightarrow> (int \<times> server_info) option) list \<Rightarrow> server_info \<Rightarrow> (int \<times> server_info) option" where
  "run_checks [] s = Some (0, s)"
| "run_checks (c # cs) s =
     (case c s of
        None \<Rightarrow> None
      | Some (rc, s') \<Rightarrow> if rc \<noteq> 0 then Some (rc, s') else run_checks cs s')"

definition limit_checks :: "nat \<Rightarrow> job_info \<Rightarrow> (server_info \<Rightarrow> (int \<times> server_info) option) list" where
  "limit_checks q job =
     [\<lambda>s. Some (check_server_max_run s, s),
      \<lambda>s. Some (check_server_max_user_run (ji_account job) s),
      \<lambda>s. Some (check_server_max_group_run (ji_group job) s),
      \<lambda>s. Some (check_queue_max_run (queue_at s q), s),
      \<lambda>s. Some (check_queue_max_user_run q (ji_account job) s),
      \<lambda>s. Some (check_queue_max_group_run q (ji_group job) s)]"

definition proc_check :: "cycle_env \<Rightarrow> nat \<Rightarrow> nat \<Rightarrow> server_info \<Rightarrow> (int \<times> server_info) option" where
  "proc_check ce q j s = map_option (\<lambda>rc. (rc, s)) (check_queue_proc_limits (ce_env ce) q j s)"

definition ded_check :: "cycle_env \<Rightarrow> nat \<Rightarrow> server_info \<Rightarrow> (int \<times> server_info) option" where
  "ded_check ce j s = Some (check_ded_time_boundry (ce_conf ce) (ce_status ce) (job_at s j), s)"

definition cloud_step :: "cycle_env \<Rightarrow> nat \<Rightarrow> server_info \<Rightarrow> (int \<times> server_info) option" where
  "cloud_step ce j s = Some (let (rc, job') = cloud_check ce (job_at s j) in (rc, upd_job j (\<lambda>_. job') s))"

text \<open>The dynamic resources, and the search for nodes.\<close>

definition resource_check :: "cycle_env \<Rightarrow> nat \<Rightarrow> server_info \<Rightarrow> (int \<times> server_info) option" where
  "resource_check ce j s =
     Some (if check_dynamic_resources (ev_db (ce_env ce)) (w_dynamic_resources (si_world s)) (job_at s j) \<noteq> SUCCESS
           then INSUFICIENT_DYNAMIC_RESOURCE else 0, s)"

definition search_nodes :: "cycle_env \<Rightarrow> nat \<Rightarrow> nat list \<Rightarrow> server_info \<Rightarrow> (int \<times> server_info) option" where
  "search_nodes ce j nodes s =
     map_option (\<lambda>(w, job, rc). (rc, upd_job j (\<lambda>_. job) (s\<lparr>si_world := w\<rparr>)))
       (check_nodespec (ce_env ce) (ce_reg ce) (qs_info (queue_of s j)) (cs_current_time (ce_status ce)) nodes
          (si_world s) (job_at s j))"

definition queue_nodes :: "server_info \<Rightarrow> nat \<Rightarrow> nat list" where
  "queue_nodes s j =
     (let q = queue_of s j
      in if qi_excl_node_count (qs_info q) \<noteq> 0 \<or> qi_excl_nodes_only (qs_info q) then qs_excl_nodes q
         else si_non_dedicated_nodes s)"

definition then_search :: "(int \<times> server_info) option \<Rightarrow> (server_info \<Rightarrow> (int \<times> server_info) option) \<Rightarrow>
    (int \<times> server_info) option" where
  "then_search r f = (case r of None \<Rightarrow> None | Some (rc, s) \<Rightarrow> if rc \<noteq> 0 then Some (rc, s) else f s)"

definition is_ok_to_run_job :: "cycle_env \<Rightarrow> nat \<Rightarrow> server_info \<Rightarrow> (int \<times> server_info) option" where
  "is_ok_to_run_job ce j s =
     (let job = job_at s j; q = si_job_queue s ! j
      in if si_exec_count s (ji_account job) \<ge> cf_max_user_run (ce_conf ce) then
           Some (SCHEDULER_LOOP_RUN_LIMIT_REACHED, s)
         else if ji_placement job \<noteq> [] \<and> \<not> fst (get_property_id (ce_reg ce) (ji_placement job)) then
           Some (UNKNOWN_LOCATION_PROPERTY_REQUEST, s)
         else if si_nodes s = [] then None
         else then_search
                (run_checks (limit_checks q job @ [proc_check ce q j, ded_check ce j, cloud_step ce j, resource_check ce j]) s)
                (\<lambda>s'. search_nodes ce j (queue_nodes s' j) s'))"

text \<open>The variant for a planned job: no limit of the cycle, none on cores, and the nodes of the plan.\<close>

definition is_ok_to_run_job_new :: "cycle_env \<Rightarrow> nat list \<Rightarrow> nat \<Rightarrow> server_info \<Rightarrow> (int \<times> server_info) option" where
  "is_ok_to_run_job_new ce nodes j s =
     then_search
       (run_checks (limit_checks (si_job_queue s ! j) (job_at s j) @ [ded_check ce j, cloud_step ce j, resource_check ce j]) s)
       (search_nodes ce j nodes)"

section \<open>A queue that may run\<close>

text \<open>\<open>check_ignored\<close> returns \<open>SUCCESS\<close>, which is not 0: the check for remote queues is never reached.\<close>

lemma is_ok_to_run_queue_success:
  "is_ok_to_run_queue conf cstat name q = SUCCESS \<longleftrightarrow>
     qi_is_exec q \<and> qi_is_started q \<and> (qi_dedtime_queue q \<longleftrightarrow> cs_is_ded_time cstat) \<and>
     qi_name q \<notin> set (cf_ignored_queues conf)"
  by (simp add: is_ok_to_run_queue_def check_ded_time_queue_def check_ignored_def code_defs)

section \<open>Limits\<close>

lemma same_counts_server:
  assumes "same_counts s s'"
  shows "si_job_tab s' = si_job_tab s" "si_running_jobs s' = si_running_jobs s" "si_sc s' = si_sc s"
    "si_max_run s' = si_max_run s" "si_max_user_run s' = si_max_user_run s" "si_max_group_run s' = si_max_group_run s"
    "si_exec_count s' = si_exec_count s" "si_job_queue s' = si_job_queue s" "si_nodes s' = si_nodes s"
    "si_world s' = si_world s" "length (si_queues s') = length (si_queues s)" "si_jobs s' = si_jobs s"
    "server_running s' = server_running s"
proof -
  have b: "bare_server s' = bare_server s" using assms by (simp add: same_counts_def)
  note g = arg_cong[OF b, of si_job_tab] arg_cong[OF b, of si_running_jobs] arg_cong[OF b, of si_sc]
    arg_cong[OF b, of si_max_run] arg_cong[OF b, of si_max_user_run] arg_cong[OF b, of si_max_group_run]
    arg_cong[OF b, of si_exec_count] arg_cong[OF b, of si_job_queue] arg_cong[OF b, of si_nodes]
    arg_cong[OF b, of si_world] arg_cong[OF b, of "\<lambda>x. length (si_queues x)"] arg_cong[OF b, of si_jobs]
  show "si_job_tab s' = si_job_tab s" "si_running_jobs s' = si_running_jobs s" "si_sc s' = si_sc s"
    "si_max_run s' = si_max_run s" "si_max_user_run s' = si_max_user_run s" "si_max_group_run s' = si_max_group_run s"
    "si_exec_count s' = si_exec_count s" "si_job_queue s' = si_job_queue s" "si_nodes s' = si_nodes s"
    "si_world s' = si_world s" "length (si_queues s') = length (si_queues s)" "si_jobs s' = si_jobs s"
    using g by (simp_all add: bare_server_def)
  then show "server_running s' = server_running s" by (intro server_running_tab)
qed

lemma same_counts_queue:
  assumes "same_counts s s'" and "q < length (si_queues s)"
  shows "qs_info (queue_at s' q) = qs_info (queue_at s q)" "qs_sc (queue_at s' q) = qs_sc (queue_at s q)"
    "qs_running_jobs (queue_at s' q) = qs_running_jobs (queue_at s q)"
    "queue_running s' (queue_at s' q) = queue_running s (queue_at s q)"
proof -
  have "bare_server s' = bare_server s" using assms(1) by (simp add: same_counts_def)
  from arg_cong[OF this, of si_queues] have "map bare_queue (si_queues s') = map bare_queue (si_queues s)"
    by (simp add: bare_server_def)
  then have "map bare_queue (si_queues s') ! q = map bare_queue (si_queues s) ! q" by simp
  moreover have "q < length (si_queues s')" using same_counts_server(11)[OF assms(1)] assms(2) by simp
  ultimately have b: "bare_queue (queue_at s' q) = bare_queue (queue_at s q)" using assms(2) by (simp add: queue_at_def)
  show "qs_info (queue_at s' q) = qs_info (queue_at s q)" "qs_sc (queue_at s' q) = qs_sc (queue_at s q)"
    "qs_running_jobs (queue_at s' q) = qs_running_jobs (queue_at s q)"
    using arg_cong[OF b, of qs_info] arg_cong[OF b, of qs_sc] arg_cong[OF b, of qs_running_jobs]
    by (simp_all add: bare_queue_def)
  then show "queue_running s' (queue_at s' q) = queue_running s (queue_at s q)"
    using same_counts_server(1)[OF assms(1)] by (simp add: queue_running_def job_at_fun)
qed

definition below :: "int \<Rightarrow> int \<Rightarrow> bool" where
  "below n limit \<longleftrightarrow> limit = RESC_INFINITY \<or> n < limit"

text \<open>The limits on running jobs leave room for one more job of this owner in this queue.\<close>

definition within_limits :: "server_info \<Rightarrow> nat \<Rightarrow> job_info \<Rightarrow> bool" where
  "within_limits s q job \<longleftrightarrow>
     below (int (length (si_running_jobs s))) (si_max_run s) \<and>
     below (count_by_user (server_running s) (ji_account job)) (si_max_user_run s) \<and>
     below (count_by_group (server_running s) (ji_group job)) (si_max_group_run s) \<and>
     below (int (length (qs_running_jobs (queue_at s q)))) (qi_max_run (qs_info (queue_at s q))) \<and>
     below (count_by_user (queue_running s (queue_at s q)) (ji_account job)) (qi_max_user_run (qs_info (queue_at s q))) \<and>
     below (count_by_group (queue_running s (queue_at s q)) (ji_group job)) (qi_max_group_run (qs_info (queue_at s q)))"

lemma server_ok_running: "server_ok s \<Longrightarrow> sc_running (si_sc s) = int (length (si_running_jobs s))"
  by (simp add: server_ok_def)

lemma queue_ok_running:
  "server_ok s \<Longrightarrow> q < length (si_queues s) \<Longrightarrow> sc_running (qs_sc (queue_at s q)) = int (length (qs_running_jobs (queue_at s q)))"
  by (simp add: server_ok_def queue_ok_def)

lemma check_server_max_user_run_spec:
  assumes "server_ok s" and "check_server_max_user_run a s = (rc, s')"
  shows "same_counts s s' \<and> (rc = 0 \<longleftrightarrow> below (count_by_user (server_running s) a) (si_max_user_run s))"
  using assms running_jobs_for_user[OF assms(1)]
  by (auto simp: check_server_max_user_run_def below_def code_defs split: if_splits prod.splits)

lemma check_server_max_group_run_spec:
  assumes "server_ok s" and "check_server_max_group_run a s = (rc, s')"
  shows "same_counts s s' \<and> (rc = 0 \<longleftrightarrow> below (count_by_group (server_running s) a) (si_max_group_run s))"
  using assms running_jobs_for_group[OF assms(1)]
  by (auto simp: check_server_max_group_run_def below_def code_defs split: if_splits prod.splits)

lemma check_queue_max_user_run_spec:
  assumes "server_ok s" and "q < length (si_queues s)" and "check_queue_max_user_run q a s = (rc, s')"
  shows "same_counts s s' \<and>
    (rc = 0 \<longleftrightarrow> below (count_by_user (queue_running s (queue_at s q)) a) (qi_max_user_run (qs_info (queue_at s q))))"
  using assms queue_jobs_for_user_count[OF assms(1,2)]
  by (auto simp: check_queue_max_user_run_def below_def code_defs split: if_splits prod.splits)

lemma check_queue_max_group_run_spec:
  assumes "server_ok s" and "q < length (si_queues s)" and "check_queue_max_group_run q a s = (rc, s')"
  shows "same_counts s s' \<and>
    (rc = 0 \<longleftrightarrow> below (count_by_group (queue_running s (queue_at s q)) a) (qi_max_group_run (qs_info (queue_at s q))))"
  using assms queue_jobs_for_group_count[OF assms(1,2)]
  by (auto simp: check_queue_max_group_run_def below_def code_defs split: if_splits prod.splits)

lemma check_max_run_spec:
  "server_ok s \<Longrightarrow> check_server_max_run s = 0 \<longleftrightarrow> below (int (length (si_running_jobs s))) (si_max_run s)"
  "server_ok s \<Longrightarrow> q < length (si_queues s) \<Longrightarrow> check_queue_max_run (queue_at s q) = 0 \<longleftrightarrow>
     below (int (length (qs_running_jobs (queue_at s q)))) (qi_max_run (qs_info (queue_at s q)))"
  by (auto simp: check_server_max_run_def check_queue_max_run_def below_def code_defs server_ok_running queue_ok_running)

lemma run_checks_append: "run_checks (xs @ ys) s = then_search (run_checks xs s) (run_checks ys)"
  by (induction xs arbitrary: s) (auto simp: then_search_def split: option.splits)

lemma limit_checks_spec:
  assumes "server_ok s" and q: "q < length (si_queues s)"
  shows "\<exists>rc s'. run_checks (limit_checks q job) s = Some (rc, s') \<and> same_counts s s' \<and> (rc = 0 \<longleftrightarrow> within_limits s q job)"
proof -
  obtain r1 s1 where 1: "check_server_max_user_run (ji_account job) s = (r1, s1)" by fastforce
  note c1 = check_server_max_user_run_spec[OF assms(1) 1]
  then have ok1: "server_ok s1" and s1: "same_counts s s1" using assms(1) by (auto simp: same_counts_def)
  obtain r2 s2 where 2: "check_server_max_group_run (ji_group job) s1 = (r2, s2)" by fastforce
  note c2 = check_server_max_group_run_spec[OF ok1 2]
  then have ok2: "server_ok s2" and s2: "same_counts s s2" using ok1 s1 same_counts_trans by (auto simp: same_counts_def)
  have q2: "q < length (si_queues s2)" using q same_counts_server(11)[OF s2] by simp
  obtain r3 s3 where 3: "check_queue_max_user_run q (ji_account job) s2 = (r3, s3)" by fastforce
  note c3 = check_queue_max_user_run_spec[OF ok2 q2 3]
  then have ok3: "server_ok s3" and s3: "same_counts s s3" using ok2 s2 same_counts_trans by (auto simp: same_counts_def)
  have q3: "q < length (si_queues s3)" using q same_counts_server(11)[OF s3] by simp
  obtain r4 s4 where 4: "check_queue_max_group_run q (ji_group job) s3 = (r4, s4)" by fastforce
  note c4 = check_queue_max_group_run_spec[OF ok3 q3 4]
  then have s4: "same_counts s s4" using s3 same_counts_trans by blast
  note eqs = same_counts_server[OF s1] same_counts_server[OF s2] same_counts_server[OF s3]
    same_counts_queue[OF s2 q] same_counts_queue[OF s3 q]
  note m = check_max_run_spec(1)[OF assms(1)] check_max_run_spec(2)[OF ok2 q2]
  show ?thesis
    using 1 2 3 4 s1 s2 s3 s4 c1 c2 c3 c4 m
    by (auto simp: limit_checks_def within_limits_def eqs)
qed

section \<open>What a check of a job changes\<close>

text \<open>
  The caches, the nodes, and in the job the schedule, the fairshare cost and the mark of a job that can never
  run.  The shell is the server without them.
\<close>

definition job_frame :: "job_info \<Rightarrow> job_info" where
  "job_frame job = (job_core job)\<lparr>ji_can_never_run := False\<rparr>"

definition no_world :: world where
  "no_world = \<lparr>w_heap = [], w_nodes = [], w_dynamic_resources = [], w_installing_node_count = 0, w_max_installing_nodes = 0\<rparr>"

definition shell :: "server_info \<Rightarrow> server_info" where
  "shell s = (bare_server s)\<lparr>si_world := no_world, si_job_tab := map job_frame (si_job_tab s)\<rparr>"

definition same_shell :: "server_info \<Rightarrow> server_info \<Rightarrow> bool" where
  "same_shell s s' \<longleftrightarrow> shell s' = shell s \<and> (in_tab s \<and> server_ok s \<longrightarrow> server_ok s')"

lemma same_shell_refl [simp]: "same_shell s s"
  by (simp add: same_shell_def)

lemma job_frame_eq:
  assumes "job_frame a = job_frame b"
  shows "ji_account a = ji_account b" "ji_group a = ji_group b" "ji_state a = ji_state b"
    "ji_can_not_run a = ji_can_not_run b" "ji_job_id a = ji_job_id b" "ji_nodespec a = ji_nodespec b"
    "ji_resreq a = ji_resreq b" "ji_parsed a = ji_parsed b"
  using arg_cong[OF assms, of ji_account] arg_cong[OF assms, of ji_group] arg_cong[OF assms, of ji_state]
    arg_cong[OF assms, of ji_can_not_run] arg_cong[OF assms, of ji_job_id] arg_cong[OF assms, of ji_nodespec]
    arg_cong[OF assms, of ji_resreq] arg_cong[OF assms, of ji_parsed]
  by (simp_all add: job_frame_def job_core_def)

lemma same_shell_fields:
  assumes "same_shell s s'"
  shows "map job_frame (si_job_tab s') = map job_frame (si_job_tab s)" "length (si_job_tab s') = length (si_job_tab s)"
    "si_running_jobs s' = si_running_jobs s" "si_sc s' = si_sc s" "si_jobs s' = si_jobs s"
    "si_max_run s' = si_max_run s" "si_max_user_run s' = si_max_user_run s" "si_max_group_run s' = si_max_group_run s"
    "si_exec_count s' = si_exec_count s" "si_job_queue s' = si_job_queue s" "si_nodes s' = si_nodes s"
    "length (si_queues s') = length (si_queues s)" "si_jobs_by_owner s' = si_jobs_by_owner s"
    "map bare_queue (si_queues s') = map bare_queue (si_queues s)" "si_name s' = si_name s"
    "si_non_dedicated_nodes s' = si_non_dedicated_nodes s"
proof -
  have b: "shell s' = shell s" using assms by (simp add: same_shell_def)
  note g = arg_cong[OF b, of si_job_tab] arg_cong[OF b, of si_running_jobs] arg_cong[OF b, of si_sc]
    arg_cong[OF b, of si_max_run] arg_cong[OF b, of si_max_user_run] arg_cong[OF b, of si_max_group_run]
    arg_cong[OF b, of si_exec_count] arg_cong[OF b, of si_job_queue] arg_cong[OF b, of si_nodes]
    arg_cong[OF b, of si_queues] arg_cong[OF b, of si_jobs] arg_cong[OF b, of si_jobs_by_owner] arg_cong[OF b, of si_name]
    arg_cong[OF b, of si_non_dedicated_nodes]
  show t: "map job_frame (si_job_tab s') = map job_frame (si_job_tab s)"
    and q: "map bare_queue (si_queues s') = map bare_queue (si_queues s)"
    using g by (simp_all add: shell_def bare_server_def)
  show "length (si_job_tab s') = length (si_job_tab s)" using t map_eq_imp_length_eq by blast
  show "length (si_queues s') = length (si_queues s)" using q map_eq_imp_length_eq by blast
  show "si_running_jobs s' = si_running_jobs s" "si_sc s' = si_sc s" "si_jobs s' = si_jobs s"
    "si_max_run s' = si_max_run s" "si_max_user_run s' = si_max_user_run s" "si_max_group_run s' = si_max_group_run s"
    "si_exec_count s' = si_exec_count s" "si_job_queue s' = si_job_queue s" "si_nodes s' = si_nodes s"
    "si_jobs_by_owner s' = si_jobs_by_owner s" "si_name s' = si_name s" "si_non_dedicated_nodes s' = si_non_dedicated_nodes s"
    using g by (simp_all add: shell_def bare_server_def)
qed

lemma same_shell_job:
  "same_shell s s' \<Longrightarrow> j < length (si_job_tab s) \<Longrightarrow> job_frame (job_at s' j) = job_frame (job_at s j)"
  using same_shell_fields(1,2)[of s s'] map_nth_eq[of job_frame "si_job_tab s'" "si_job_tab s" j] by (simp add: job_at_def)

lemma same_shell_queue:
  assumes "same_shell s s'" and "q < length (si_queues s)"
  shows "qs_info (queue_at s' q) = qs_info (queue_at s q)" "qs_running_jobs (queue_at s' q) = qs_running_jobs (queue_at s q)"
    "qs_sc (queue_at s' q) = qs_sc (queue_at s q)" "qs_jobs (queue_at s' q) = qs_jobs (queue_at s q)"
proof -
  have b: "bare_queue (queue_at s' q) = bare_queue (queue_at s q)"
    using map_nth_eq[OF same_shell_fields(14)[OF assms(1)]] assms(2) same_shell_fields(12)[OF assms(1)]
    by (simp add: queue_at_def)
  show "qs_info (queue_at s' q) = qs_info (queue_at s q)" "qs_running_jobs (queue_at s' q) = qs_running_jobs (queue_at s q)"
    "qs_sc (queue_at s' q) = qs_sc (queue_at s q)" "qs_jobs (queue_at s' q) = qs_jobs (queue_at s q)"
    using arg_cong[OF b, of qs_info] arg_cong[OF b, of qs_running_jobs] arg_cong[OF b, of qs_sc] arg_cong[OF b, of qs_jobs]
    by (simp_all add: bare_queue_def)
qed

lemma same_shell_in_tab: "same_shell s s' \<Longrightarrow> in_tab s' \<longleftrightarrow> in_tab s"
  using same_shell_fields(2,3,12)[of s s'] same_shell_queue(2)[of s s']
  unfolding in_tab_def all_set_conv_all_nth[of "si_queues _"] queue_at_def[symmetric] by auto

lemma same_shell_trans [trans]: "same_shell s s' \<Longrightarrow> same_shell s' s'' \<Longrightarrow> same_shell s s''"
  using same_shell_in_tab[of s s'] by (simp add: same_shell_def)

lemma same_counts_shell: "same_counts s s' \<Longrightarrow> same_shell s s'"
  using same_counts_server(1)[of s s'] by (simp add: same_counts_def same_shell_def shell_def)

lemma same_shell_upd_job:
  assumes "job_frame (f (job_at s j)) = job_frame (job_at s j)"
  shows "same_shell s (upd_job j f (s\<lparr>si_world := w\<rparr>))"
proof -
  let ?s = "upd_job j f (s\<lparr>si_world := w\<rparr>)"
  have "map job_frame ((si_job_tab s)[j := f (si_job_tab s ! j)]) = map job_frame (si_job_tab s)"
    using assms by (cases "j < length (si_job_tab s)") (auto simp: job_at_def list_eq_iff_nth_eq nth_list_update)
  then have "shell ?s = shell s" by (simp add: shell_def bare_server_def upd_job_def)
  moreover have "keeps_owner s ?s"
  proof -
    have "keeps_owner (s\<lparr>si_world := w\<rparr>) ?s"
      by (rule keeps_owner_upd_job) (use job_frame_eq[OF assms] in \<open>simp_all add: job_at_def\<close>)
    then show ?thesis by (simp add: keeps_owner_def)
  qed
  ultimately show ?thesis using keeps_owner_ok by (auto simp: same_shell_def)
qed

lemma cloud_check_frame: "cloud_check ce job = (rc, job') \<Longrightarrow> job_frame job' = job_frame job"
  by (auto simp: cloud_check_def Let_def job_frame_def job_core_def split: if_splits option.splits)

lemma cloud_step_shell: "cloud_step ce j s = Some (rc, s') \<Longrightarrow> same_shell s s'"
  using same_shell_upd_job[where f = "\<lambda>_. snd (cloud_check ce (job_at s j))" and s = s and j = j and w = "si_world s"]
    cloud_check_frame[of ce "job_at s j"]
  by (auto simp: cloud_step_def split: prod.splits)

lemma search_nodes_shell: "search_nodes ce j nodes s = Some (rc, s') \<Longrightarrow> same_shell s s'"
  by (auto simp: search_nodes_def job_frame_def dest!: check_nodespec_core intro!: same_shell_upd_job)

text \<open>The checks after the limits change the shell neither.\<close>

definition keeps_shell :: "(server_info \<Rightarrow> (int \<times> server_info) option) \<Rightarrow> bool" where
  "keeps_shell c \<longleftrightarrow> (\<forall>s rc s'. c s = Some (rc, s') \<longrightarrow> same_shell s s')"

lemma keeps_shell_checks:
  "keeps_shell (proc_check ce q j)" "keeps_shell (ded_check ce j)" "keeps_shell (cloud_step ce j)"
  "keeps_shell (resource_check ce j)" "keeps_shell (search_nodes ce j nodes)"
  using cloud_step_shell search_nodes_shell
  by (auto simp: keeps_shell_def proc_check_def ded_check_def resource_check_def)

lemma run_checks_shell: "\<forall>c \<in> set cs. keeps_shell c \<Longrightarrow> keeps_shell (run_checks cs)"
proof (induction cs)
  case (Cons c cs)
  show ?case unfolding keeps_shell_def
  proof (intro allI impI)
    fix s rc s' assume run: "run_checks (c # cs) s = Some (rc, s')"
    then obtain r s1 where c: "c s = Some (r, s1)" by (auto split: option.splits)
    then have "same_shell s s1" using Cons.prems by (auto simp: keeps_shell_def)
    moreover have "same_shell s1 s'"
      using run c Cons by (cases "r = 0") (auto simp: keeps_shell_def)
    ultimately show "same_shell s s'" by (rule same_shell_trans)
  qed
qed (simp add: keeps_shell_def)

section \<open>A job that may run\<close>

text \<open>The limits on cores of the queue hold with the job added.\<close>

definition fits_cores :: "int \<Rightarrow> int \<Rightarrow> int \<Rightarrow> bool" where
  "fits_cores n this_job limit \<longleftrightarrow> limit = RESC_INFINITY \<or> n + this_job \<le> limit"

definition within_procs :: "(string \<Rightarrow> pars_spec) \<Rightarrow> server_info \<Rightarrow> nat \<Rightarrow> job_info \<Rightarrow> bool" where
  "within_procs parse s q job \<longleftrightarrow>
     (let this_job = to_sint (int (sp_total_procs (parse (ji_nodespec job)))); qi = qs_info (queue_at s q);
          running = queue_running s (queue_at s q)
      in fits_cores (count_procs parse (\<lambda>_. True) running) this_job (qi_max_proc qi) \<and>
         fits_cores (count_procs parse (\<lambda>j. ji_account j = ji_account job) running) this_job (qi_max_user_proc qi) \<and>
         fits_cores (count_procs parse (\<lambda>j. ji_group j = ji_group job) running) this_job (qi_max_group_proc qi))"

lemma proc_check_spec:
  assumes "server_ok s" and "q < length (si_queues s)"
  shows "\<exists>rc. proc_check ce q j s = Some (rc, s) \<and>
     (rc = 0 \<longleftrightarrow> within_procs (ev_parse_nodespec (ce_env ce)) s q (job_at s j))"
  using queue_ok_running[OF assms]
  by (auto simp: proc_check_def check_queue_proc_limits_def within_procs_def fits_cores_def Let_def code_defs
      count_queue_procs_def count_queue_user_procs_def count_queue_group_procs_def)

lemma then_search_Some:
  "then_search r f = Some (rc, s') \<longleftrightarrow>
     (\<exists>r0 s0. r = Some (r0, s0) \<and> (if r0 = 0 then f s0 = Some (rc, s') else rc = r0 \<and> s' = s0))"
  by (auto simp: then_search_def split: option.splits prod.splits)

lemma within_procs_counts:
  assumes "same_counts s s'" and "q < length (si_queues s)"
  shows "within_procs parse s' q job = within_procs parse s q job"
  using same_counts_queue[OF assms] by (simp add: within_procs_def)

text \<open>No check but the search for nodes returns \<open>SUCCESS\<close>.\<close>

definition no_success :: "(server_info \<Rightarrow> (int \<times> server_info) option) \<Rightarrow> bool" where
  "no_success c \<longleftrightarrow> (\<forall>s rc s'. c s = Some (rc, s') \<longrightarrow> rc \<noteq> SUCCESS)"

lemma no_success_limits: "\<forall>c \<in> set (limit_checks q job). no_success c"
  by (auto simp: limit_checks_def no_success_def check_server_max_run_def check_queue_max_run_def
      check_server_max_user_run_def check_server_max_group_run_def check_queue_max_user_run_def
      check_queue_max_group_run_def code_defs Let_def split: if_splits prod.splits)

lemma no_success_checks:
  "no_success (proc_check ce q j)" "no_success (ded_check ce j)" "no_success (cloud_step ce j)" "no_success (resource_check ce j)"
  by (auto simp: no_success_def proc_check_def check_queue_proc_limits_def ded_check_def check_ded_time_boundry_def
      cloud_step_def cloud_check_def resource_check_def code_defs Let_def split: if_splits option.splits prod.splits)

lemma run_checks_no_success: "\<forall>c \<in> set cs. no_success c \<Longrightarrow> no_success (run_checks cs)"
  unfolding no_success_def
  by (induction cs) (force simp: code_defs split: option.splits if_splits)+

text \<open>The outcome of the checks on limits, followed by others.\<close>

lemma limits_then:
  assumes ok: "server_ok s" and q: "q < length (si_queues s)"
    and run: "run_checks (limit_checks q job @ cs) s = Some (rc, s')" and cs: "\<forall>c \<in> set cs. keeps_shell c"
  shows "same_shell s s' \<and>
    (rc = 0 \<longrightarrow> within_limits s q job \<and> (\<exists>s1. same_counts s s1 \<and> run_checks cs s1 = Some (rc, s')))"
proof -
  obtain r s1 where l: "run_checks (limit_checks q job) s = Some (r, s1)" "same_counts s s1"
      "r = 0 \<longleftrightarrow> within_limits s q job"
    using limit_checks_spec[OF ok q] by blast
  show ?thesis
  proof (cases "r = 0")
    case True
    then have r: "run_checks cs s1 = Some (rc, s')" using run l by (simp add: run_checks_append then_search_def)
    then have "same_shell s1 s'" using run_checks_shell[OF cs] by (auto simp: keeps_shell_def)
    then show ?thesis using r l True same_shell_trans[OF same_counts_shell[OF l(2)]] by blast
  next
    case False
    then show ?thesis using run l same_counts_shell by (auto simp: run_checks_append then_search_def)
  qed
qed

lemma is_ok_to_run_job_spec:
  assumes ok: "server_ok s" and q: "q = si_job_queue s ! j" "q < length (si_queues s)"
    and run: "is_ok_to_run_job ce j s = Some (rc, s')"
  shows "same_shell s s' \<and>
     (rc = SUCCESS \<longrightarrow>
        within_limits s q (job_at s j) \<and> within_procs (ev_parse_nodespec (ce_env ce)) s q (job_at s j) \<and>
        si_exec_count s (ji_account (job_at s j)) < cf_max_user_run (ce_conf ce))"
proof -
  let ?cs = "[proc_check ce q j, ded_check ce j, cloud_step ce j, resource_check ce j]"
  have ne: "SCHEDULER_LOOP_RUN_LIMIT_REACHED \<noteq> SUCCESS" "UNKNOWN_LOCATION_PROPERTY_REQUEST \<noteq> SUCCESS" "SUCCESS \<noteq> 0"
    by (simp_all add: code_defs)
  have shell: "\<forall>c \<in> set ?cs. keeps_shell c" by (simp add: keeps_shell_checks)
  show ?thesis
  proof (cases "si_exec_count s (ji_account (job_at s j)) \<ge> cf_max_user_run (ce_conf ce) \<or>
      (ji_placement (job_at s j) \<noteq> [] \<and> \<not> fst (get_property_id (ce_reg ce) (ji_placement (job_at s j))))")
    case True
    then show ?thesis using run ne by (auto simp: is_ok_to_run_job_def Let_def split: if_splits)
  next
    case False
    then obtain r0 s0 where r: "run_checks (limit_checks q (job_at s j) @ ?cs) s = Some (r0, s0)"
      and f: "if r0 = 0 then search_nodes ce j (queue_nodes s0 j) s0 = Some (rc, s') else rc = r0 \<and> s' = s0"
      using run by (auto simp: is_ok_to_run_job_def Let_def then_search_Some q(1) split: if_splits)
    note l = limits_then[OF ok q(2) r shell]
    have "same_shell s0 s'" using f keeps_shell_checks(5)[unfolded keeps_shell_def] by (auto split: if_splits)
    then have "same_shell s s'" using l same_shell_trans by blast
    moreover have "no_success (run_checks (limit_checks q (job_at s j) @ ?cs))"
      by (rule run_checks_no_success) (use no_success_limits no_success_checks in auto)
    then have "rc = SUCCESS \<Longrightarrow> r0 = 0" using r f by (auto simp: no_success_def split: if_splits)
    moreover have "within_procs (ev_parse_nodespec (ce_env ce)) s q (job_at s j)" if r0: "r0 = 0"
    proof -
      obtain s1 where s1: "same_counts s s1" "run_checks ?cs s1 = Some (0, s0)" using l r0 by blast
      then have ok1: "server_ok s1" "q < length (si_queues s1)" "job_at s1 j = job_at s j"
        using ok q(2) same_counts_server[OF s1(1)] by (auto simp: same_counts_def job_at_def)
      from proc_check_spec[OF ok1(1,2), of ce j] s1(2)
      show ?thesis using within_procs_counts[OF s1(1) q(2)] ok1(3) by (auto split: if_splits)
    qed
    ultimately show ?thesis using l False by auto
  qed
qed

end
