(* ===== verification/ExternalCache.thy ===== *)
theory ExternalCache
  imports RunChecks
begin

text \<open>
  Refreshing the nodes from the site cache: \<open>query_external_cache\<close> of \<open>src/misc.cpp\<close>.  The cache daemon is outside the
  program: a metric is a parameter that gives a table of values, or nothing when the daemon does not
  answer.  \<open>None\<close> as a result is an exception or a null pointer that is followed.
\<close>

section \<open>State\<close>

record cache_state =
  qc_world :: world
  qc_reg :: prop_registry
  qc_db :: resc_info_db

type_synonym metrics = "string \<Rightarrow> (string \<Rightarrow> string option) option"

text \<open>A loop whose body may fail.\<close>

fun each :: "('a \<Rightarrow> 's \<Rightarrow> 's option) \<Rightarrow> 'a list \<Rightarrow> 's \<Rightarrow> 's option" where
  "each f [] s = Some s"
| "each f (x # xs) s = (case f x s of None \<Rightarrow> None | Some s' \<Rightarrow> each f xs s')"

definition on_world :: "(world \<Rightarrow> world) \<Rightarrow> cache_state \<Rightarrow> cache_state" where
  "on_world f st = st\<lparr>qc_world := f (qc_world st)\<rparr>"

text \<open>The body of the loops over nodes: nothing happens to a node without a value.\<close>

definition with_value :: "(string \<Rightarrow> string option) \<Rightarrow> (nat \<Rightarrow> string \<Rightarrow> cache_state \<Rightarrow> cache_state option) \<Rightarrow>
    nat \<Rightarrow> cache_state \<Rightarrow> cache_state option" where
  "with_value tab f a st =
     (case tab (nd_name (node_at (qc_world st) a)) of None \<Rightarrow> Some st | Some v \<Rightarrow> f a v st)"

definition metric_loop :: "metrics \<Rightarrow> string \<Rightarrow> (nat \<Rightarrow> string \<Rightarrow> cache_state \<Rightarrow> cache_state option) \<Rightarrow> nat list \<Rightarrow>
    cache_state \<Rightarrow> cache_state option" where
  "metric_loop cache name f nodes st =
     (case cache name of None \<Rightarrow> Some st | Some tab \<Rightarrow> each (with_value tab f) nodes st)"

section \<open>Values of one node\<close>

definition set_dynamic_on :: "string \<Rightarrow> nat \<Rightarrow> string \<Rightarrow> cache_state \<Rightarrow> cache_state option" where
  "set_dynamic_on name a v st =
     (let w = qc_world st;
          (env, r) = set_resource_dynamic \<lparr>e_heap = w_heap w, e_reg = qc_reg st\<rparr> (node_at w a) name v
      in case r of
           Inl _ \<Rightarrow> None
         | Inr n \<Rightarrow> Some (st\<lparr>qc_world := upd_node a (\<lambda>_. n) (w\<lparr>w_heap := e_heap env\<rparr>), qc_reg := e_reg env\<rparr>))"

definition set_cluster_on :: "nat \<Rightarrow> string \<Rightarrow> cache_state \<Rightarrow> cache_state option" where
  "set_cluster_on a v st = Some (on_world (upd_node a (\<lambda>n. n\<lparr>ni_phys_cluster := v\<rparr>)) st)"

definition set_pool_on :: "nat \<Rightarrow> string \<Rightarrow> cache_state \<Rightarrow> cache_state option" where
  "set_pool_on a v st =
     (let st' = on_world (upd_node a (set_scratch_pool v)) st
      in Some (st'\<lparr>qc_db := fst (db_insert (qc_db st') v '' '' ResCheckDynamic)\<rparr>))"

text \<open>Dead data on a scratch: the part of the value behind the semicolon is consumed.\<close>

definition consume_on :: "string \<Rightarrow> nat \<Rightarrow> string \<Rightarrow> cache_state \<Rightarrow> cache_state option" where
  "consume_on name a v st =
     Some (case strchr v (CHR '';'') of
             None \<Rightarrow> st
           | Some (_, usage) \<Rightarrow> on_world (on_resource a name (\<lambda>r. consume_resource_str r usage)) st)"

definition scratch_word :: "string \<Rightarrow> ScratchType option" where
  "scratch_word h =
     (if h = ''ssd'' \<or> h = ''SSD'' then Some ScratchSSD
      else if h = ''shared'' \<or> h = ''SHARED'' \<or> h = ''Shared'' then Some ScratchShared
      else if h = ''local'' \<or> h = ''LOCAL'' \<or> h = ''Local'' then Some ScratchLocal
      else None)"

text \<open>
  Three rounds over the words between semicolons; when the words run out, the null pointer is handed to \<open>strchr\<close>.
\<close>

fun priority_words :: "nat \<Rightarrow> nat \<Rightarrow> string option \<Rightarrow> node_info \<Rightarrow> node_info option" where
  "priority_words j 0 head n = Some n"
| "priority_words j (Suc k) None n = None"
| "priority_words j (Suc k) (Some text) n =
     (let (word, rest) = (case strchr text (CHR '';'') of None \<Rightarrow> (text, None) | Some (u, v) \<Rightarrow> (u, Some v))
      in case (case scratch_word word of None \<Rightarrow> Some n | Some s \<Rightarrow> set_scratch_priority j s n) of
           None \<Rightarrow> None
         | Some n' \<Rightarrow> priority_words (Suc j) k rest n')"

definition set_priority_on :: "nat \<Rightarrow> string \<Rightarrow> cache_state \<Rightarrow> cache_state option" where
  "set_priority_on a v st =
     map_option (\<lambda>n. on_world (upd_node a (\<lambda>_. n)) st) (priority_words 0 3 (Some v) (node_at (qc_world st) a))"

section \<open>The query\<close>

definition cache_resources :: "metrics \<Rightarrow> nat list \<Rightarrow> cache_state \<Rightarrow> cache_state option" where
  "cache_resources cache nodes st =
     each (\<lambda>(_, i). if ri_source i = ResCheckBoth \<or> ri_source i = ResCheckCache
                    then metric_loop cache (ri_name i) (set_dynamic_on (ri_name i)) nodes else Some)
       (qc_db st) st"

definition dynamic_values :: "metrics \<Rightarrow> cache_state \<Rightarrow> cache_state option" where
  "dynamic_values cache st =
     Some (case cache ''dynamic_resources'' of
             None \<Rightarrow> st
           | Some tab \<Rightarrow>
               fold (\<lambda>(_, i) s.
                  if ri_source i = ResCheckDynamic then
                    (case tab (ri_name i) of
                       None \<Rightarrow> s
                     | Some v \<Rightarrow> on_world (\<lambda>w. w\<lparr>w_dynamic_resources :=
                         smap_insert (ri_name i) (new_dynamic_resource (ri_name i) v) (w_dynamic_resources w)\<rparr>) s)
                  else s) (qc_db st) st)"

definition decode_node :: "nat \<Rightarrow> cache_state \<Rightarrow> cache_state option" where
  "decode_node a st =
     Some (on_world (\<lambda>w. let w' = upd_node a (process_magrathea_status w) w
                         in upd_node a (process_machine_cluster (w_heap w')) w') st)"

definition and_then :: "('s \<Rightarrow> 's option) \<Rightarrow> ('s \<Rightarrow> 's option) \<Rightarrow> 's \<Rightarrow> 's option" where
  "and_then f g s = (case f s of None \<Rightarrow> None | Some s' \<Rightarrow> g s')"

definition static_metrics :: "metrics \<Rightarrow> nat list \<Rightarrow> cache_state \<Rightarrow> cache_state option" where
  "static_metrics cache nodes =
     and_then (metric_loop cache ''phys_cluster'' set_cluster_on nodes)
       (and_then (metric_loop cache ''scratch_pool'' set_pool_on nodes)
         (and_then (dynamic_values cache)
           (and_then (metric_loop cache ''scratch_local'' (consume_on ''scratch_local'') nodes)
             (and_then (metric_loop cache ''scratch_ssd'' (consume_on ''scratch_ssd'') nodes)
               (metric_loop cache ''scratch_priority'' set_priority_on nodes)))))"

definition query_external_cache :: "metrics \<Rightarrow> bool \<Rightarrow> nat list \<Rightarrow> cache_state \<Rightarrow> cache_state option" where
  "query_external_cache cache dynamic nodes =
     and_then (cache_resources cache nodes)
       (and_then (if dynamic then Some else static_metrics cache nodes)
         (and_then (each decode_node nodes)
           (\<lambda>st. Some (on_world (recount_installing_nodes nodes) st))))"

section \<open>A rule for the whole query\<close>

definition preserves :: "('s \<Rightarrow> bool) \<Rightarrow> ('s \<Rightarrow> 's option) \<Rightarrow> bool" where
  "preserves P f \<longleftrightarrow> (\<forall>s s'. P s \<longrightarrow> f s = Some s' \<longrightarrow> P s')"

lemma preservesI: "(\<And>s s'. P s \<Longrightarrow> f s = Some s' \<Longrightarrow> P s') \<Longrightarrow> preserves P f"
  by (simp add: preserves_def)

lemma preservesD: "preserves P f \<Longrightarrow> f s = Some s' \<Longrightarrow> P s \<Longrightarrow> P s'"
  by (simp add: preserves_def)

lemma preserves_each: "(\<And>x. x \<in> set xs \<Longrightarrow> preserves P (f x)) \<Longrightarrow> preserves P (each f xs)"
proof (induction xs)
  case Nil
  show ?case by (rule preservesI) simp
next
  case (Cons x xs)
  show ?case
  proof (rule preservesI)
    fix s s' assume "P s" and run: "each f (x # xs) s = Some s'"
    then obtain s1 where s1: "f x s = Some s1" "each f xs s1 = Some s'" by (cases "f x s") simp_all
    have x: "preserves P (f x)" and xs: "preserves P (each f xs)" using Cons by simp_all
    show "P s'" using preservesD[OF xs s1(2) preservesD[OF x s1(1) \<open>P s\<close>]] .
  qed
qed

lemma preserves_and_then:
  assumes "preserves P f" "preserves P g" shows "preserves P (and_then f g)"
proof (rule preservesI)
  fix s s' assume "P s" and run: "and_then f g s = Some s'"
  then obtain s1 where s1: "f s = Some s1" "g s1 = Some s'" unfolding and_then_def by (cases "f s") simp_all
  show "P s'" using preservesD[OF assms(2) s1(2)] preservesD[OF assms(1) s1(1) \<open>P s\<close>] by simp
qed

lemma preserves_Some: "preserves P Some"
  by (rule preservesI) simp

lemma preserves_metric:
  assumes "\<And>a v. preserves P (f a v)" shows "preserves P (metric_loop cache name f nodes)"
proof (cases "cache name")
  case None
  then show ?thesis using preserves_Some[of P] by (simp add: preserves_def metric_loop_def)
next
  case (Some tab)
  have "preserves P (with_value tab f a)" for a
  proof (rule preservesI)
    fix s s' assume "P s" "with_value tab f a s = Some s'"
    then show "P s'" using preservesD[OF assms] by (cases "tab (nd_name (node_at (qc_world s) a))") (simp_all add: with_value_def)
  qed
  then have "preserves P (each (with_value tab f) nodes)" by (rule preserves_each)
  then show ?thesis using Some by (simp add: preserves_def metric_loop_def)
qed

text \<open>
  What no refresh touches: the number of nodes, and of each node its assignment, the cores booked on
  it, its name, its links to other nodes and its jobs.
\<close>

definition node_core :: "node_info \<Rightarrow> job_assign \<times> int \<times> string \<times> nat option \<times> nat list \<times> string set" where
  "node_core n = (ni_assign n, nl_core_assigned n, nd_name n, ni_phys_node n, ni_slave_nodes n, nd_jobs n)"

definition cores_of :: "world \<Rightarrow> (job_assign \<times> int \<times> string \<times> nat option \<times> nat list \<times> string set) list" where
  "cores_of w = map node_core (w_nodes w)"

lemma cores_upd_node:
  "(\<And>n. n = node_at w a \<Longrightarrow> node_core (f n) = node_core n) \<Longrightarrow> cores_of (upd_node a f w) = cores_of w"
proof (rule nth_equalityI)
  fix i assume h: "\<And>n. n = node_at w a \<Longrightarrow> node_core (f n) = node_core n" and i: "i < length (cores_of (upd_node a f w))"
  have "i < length (w_nodes w)" using i by (simp add: cores_of_def upd_node_def)
  then show "cores_of (upd_node a f w) ! i = cores_of w ! i"
    using h[OF refl] by (cases "i = a") (simp_all add: cores_of_def upd_node_def node_at_def)
qed (simp add: cores_of_def upd_node_def)

lemma node_core_upd [simp]:
  "node_core (n\<lparr>nd_reg_props := r\<rparr>) = node_core n" "node_core (n\<lparr>nd_resc := s\<rparr>) = node_core n"
  "node_core (n\<lparr>nl_scratch_priority := p\<rparr>) = node_core n" "node_core (n\<lparr>ni_magrathea_status := st\<rparr>) = node_core n"
  "node_core (n\<lparr>ni_rebootable := b\<rparr>) = node_core n" "node_core (n\<lparr>ni_virtual_cluster := v\<rparr>) = node_core n"
  "node_core (n\<lparr>ni_virtual_image := v\<rparr>) = node_core n" "node_core (n\<lparr>ni_building_cluster := b\<rparr>) = node_core n"
  "node_core (n\<lparr>ni_phys_cluster := v\<rparr>) = node_core n" "node_core (n\<lparr>nd_scratch_pool := v\<rparr>) = node_core n"
  by (simp_all add: node_core_def)


lemma set_dynamic_core:
  assumes "set_resource_dynamic env n name v = (env', Inr n')" shows "node_core n' = node_core (n :: node_info)"
proof -
  have reg: "add_reg_props n p i = Inr n' \<Longrightarrow> node_core n' = node_core n" for n n' :: node_info and p i
    by (auto simp: add_reg_props_def Let_def split: option.splits)
  show ?thesis using assms
    by (auto simp: set_resource_dynamic_def register_string_def Let_def split: prod.splits if_splits dest!: reg)
qed

lemma priority_words_core: "priority_words j k t n = Some n' \<Longrightarrow> node_core n' = node_core n"
proof (induction j k t n rule: priority_words.induct)
  case (3 j k str n)
  have p: "set_scratch_priority j s n = Some m \<Longrightarrow> node_core m = node_core n" for j s and n m :: node_info
    by (auto simp: set_scratch_priority_def)
  obtain word rest where s: "(case strchr str (CHR '';'') of None \<Rightarrow> (str, None) | Some (u, v) \<Rightarrow> (u, Some v)) = (word, rest)"
    by fastforce
  then obtain m where m: "(case scratch_word word of None \<Rightarrow> Some n | Some s \<Rightarrow> set_scratch_priority j s n) = Some m"
    "priority_words (Suc j) k rest m = Some n'"
    using "3.prems" by (auto split: option.splits)
  have "node_core m = node_core n" using m(1) p by (auto split: option.splits)
  moreover have "node_core n' = node_core m" using "3.IH"[OF s[symmetric] _ m(1) m(2)] by simp
  ultimately show ?case by simp
qed simp_all

lemma decode_core: "node_core (process_magrathea_status w n) = node_core n" "node_core (process_machine_cluster h n) = node_core n"
  by (simp_all add: process_magrathea_status_def process_machine_cluster_def Let_def split: option.split prod.split)


section \<open>What a refresh keeps\<close>

abbreviation same_cores :: "world \<Rightarrow> cache_state \<Rightarrow> bool" where
  "same_cores w st \<equiv> cores_of (qc_world st) = cores_of w"

lemma keeps_dynamic: "preserves (same_cores w) (set_dynamic_on name a v)"
proof (rule preservesI)
  fix st st' assume same: "same_cores w st" and run: "set_dynamic_on name a v st = Some st'"
  let ?w = "qc_world st"
  obtain env n where r: "set_resource_dynamic \<lparr>e_heap = w_heap ?w, e_reg = qc_reg st\<rparr> (node_at ?w a) name v = (env, Inr n)"
    and st': "qc_world st' = upd_node a (\<lambda>_. n) (?w\<lparr>w_heap := e_heap env\<rparr>)"
    using run by (auto simp: set_dynamic_on_def Let_def split: prod.splits sum.splits)
  have "cores_of (upd_node a (\<lambda>_. n) (?w\<lparr>w_heap := e_heap env\<rparr>)) = cores_of (?w\<lparr>w_heap := e_heap env\<rparr>)"
    by (rule cores_upd_node) (simp add: set_dynamic_core[OF r] node_at_def)
  then show "same_cores w st'" using same st' by (simp add: cores_of_def)
qed

lemma keeps_on_node:
  assumes "\<And>n. node_core (f n) = node_core n"
  shows "same_cores w st \<Longrightarrow> same_cores w (on_world (upd_node a f) st)"
  using cores_upd_node[of "qc_world st" a f] assms by (simp add: on_world_def)

lemma keeps_static:
  "preserves (same_cores w) (set_cluster_on a v)" "preserves (same_cores w) (set_pool_on a v)"
  "preserves (same_cores w) (consume_on name a v)" "preserves (same_cores w) (set_priority_on a v)"
proof -
  show "preserves (same_cores w) (set_cluster_on a v)" "preserves (same_cores w) (set_pool_on a v)"
    using keeps_on_node[where f = "\<lambda>n. n\<lparr>ni_phys_cluster := v\<rparr>" and w = w and a = a]
      keeps_on_node[where f = "set_scratch_pool v" and w = w and a = a]
    by (auto intro!: preservesI simp: set_cluster_on_def set_pool_on_def Let_def set_scratch_pool_def)
  have "cores_of (on_resource a name f x) = cores_of x" for f x
    by (simp add: on_resource_def cores_of_def split: option.split)
  then show "preserves (same_cores w) (consume_on name a v)"
    by (auto intro!: preservesI simp: consume_on_def on_world_def split: option.splits)
  show "preserves (same_cores w) (set_priority_on a v)"
  proof (rule preservesI)
    fix st st' assume same: "same_cores w st" and run: "set_priority_on a v st = Some st'"
    then obtain n where n: "priority_words 0 3 (Some v) (node_at (qc_world st) a) = Some n"
      and st': "st' = on_world (upd_node a (\<lambda>_. n)) st" by (auto simp: set_priority_on_def)
    have "cores_of (upd_node a (\<lambda>_. n) (qc_world st)) = cores_of (qc_world st)"
      by (rule cores_upd_node) (simp add: priority_words_core[OF n])
    then show "same_cores w st'" using same st' by (simp add: on_world_def)
  qed
qed

lemma keeps_dynamic_values: "preserves (same_cores w) (dynamic_values cache)"
proof (rule preservesI)
  fix st st' assume same: "same_cores w st" and run: "dynamic_values cache st = Some st'"
  have "same_cores w (fold (\<lambda>(_, i) s. if ri_source i = ResCheckDynamic then
      (case tab (ri_name i) of None \<Rightarrow> s
       | Some v \<Rightarrow> on_world (\<lambda>w. w\<lparr>w_dynamic_resources :=
           smap_insert (ri_name i) (new_dynamic_resource (ri_name i) v) (w_dynamic_resources w)\<rparr>) s) else s) db s)"
    if "same_cores w s" for tab db s
    using that by (induction db arbitrary: s) (auto simp: on_world_def cores_of_def split: option.splits)
  then show "same_cores w st'" using run same by (auto simp: dynamic_values_def split: option.splits)
qed

lemma keeps_decode: "preserves (same_cores w) (decode_node a)"
proof (rule preservesI)
  fix st st' assume same: "same_cores w st" and run: "decode_node a st = Some st'"
  let ?w = "upd_node a (process_magrathea_status (qc_world st)) (qc_world st)"
  have "qc_world st' = upd_node a (process_machine_cluster (w_heap ?w)) ?w"
    using run by (auto simp: decode_node_def on_world_def Let_def)
  then show "same_cores w st'" using same cores_upd_node[of ?w a] cores_upd_node[of "qc_world st" a] decode_core by metis
qed

lemma query_keeps_cores:
  assumes "query_external_cache cache dynamic nodes st = Some st'"
  shows "cores_of (qc_world st') = cores_of (qc_world st)"
proof -
  let ?P = "same_cores (qc_world st)"
  have res: "preserves ?P (cache_resources cache nodes)"
  proof (rule preservesI)
    fix s s' assume "?P s" and run: "cache_resources cache nodes s = Some s'"
    have "preserves ?P (each (\<lambda>(_, i). if ri_source i = ResCheckBoth \<or> ri_source i = ResCheckCache
        then metric_loop cache (ri_name i) (set_dynamic_on (ri_name i)) nodes else Some) (qc_db s))"
      by (rule preserves_each) (simp add: preserves_metric[OF keeps_dynamic] preserves_Some split: prod.split)
    then show "?P s'" using run \<open>?P s\<close> unfolding cache_resources_def by (rule preservesD)
  qed
  have static: "preserves ?P (static_metrics cache nodes)"
    unfolding static_metrics_def
    by (intro preserves_and_then preserves_metric keeps_static keeps_dynamic_values)
  have rec: "preserves ?P (\<lambda>st. Some (on_world (recount_installing_nodes nodes) st))"
    by (rule preservesI) (auto simp: on_world_def recount_installing_nodes_def cores_of_def)
  have all: "preserves ?P (query_external_cache cache dynamic nodes)"
    unfolding query_external_cache_def
    by (intro preserves_and_then res rec preserves_each keeps_decode) (simp add: static preserves_Some)
  show ?thesis using preservesD[OF all assms] by simp
qed


section \<open>What a refresh forgets\<close>

text \<open>A value from the cache replaces the resource: what was booked on it before is dropped.\<close>

lemma set_dynamic_forgets:
  assumes "rs_ok (w_heap (qc_world st)) (nd_resc (node_at (qc_world st) a))" and "a < length (w_nodes (qc_world st))"
    and "set_dynamic_on name a v st = Some st'" and "is_num v"
  shows "\<exists>r. nd_get_resource (w_heap (qc_world st')) (node_at (qc_world st') a) name = Some r \<and>
     r_assign r = RESC_UNSPECIFIED \<and> r_avail r = res_to_num v"
proof -
  let ?w = "qc_world st" and ?n = "node_at (qc_world st) a"
  obtain h s c where g: "get_alloc_resource (w_heap ?w) (nd_resc ?n) name = (h, s, c)" by (metis surj_pair)
  let ?r = "set_avail (reset_resource (h ! c)) v"
  have num: "\<not> is_string ?r" using assms(4) by (simp add: is_string_def set_avail_def)
  have st': "qc_world st' = upd_node a (\<lambda>_. ?n\<lparr>nd_resc := s\<rparr>) (?w\<lparr>w_heap := h[c := ?r]\<rparr>)"
    using assms(3) g num by (auto simp: set_dynamic_on_def set_resource_dynamic_def Let_def)
  have c: "smap_find s name = Some c" "c < length h" using get_alloc_resource_ok[OF assms(1) g] by simp_all
  then show ?thesis
    using st' assms(2,4) by (simp add: node_at_def upd_node_def nd_get_resource_def rs_lookup_def set_avail_def reset_resource_def)
qed

text \<open>A scratch priority of fewer than three words makes the scheduler follow a null pointer.\<close>

lemma priority_words_None: "0 < k \<Longrightarrow> priority_words j k None n = None"
  by (cases k) simp_all

lemma short_priority_fails:
  assumes "count_list v (CHR '';'') < 2" shows "priority_words 0 3 (Some v) n = None"
proof -
  have two: "priority_words j (Suc (Suc k)) (Some u) n = None" if "CHR '';'' \<notin> set u" for j k u and n
    using that by (simp add: strchr_def priority_words_None split: option.split)
  show ?thesis
  proof (cases "CHR '';'' \<in> set v")
    case True
    then obtain x y where xy: "v = x @ CHR '';'' # y" "CHR '';'' \<notin> set x" by (meson split_list_first)
    then have y: "CHR '';'' \<notin> set y" using assms by (simp add: count_list_0_iff)
    have "strchr v (CHR '';'') = Some (x, y)" using xy by (auto simp: strchr_def takeWhile_append2 dropWhile_append)
    then show ?thesis using two[OF y, of "Suc 0" 0] by (simp add: numeral_3_eq_3 split: option.split)
  qed (simp add: two numeral_3_eq_3 del: priority_words.simps)
qed

text \<open>The same, field by field.\<close>

lemma cores_kept:
  assumes "cores_of w' = cores_of w"
  shows "length (w_nodes w') = length (w_nodes w) \<and>
     (\<forall>a < length (w_nodes w). ni_assign (node_at w' a) = ni_assign (node_at w a) \<and>
        nl_core_assigned (node_at w' a) = nl_core_assigned (node_at w a) \<and> nd_name (node_at w' a) = nd_name (node_at w a) \<and>
        nd_jobs (node_at w' a) = nd_jobs (node_at w a))"
proof -
  have m: "map node_core (w_nodes w') = map node_core (w_nodes w)" using assms by (simp add: cores_of_def)
  have len: "length (w_nodes w') = length (w_nodes w)" by (rule map_eq_imp_length_eq[OF m])
  have "node_core (node_at w' a) = node_core (node_at w a)" if "a < length (w_nodes w)" for a
    using map_nth_eq[OF m, of a] len that by (simp add: node_at_def)
  then show ?thesis using len by (auto simp: node_core_def)
qed

end
