(* ===== verification/JobQueries.thy ===== *)
theory JobQueries
  imports ExternalCache
begin

text \<open>
  Reading jobs from the server and writing their attributes back: \<open>src/job_info.cpp\<close>.  A request to the server is a
  value; the functions return the requests they send.  The texts written to the log are not modelled.
\<close>

section \<open>Requests\<close>

datatype request =
    AlterJob string string string
  | UnsetJob string string string
  | AlterFairshare string rat
  | RunJob string "string option"
  | MoveJob string string "string option"

section \<open>Comments\<close>

definition NO_AVAILABLE_NODE :: int where "NO_AVAILABLE_NODE = RET_BASE + 14"
definition NOT_ENOUGH_NODES_AVAIL :: int where "NOT_ENOUGH_NODES_AVAIL = RET_BASE + 15"
definition JOB_STARVING :: int where "JOB_STARVING = RET_BASE + 16"
definition SCHD_ERROR :: int where "SCHD_ERROR = RET_BASE + 2"
definition SERVER_TOKEN_UTILIZATION :: int where "SERVER_TOKEN_UTILIZATION = RET_BASE + 17"
definition JOB_FAILED_MOVE :: int where "JOB_FAILED_MOVE = RET_BASE + 22"
definition NODESPEC_NOT_ENOUGH_NODES_INTERSECT :: int where "NODESPEC_NOT_ENOUGH_NODES_INTERSECT = RET_BASE + 21"
definition INSUFICIENT_SERVER_RESOURCE :: int where "INSUFICIENT_SERVER_RESOURCE = RET_BASE + 25"
definition INSUFICIENT_QUEUE_RESOURCE :: int where "INSUFICIENT_QUEUE_RESOURCE = RET_BASE + 26"
definition NODE_STILL_BOOTING :: int where "NODE_STILL_BOOTING = RET_BASE + 28"
definition NOT_QUEUED :: int where "NOT_QUEUED = RET_BASE + 3"

lemmas more_codes =
  NO_AVAILABLE_NODE_def
  NOT_ENOUGH_NODES_AVAIL_def
  JOB_STARVING_def
  SCHD_ERROR_def
  SERVER_TOKEN_UTILIZATION_def
  JOB_FAILED_MOVE_def
  NODESPEC_NOT_ENOUGH_NODES_INTERSECT_def
  INSUFICIENT_SERVER_RESOURCE_def
  INSUFICIENT_QUEUE_RESOURCE_def
  NODE_STILL_BOOTING_def
  NOT_QUEUED_def

definition MAX_COMMENT_SIZE :: nat where "MAX_COMMENT_SIZE = 100"

definition COMMENT_STRICT_FIFO :: string where "COMMENT_STRICT_FIFO = ''Not Running: Strict fifo order''"
definition COMMENT_NODE_STILL_BOOTING :: string where
  "COMMENT_NODE_STILL_BOOTING = ''Not Running: One of desired nodes is still booting.''"

text \<open>The table \<open>translate_job_fail_code\<close> switches over.\<close>

definition comment_table :: "(int \<times> string) list" where
  "comment_table =
     [(QUEUE_JOB_LIMIT_REACHED, ''Not Running: Queue job limit has been reached.''),
      (SERVER_JOB_LIMIT_REACHED, ''Not Running: Server job limit has been reached.''),
      (SERVER_USER_LIMIT_REACHED, ''Not Running: User has reached server running job limit.''),
      (QUEUE_USER_LIMIT_REACHED, ''Not Running: User has reached queue running job limit.''),
      (QUEUE_GROUP_LIMIT_REACHED, ''Not Running: Group has reached queue running limit.''),
      (SERVER_GROUP_LIMIT_REACHED, ''Not Running: Group has reached server running limit.''),
      (CROSS_DED_TIME_BOUNDRY, ''Not Running: Job would cross dedicated time boundry''),
      (NO_AVAILABLE_NODE, ''Not Running: All timesharing nodes are too loaded to run job''),
      (NOT_ENOUGH_NODES_AVAIL, ''Not Running: Not enough of the right type of nodes are available''),
      (JOB_STARVING, ''Not Running: Draining system to allow starving job to run''),
      (SCHD_ERROR, ''Not Running: An internal scheduling error has occured''),
      (SERVER_TOKEN_UTILIZATION, ''Not Running: Max token usage reached''),
      (JOB_FAILED_MOVE, ''Not Moving: Job couldn'' @ [CHR 0x27] @ ''t be assigned to any server''),
      (NODESPEC_NOT_ENOUGH_NODES_TOTAL, ''Not Running: Not enough nodes fitting the nodespec found''),
      (NODESPEC_NOT_ENOUGH_NODES_INTERSECT, ''Not Running: Not enough nodes fitting the nodespec available''),
      (CLUSTER_RUNNING, ''Not Running: Cluster with the same name already running''),
      (CLUSTER_PERMISSIONS, ''Not Running: Job owner does not have permission to run jobs inside the cluster''),
      (INSUFICIENT_SERVER_RESOURCE, ''Not Running: Resource request couldn'' @ [CHR 0x27] @ ''t be satisfied using server resources.''),
      (INSUFICIENT_QUEUE_RESOURCE, ''Not Running: Resource request couldn'' @ [CHR 0x27] @ ''t be satisfied using queue resources.''),
      (INSUFICIENT_DYNAMIC_RESOURCE, ''Not Running: Dynamic resource request couldn'' @ [CHR 0x27] @ ''t be satisfied.''),
      (NODE_STILL_BOOTING, ''Not Running: One of desired nodes is still booting.''),
      (QUEUE_PROC_LIMIT_REACHED, ''Not Running: Queue has reached occupied processors limit.''),
      (QUEUE_USER_PROC_LIMIT_REACHED, ''Not Running: User has reached queue occupied processors limit.''),
      (QUEUE_GROUP_PROC_LIMIT_REACHED, ''Not Running: Group has reached queue occupied processor limit.''),
      (REQUEST_NOT_MATCHED, ''Never Running: This jobs requirements will never be satisfied under the current grid configuration.''),
      (SCHEDULER_LOOP_RUN_LIMIT_REACHED, ''Not Running: Internal scheduler limit for job executions of a single user reached.''),
      (UNKNOWN_LOCATION_PROPERTY_REQUEST, ''Not Running: Unknown location property request.''),
      (JOB_SCHEDULED, ''Not Running: Job has received an allocation of nodes, waiting for running jobs to end.'')]"

text \<open>
  The comment, if one is set.  \<open>None\<close>: the exception for a code below 1000, or the null pointer \<open>starving_job\<close> that
  no part of the program sets.
\<close>

definition translate_job_fail_code :: "int \<Rightarrow> string option option" where
  "translate_job_fail_code fail_code =
     (if fail_code < 1000 \<or> fail_code = JOB_STARVING then None else Some (map_of comment_table fail_code))"

section \<open>Attributes of a job\<close>

text \<open>\<open>update_job_comment\<close>: the code, the job and what is sent; nothing is sent when the comment is the same.\<close>

definition update_job_comment :: "string \<Rightarrow> job_info \<Rightarrow> int \<times> job_info \<times> request list" where
  "update_job_comment comment job =
     (if ji_comment job \<noteq> comment
      then (0, job\<lparr>ji_comment := comment\<rparr>, [AlterJob (ji_job_id job) ''comment'' comment])
      else (1, job, []))"

text \<open>The planned values are sent when they differ from those the server reported; the job itself keeps the latter.\<close>

definition update_job_planned_nodes :: "string \<Rightarrow> job_info \<Rightarrow> request list" where
  "update_job_planned_nodes nodes job =
     (if ji_planned_nodes job \<noteq> nodes then [AlterJob (ji_job_id job) ''planned_nodes'' nodes] else [])"

definition update_job_waiting_for :: "string \<Rightarrow> job_info \<Rightarrow> request list" where
  "update_job_waiting_for waiting job =
     (if ji_waiting_for job \<noteq> waiting then [AlterJob (ji_job_id job) ''waiting_for_jobs'' waiting] else [])"

definition update_job_earliest_start :: "int \<Rightarrow> job_info \<Rightarrow> request list" where
  "update_job_earliest_start earliest_start job =
     (if ji_planned_start job \<noteq> earliest_start
      then [AlterJob (ji_job_id job) ''planned_start'' (show_int earliest_start)] else [])"

definition update_job_fairshare :: "rat \<Rightarrow> job_info \<Rightarrow> request list" where
  "update_job_fairshare fairshare job = [AlterFairshare (ji_job_id job) fairshare]"

text \<open>\<open>update_job_planned_start\<close> of a job of the plan; a start before the year 2000 unsets the attribute.\<close>

definition update_job_planned_start :: "int \<Rightarrow> job_info \<Rightarrow> int \<times> job_info \<times> request list" where
  "update_job_planned_start start_time job =
     (if ji_planned_start job \<noteq> start_time then
        (0, job\<lparr>ji_planned_start := start_time\<rparr>,
         [if start_time > 946681200 then AlterJob (ji_job_id job) ''planned_start'' (show_int start_time)
          else UnsetJob (ji_job_id job) ''planned_start'' ''0''])
      else (1, job, []))"

section \<open>Jobs that cannot run\<close>

definition START_BEFORE_JOB :: int where "START_BEFORE_JOB = - 1"
definition START_AFTER_JOB :: int where "START_AFTER_JOB = 1"

text \<open>
  Where the loop starts, as a \<open>size_t\<close>: one before the first element wraps to the largest value.  A vector never
  reaches that size, so the loop does not run then.
\<close>

definition cant_run_start :: "nat list \<Rightarrow> nat option \<Rightarrow> int \<Rightarrow> nat option" where
  "cant_run_start jobs start start_where =
     (let i = (case start of None \<Rightarrow> 0 | Some j \<Rightarrow> length (takeWhile (\<lambda>x. x \<noteq> j) jobs))
      in if i \<ge> length jobs then None
         else if start_where = START_BEFORE_JOB then Some (if i = 0 then 2 ^ 64 - 1 else i - 1)
         else if start_where = START_AFTER_JOB then Some (i + 1)
         else Some i)"

definition cant_run :: "string \<Rightarrow> nat \<Rightarrow> server_info \<times> request list \<Rightarrow> server_info \<times> request list" where
  "cant_run comment j = (\<lambda>(s, sent).
     (let (_, job, req) = update_job_comment comment ((job_at s j)\<lparr>ji_can_not_run := True\<rparr>)
      in (upd_job j (\<lambda>_. job) s, sent @ req)))"

definition update_jobs_cant_run :: "nat list \<Rightarrow> nat option \<Rightarrow> string \<Rightarrow> int \<Rightarrow> server_info \<Rightarrow> server_info \<times> request list" where
  "update_jobs_cant_run jobs start comment start_where s =
     (case cant_run_start jobs start start_where of
        None \<Rightarrow> (s, [])
      | Some i \<Rightarrow> fold (cant_run comment) (drop i jobs) (s, []))"

section \<open>Querying jobs\<close>

text \<open>
  One job of the reply: its group is looked up or created in the fairshare tree of its queue, and only a queued
  job may be considered.
\<close>

definition query_job :: "(string \<Rightarrow> tree_error + group_info) \<Rightarrow> string \<Rightarrow> batch_status \<Rightarrow> group_info smap \<Rightarrow>
    tree_error + (job_info \<times> group_info smap)" where
  "query_job build tree reply trees =
     (let job = new_job_info reply
      in case get_tree build tree trees of
           Inl e \<Rightarrow> Inl e
         | Inr (_, trees1) \<Rightarrow>
             Inr (if ji_state job \<noteq> JobQueued then job\<lparr>ji_can_not_run := True\<rparr> else job,
                  smap_modify tree (find_alloc_ginfo (ji_account job)) trees1))"

fun query_job_list :: "(string \<Rightarrow> tree_error + group_info) \<Rightarrow> string \<Rightarrow> batch_status list \<Rightarrow> group_info smap \<Rightarrow>
    tree_error + (job_info list \<times> group_info smap)" where
  "query_job_list build tree [] trees = Inr ([], trees)"
| "query_job_list build tree (b # bs) trees =
     (case query_job build tree b trees of
        Inl e \<Rightarrow> Inl e
      | Inr (job, trees1) \<Rightarrow> map_sum id (\<lambda>(jobs, trees2). (job # jobs, trees2)) (query_job_list build tree bs trees1))"

text \<open>
  \<open>query_jobs\<close> with the answer of \<open>pbs_selstat\<close>: a list of jobs or, when it is null, the error number.  The
  result is \<open>False\<close> for an error.
\<close>

definition query_jobs :: "(string \<Rightarrow> tree_error + group_info) \<Rightarrow> string \<Rightarrow> int + batch_status list \<Rightarrow> group_info smap \<Rightarrow>
    tree_error + (bool \<times> job_info list \<times> group_info smap)" where
  "query_jobs build tree answer trees =
     (case answer of
        Inl errno \<Rightarrow> Inr (\<not> errno > 0, [], trees)
      | Inr jobs \<Rightarrow> map_sum id (\<lambda>(js, ts). (True, js, ts)) (query_job_list build tree jobs trees))"

section \<open>Properties\<close>

text \<open>The buffer for a comment holds 100 characters with the terminating zero; the longest text fills it.\<close>

lemma comment_fits:
  assumes "translate_job_fail_code code = Some (Some c)" shows "c \<noteq> [] \<and> length c < MAX_COMMENT_SIZE"
proof -
  have "\<forall>(k, c) \<in> set comment_table. c \<noteq> [] \<and> length c < MAX_COMMENT_SIZE"
    by (simp add: comment_table_def MAX_COMMENT_SIZE_def)
  moreover have "(code, c) \<in> set comment_table"
    using assms by (auto simp: translate_job_fail_code_def dest: map_of_SomeD split: if_splits)
  ultimately show ?thesis by blast
qed


text \<open>Every code a check of a job refuses with has a comment.\<close>

definition explained :: "int \<Rightarrow> bool" where
  "explained rc \<longleftrightarrow> (case translate_job_fail_code rc of Some (Some _) \<Rightarrow> True | _ \<Rightarrow> False)"

lemma explained_codes:
  "explained SERVER_JOB_LIMIT_REACHED" "explained SERVER_USER_LIMIT_REACHED" "explained SERVER_GROUP_LIMIT_REACHED"
  "explained QUEUE_JOB_LIMIT_REACHED" "explained QUEUE_USER_LIMIT_REACHED" "explained QUEUE_GROUP_LIMIT_REACHED"
  "explained QUEUE_PROC_LIMIT_REACHED" "explained QUEUE_USER_PROC_LIMIT_REACHED" "explained QUEUE_GROUP_PROC_LIMIT_REACHED"
  "explained CROSS_DED_TIME_BOUNDRY" "explained CLUSTER_PERMISSIONS" "explained CLUSTER_RUNNING"
  "explained INSUFICIENT_DYNAMIC_RESOURCE" "explained NODESPEC_NOT_ENOUGH_NODES_TOTAL" "explained REQUEST_NOT_MATCHED"
  "explained JOB_SCHEDULED" "explained SCHEDULER_LOOP_RUN_LIMIT_REACHED" "explained UNKNOWN_LOCATION_PROPERTY_REQUEST"
  by (simp_all add: explained_def translate_job_fail_code_def comment_table_def code_defs more_codes ret_codes)

definition explains :: "(server_info \<Rightarrow> (int \<times> server_info) option) \<Rightarrow> bool" where
  "explains c \<longleftrightarrow> (\<forall>s rc s'. c s = Some (rc, s') \<longrightarrow> rc = 0 \<or> explained rc)"

lemma explains_limits: "\<forall>c \<in> set (limit_checks q job). explains c"
  by (auto simp: limit_checks_def explains_def check_server_max_run_def check_queue_max_run_def
      check_server_max_user_run_def check_server_max_group_run_def check_queue_max_user_run_def
      check_queue_max_group_run_def explained_codes Let_def split: if_splits prod.splits)

lemma explains_checks:
  "explains (proc_check ce q j)" "explains (ded_check ce j)" "explains (cloud_step ce j)" "explains (resource_check ce j)"
  by (auto simp: explains_def proc_check_def check_queue_proc_limits_def ded_check_def check_ded_time_boundry_def
      cloud_step_def cloud_check_def resource_check_def explained_codes Let_def split: if_splits option.splits prod.splits)

lemma run_checks_explains: "\<forall>c \<in> set cs. explains c \<Longrightarrow> explains (run_checks cs)"
  unfolding explains_def
  by (induction cs) (force split: option.splits if_splits)+

lemma search_explains:
  "search_nodes ce j nodes s = Some (rc, s') \<Longrightarrow> rc \<noteq> SUCCESS \<Longrightarrow> explained rc"
  by (auto simp: search_nodes_def check_nodespec_def check_occupied_def Let_def explained_codes split: option.splits if_splits)

lemma refusal_explained:
  assumes "is_ok_to_run_job ce j s = Some (rc, s')" and "rc \<noteq> SUCCESS" shows "explained rc"
proof -
  let ?cs = "\<lambda>q. limit_checks q (job_at s j) @ [proc_check ce q j, ded_check ce j, cloud_step ce j, resource_check ce j]"
  have "explains (run_checks (?cs q))" for q
    by (rule run_checks_explains) (use explains_limits explains_checks in auto)
  then have e: "run_checks (?cs q) x = Some (r, y) \<Longrightarrow> r \<noteq> 0 \<Longrightarrow> explained r" for q x r y
    by (auto simp: explains_def)
  show ?thesis
    using assms
    by (auto simp: is_ok_to_run_job_def Let_def then_search_Some explained_codes dest: e search_explains split: if_splits)
qed

section \<open>Queried jobs\<close>

text \<open>A tree the scheduler works with has the group new owners are put into.\<close>

definition trees_ok :: "group_info smap \<Rightarrow> bool" where
  "trees_ok trees \<longleftrightarrow> (\<forall>n t. smap_find trees n = Some t \<longrightarrow> find_core ''unknown'' t \<noteq> None)"

definition builds_ok :: "(string \<Rightarrow> tree_error + group_info) \<Rightarrow> bool" where
  "builds_ok build \<longleftrightarrow> (\<forall>n t. build n = Inr t \<longrightarrow> find_core ''unknown'' t \<noteq> None)"

definition has_group :: "group_info smap \<Rightarrow> string \<Rightarrow> string \<Rightarrow> bool" where
  "has_group trees tree account \<longleftrightarrow>
     (case smap_find trees tree of None \<Rightarrow> False | Some t \<Rightarrow> find_core account t \<noteq> None)"

lemma query_job_spec:
  assumes "trees_ok trees" "builds_ok build" "query_job build tree b trees = Inr (job, trees')"
  shows "trees_ok trees'" "has_group trees' tree (ji_account job)" "ji_state job \<noteq> JobQueued \<Longrightarrow> ji_can_not_run job"
    "has_group trees tree a \<Longrightarrow> has_group trees' tree a"
proof -
  obtain t trees1 where g: "get_tree build tree trees = Inr (t, trees1)"
    and tr: "trees' = smap_modify tree (find_alloc_ginfo (ji_account job)) trees1"
    and j: "ji_state job \<noteq> JobQueued \<longrightarrow> ji_can_not_run job"
    using assms(3) by (auto simp: query_job_def Let_def split: sum.splits)
  have t1: "smap_find trees1 tree = Some t" "trees_ok trees1" "\<And>n. smap_find trees n \<noteq> None \<Longrightarrow> smap_find trees1 n = smap_find trees n"
    using g assms(1,2)
    by (auto simp: get_tree_def trees_ok_def builds_ok_def smap_find_insert split: option.splits sum.splits if_splits)
  have u: "find_core ''unknown'' t \<noteq> None" using t1 by (auto simp: trees_ok_def)
  note f = find_alloc_spec[OF u]
  show "ji_state job \<noteq> JobQueued \<Longrightarrow> ji_can_not_run job" using j by simp
  show "has_group trees' tree (ji_account job)"
    using t1(1) by (simp add: tr has_group_def smap_find_modify f)
  show "trees_ok trees'"
    unfolding trees_ok_def tr smap_find_modify
  proof (intro allI impI)
    fix n x assume x: "(if n = tree then map_option (find_alloc_ginfo (ji_account job)) (smap_find trees1 tree) else smap_find trees1 n) = Some x"
    show "find_core ''unknown'' x \<noteq> None"
      using x t1(1,2) u f[of "''unknown''" "ji_account job"] by (auto simp: trees_ok_def split: if_splits)
  qed
  show "has_group trees tree a \<Longrightarrow> has_group trees' tree a"
    using t1(1) t1(3)[of tree] f[of a "ji_account job"]
    by (auto simp: has_group_def tr smap_find_modify split: option.splits)
qed

lemma query_job_list_spec:
  assumes "trees_ok trees" "builds_ok build" "query_job_list build tree bs trees = Inr (jobs, trees')"
  shows "trees_ok trees' \<and> (\<forall>a. has_group trees tree a \<longrightarrow> has_group trees' tree a) \<and> length jobs = length bs \<and>
     (\<forall>job \<in> set jobs. has_group trees' tree (ji_account job) \<and> (ji_state job \<noteq> JobQueued \<longrightarrow> ji_can_not_run job))"
  using assms(1,3)
proof (induction bs arbitrary: trees jobs)
  case (Cons b bs)
  then obtain job t1 js where q: "query_job build tree b trees = Inr (job, t1)"
    and r: "query_job_list build tree bs t1 = Inr (js, trees')" and jobs: "jobs = job # js"
    by (cases "query_job build tree b trees"; cases "query_job_list build tree bs (snd (projr (query_job build tree b trees)))")
      (auto split: prod.splits)
  note s = query_job_spec[OF Cons.prems(1) assms(2) q]
  show ?case using Cons.IH[OF s(1) r] s jobs by auto
qed simp

end
