(* ===== verification/Cycle.thy ===== *)
theory Cycle
  imports JobQueries
begin

text \<open>
  One scheduling cycle: \<open>next_job\<close> and \<open>job_is_movable\<close> of \<open>src/fifo.cpp\<close>, \<open>World::try_run_job\<close> and the main loop of
  \<open>World::run\<close> of \<open>src/SchedulerRealm.cpp\<close>.  The answers of
  the server, the clock and the site cache are the inputs of a step; everything the scheduler sends
  is recorded in the state.  \<open>None\<close> is an exception, a failed precondition or a null pointer.
\<close>

section \<open>State\<close>

record cycle =
  cy_server :: server_info
  cy_reg :: prop_registry
  cy_trees :: "group_info smap"
  cy_last_queue :: nat
  cy_last_job :: int
  cy_sent :: "request list"
  cy_active :: bool
  cy_run_errors :: nat

text \<open>What one pass of the main loop reads from outside.\<close>

record step_input =
  in_time :: int
  in_reply :: int
  in_cache :: metrics

definition on_server :: "(server_info \<Rightarrow> server_info) \<Rightarrow> cycle \<Rightarrow> cycle" where
  "on_server f cy = cy\<lparr>cy_server := f (cy_server cy)\<rparr>"

definition send :: "request list \<Rightarrow> cycle \<Rightarrow> cycle" where
  "send reqs cy = cy\<lparr>cy_sent := cy_sent cy @ reqs\<rparr>"

section \<open>The next job\<close>

text \<open>
  What the selection reads of a job: the pointer \<open>ginfo\<close> stands for the group named like the owner in the tree of the
  queue, which \<open>query_jobs\<close> has looked up or created.
\<close>

record fs_entry = fs_job +
  fe_index :: nat

definition job_group :: "group_info smap \<Rightarrow> server_info \<Rightarrow> nat \<Rightarrow> group_data option" where
  "job_group trees s j =
     (case smap_find trees (qs_fairshare_tree (queue_of s j)) of
        None \<Rightarrow> None | Some t \<Rightarrow> find_ginfo (ji_account (job_at s j)) t)"

definition fs_entry_of :: "group_info smap \<Rightarrow> server_info \<Rightarrow> nat \<Rightarrow> fs_entry option" where
  "fs_entry_of trees s j =
     map_option (\<lambda>g. \<lparr>fj_job = job_at s j, fj_queue_priority = qi_priority (qs_info (queue_of s j)),
                      fj_percentage = g_percentage g, fj_temp_usage = g_temp_usage g, fe_index = j\<rparr>)
       (job_group trees s j)"

definition fs_entries :: "group_info smap \<Rightarrow> server_info \<Rightarrow> nat list \<Rightarrow> fs_entry list option" where
  "fs_entries trees s js = those (map (fs_entry_of trees s) js)"

text \<open>By queue and fairshare: the queues from \<open>last_queue\<close> on; the array ends with a null pointer.\<close>

fun fair_queues :: "bool \<Rightarrow> group_info smap \<Rightarrow> server_info \<Rightarrow> queue_state list \<Rightarrow> nat \<Rightarrow> (nat option \<times> nat) option" where
  "fair_queues prio trees s [] last_queue = None"
| "fair_queues prio trees s (q # qs) last_queue =
     (case fs_entries trees s (qs_jobs q) of
        None \<Rightarrow> None
      | Some es \<Rightarrow>
          (case extract_fairshare prio es of
             Some e \<Rightarrow> Some (Some (fe_index e), last_queue)
           | None \<Rightarrow> if qs = [] then Some (None, last_queue + 1) else fair_queues prio trees s qs (last_queue + 1)))"

text \<open>By queue without fairshare: the loop that leaves finished queues and skips jobs that cannot run.\<close>

function skip_loop :: "(nat \<Rightarrow> bool) \<Rightarrow> nat list list \<Rightarrow> nat \<Rightarrow> nat \<Rightarrow> (nat \<times> nat) option" where
  "skip_loop stuck queues last_queue last_job =
     (if last_queue < length queues then
        (let jobs = queues ! last_queue
         in if last_job = length jobs then skip_loop stuck queues (last_queue + 1) 0
            else if last_job > length jobs then None
            else if stuck (jobs ! last_job) then skip_loop stuck queues last_queue (last_job + 1)
            else Some (last_queue, last_job))
      else Some (last_queue, last_job))"
  by pat_completeness auto

termination skip_loop
  by (relation "measures [\<lambda>(st, qs, lq, lj). length qs - lq, \<lambda>(st, qs, lq, lj). length (qs ! lq) - lj]") auto

declare skip_loop.simps [simp del]

definition next_in_queues :: "server_info \<Rightarrow> nat \<Rightarrow> int \<Rightarrow> (nat option \<times> nat \<times> int) option" where
  "next_in_queues s last_queue last_job =
     (case skip_loop (\<lambda>j. ji_can_not_run (job_at s j)) (map qs_jobs (si_queues s)) last_queue (nat (last_job + 1)) of
        None \<Rightarrow> None
      | Some (lq, lj) \<Rightarrow>
          Some (if lq = length (si_queues s) then None
                else if int lj < sc_total (qs_sc (queue_at s lq)) then Some (qs_jobs (queue_at s lq) ! lj)
                else None, lq, int lj))"

text \<open>The whole server as one queue: the jobs from the one after \<open>last_job\<close> on.\<close>

definition next_in_server :: "server_info \<Rightarrow> int \<Rightarrow> (nat option \<times> int) option" where
  "next_in_server s last_job =
     (let lj = nat (last_job + 1); jobs = si_jobs s;
          lj' = lj + length (takeWhile (\<lambda>j. ji_can_not_run (job_at s j)) (drop lj jobs))
      in if lj > length jobs then None
         else Some (if lj' = length jobs then None else Some (jobs ! lj'), int lj'))"

definition next_job_init :: "policy \<Rightarrow> cycle \<Rightarrow> cycle option" where
  "next_job_init p cy =
     (if po_round_robin p then None
      else if po_by_queue p then Some (cy\<lparr>cy_last_job := - 1, cy_last_queue := 0\<rparr>)
      else Some (cy\<lparr>cy_last_job := - 1\<rparr>))"

definition next_job :: "config \<Rightarrow> policy \<Rightarrow> cycle \<Rightarrow> (nat option \<times> cycle) option" where
  "next_job conf p cy =
     (let s = cy_server cy
      in if po_round_robin p then None
         else if po_by_queue p then
           (if po_fair_share p then
              map_option (\<lambda>(j, lq). (j, cy\<lparr>cy_last_queue := lq\<rparr>))
                (fair_queues (cf_priority_fairshare conf) (cy_trees cy) s (drop (cy_last_queue cy) (si_queues s))
                  (cy_last_queue cy))
            else
              map_option (\<lambda>(j, lq, lj). (j, cy\<lparr>cy_last_queue := lq, cy_last_job := lj\<rparr>))
                (next_in_queues s (cy_last_queue cy) (cy_last_job cy)))
         else if po_fair_share p then
           map_option (\<lambda>es. (map_option fe_index (extract_fairshare_server es), cy))
             (those (map (\<lambda>(_, js). fs_entries (cy_trees cy) s js) (si_jobs_by_owner s)))
         else
           map_option (\<lambda>(j, lj). (j, cy\<lparr>cy_last_job := lj\<rparr>)) (next_in_server s (cy_last_job cy)))"

definition job_is_movable :: "server_info \<Rightarrow> nat \<Rightarrow> bool" where
  "job_is_movable s j \<longleftrightarrow>
     \<not> (ji_can_not_run (job_at s j) \<or> \<not> qi_is_global (qs_info (queue_of s j)) \<or> ji_state (job_at s j) \<noteq> JobQueued)"

section \<open>Running a job\<close>

definition is_remote :: "config \<Rightarrow> job_info \<Rightarrow> bool" where
  "is_remote conf job \<longleftrightarrow> \<not> has_substr (ji_job_id job) (cf_local_server conf)"

text \<open>The request that starts a job: a local job is run, a remote one is moved here.\<close>

definition start_request :: "config \<Rightarrow> queue_info \<Rightarrow> job_info \<Rightarrow> string option \<Rightarrow> request" where
  "start_request conf q job nodes =
     (if is_remote conf job then MoveJob (ji_job_id job) (qi_name q @ ''@'' @ cf_local_server conf) nodes
      else RunJob (ji_job_id job) nodes)"

definition comment_job :: "nat \<Rightarrow> string \<Rightarrow> cycle \<Rightarrow> cycle" where
  "comment_job j comment cy =
     (let (_, job, reqs) = update_job_comment comment (job_at (cy_server cy) j)
      in send reqs (on_server (upd_job j (\<lambda>_. job)) cy))"

text \<open>The usage of the owner grows when the job starts.\<close>

definition usage_on_run :: "nat \<Rightarrow> cycle \<Rightarrow> cycle option" where
  "usage_on_run j cy =
     (let s = cy_server cy
      in case job_group (cy_trees cy) s j of
           None \<Rightarrow> None
         | Some g \<Rightarrow>
             map_option (\<lambda>g'. cy\<lparr>cy_trees := smap_modify (qs_fairshare_tree (queue_of s j))
                 (upd_ginfo (ji_account (job_at s j)) (\<lambda>_. g')) (cy_trees cy)\<rparr>)
               (update_usage_on_run (job_at s j) g))"

text \<open>The three updates after a positive answer.\<close>

definition account_run :: "env \<Rightarrow> nat \<Rightarrow> server_info \<Rightarrow> server_info option" where
  "account_run ev j s =
     map_option (upd_job j update_job_on_run)
       (update_queue_on_job_run (ev_parse_nodespec ev) (si_job_queue s ! j) j (update_on_job_run ev j s))"

definition clean_up :: "nat \<Rightarrow> server_info \<Rightarrow> server_info" where
  "clean_up j s =
     upd_job j (\<lambda>job. job\<lparr>ji_schedule := []\<rparr>) (s\<lparr>si_world := nodes_preassign_clean (si_nodes s) (si_world s)\<rparr>)"

definition after_start :: "cycle_env \<Rightarrow> bool \<Rightarrow> nat \<Rightarrow> cycle \<Rightarrow> cycle option" where
  "after_start ce booting j cy =
     (case account_run (ce_env ce) j (cy_server cy) of
        None \<Rightarrow> None
      | Some s \<Rightarrow>
          (let cy' = cy\<lparr>cy_server := s\<rparr>
           in if \<not> booting \<and> po_fair_share (cs_policy (ce_status ce)) then usage_on_run j cy' else Some cy'))"

definition try_run_job :: "cycle_env \<Rightarrow> int \<Rightarrow> nat \<Rightarrow> cycle \<Rightarrow> (int \<times> cycle) option" where
  "try_run_job ce reply j cy =
     (let s = cy_server cy; job = job_at s j; conf = ce_conf ce; q = queue_of s j;
          (best_node_name, booting, minspec) = nodes_preassign_string (ce_env ce) job (si_nodes s) (si_world s);
          final_fairshare = minspec * qs_queue_cost q * ji_calculated_fairshare job;
          cy1 = send (update_job_fairshare final_fairshare job) cy;
          cy2 = (if \<not> booting then send [start_request conf (qs_info q) job best_node_name] cy1
                 else if \<not> is_remote conf job then comment_job j COMMENT_NODE_STILL_BOOTING cy1
                 else cy1);
          ret = (if booting then 0 else reply)
      in map_option (\<lambda>cy3. (ret, on_server (clean_up j) cy3))
           (if ret = 0 then after_start ce booting j cy2 else Some cy2))"

section \<open>The main loop\<close>

text \<open>
  The strings for a job with an allocation: the code appends \<open>", "\<close> and a name when the string is not empty, so
  leading empty names vanish; empty entries of waiting jobs are left out.
\<close>

definition append_name :: "string \<Rightarrow> string \<Rightarrow> string" where
  "append_name acc x = (if acc = [] then x else acc @ '', '' @ x)"

definition append_waiting :: "string \<Rightarrow> string \<Rightarrow> string" where
  "append_waiting acc x = (if acc = [] then x else if x \<noteq> [] then acc @ '', '' @ x else acc)"

definition report_schedule :: "nat \<Rightarrow> cycle \<Rightarrow> cycle" where
  "report_schedule j cy =
     (let s = cy_server cy; job = job_at s j; nodes = map (node_at (si_world s)) (ji_schedule job)
      in send (update_job_planned_nodes (foldl append_name [] (map nd_name nodes)) job @
               update_job_waiting_for (foldl append_waiting [] (map ni_waiting_on_jobs nodes)) job @
               update_job_earliest_start (foldl (\<lambda>t n. max (nd_avail_after n) t) (- 1) nodes) job) cy)"

definition strict_fifo_stop :: "nat \<Rightarrow> cycle \<Rightarrow> cycle" where
  "strict_fifo_stop j cy =
     (let s = cy_server cy;
          (s', reqs) = update_jobs_cant_run (qs_jobs (queue_of s j)) (Some j) COMMENT_STRICT_FIFO START_AFTER_JOB s
      in send reqs (cy\<lparr>cy_server := s'\<rparr>))"

definition mark_cannot_run :: "nat \<Rightarrow> server_info \<Rightarrow> server_info" where
  "mark_cannot_run j = upd_job j (\<lambda>job. job\<lparr>ji_can_not_run := True\<rparr>)"

definition clean_schedule :: "nat \<Rightarrow> server_info \<Rightarrow> server_info" where
  "clean_schedule j s =
     (let w = nodes_preassign_clean (si_nodes s) (si_world s)
      in upd_job j (\<lambda>job. job\<lparr>ji_schedule := []\<rparr>)
           (s\<lparr>si_world := nodes_preassign_clean (ji_schedule (job_at s j)) w\<rparr>))"

definition refuse_job :: "cycle_env \<Rightarrow> int \<Rightarrow> nat \<Rightarrow> cycle \<Rightarrow> cycle option" where
  "refuse_job ce rc j cy =
     (let cy1 = on_server (mark_cannot_run j) cy
      in case translate_job_fail_code rc of
           None \<Rightarrow> None
         | Some c \<Rightarrow>
             (let cy2 = (case c of
                  None \<Rightarrow> cy1
                | Some comment \<Rightarrow>
                    (let cy' = comment_job j comment cy1
                     in if rc \<noteq> NOT_QUEUED \<and> po_strict_fifo (cs_policy (ce_status ce)) \<and>
                           \<not> qi_is_global (qs_info (queue_of (cy_server cy') j))
                        then strict_fifo_stop j cy' else cy'));
                  cy3 = (if rc = JOB_SCHEDULED then report_schedule j cy2 else cy2)
              in Some (on_server (clean_schedule j) cy3)))"

definition refresh :: "cycle_env \<Rightarrow> metrics \<Rightarrow> cycle \<Rightarrow> cycle option" where
  "refresh ce cache cy =
     (let s = cy_server cy
      in map_option (\<lambda>st. cy\<lparr>cy_server := s\<lparr>si_world := qc_world st\<rparr>, cy_reg := qc_reg st\<rparr>)
           (query_external_cache cache True (si_nodes s)
              \<lparr>qc_world = si_world s, qc_reg = cy_reg cy, qc_db = ev_db (ce_env ce)\<rparr>))"

definition count_exec :: "nat \<Rightarrow> server_info \<Rightarrow> server_info" where
  "count_exec j s =
     (if qi_is_admin_queue (qs_info (queue_of s j)) then s
      else s\<lparr>si_exec_count := (si_exec_count s)(ji_account (job_at s j) := si_exec_count s (ji_account (job_at s j)) + 1)\<rparr>)"

definition run_job :: "cycle_env \<Rightarrow> step_input \<Rightarrow> nat \<Rightarrow> cycle \<Rightarrow> cycle option" where
  "run_job ce inp j cy =
     (case try_run_job ce (in_reply inp) j (on_server (count_exec j) (cy\<lparr>cy_active := True\<rparr>)) of
        None \<Rightarrow> None
      | Some (ret, cy') \<Rightarrow>
          (if ret \<noteq> 0 then Some ((on_server (mark_cannot_run j) cy')\<lparr>cy_run_errors := cy_run_errors cy' + 1\<rparr>)
           else refresh ce (in_cache inp) cy'))"

text \<open>The body of the loop for a job.\<close>

definition handle_job :: "cycle_env \<Rightarrow> step_input \<Rightarrow> nat \<Rightarrow> cycle \<Rightarrow> cycle option" where
  "handle_job ce inp j cy =
     (let cy0 = on_server (upd_job j (\<lambda>job. job\<lparr>ji_schedule := []\<rparr>)) cy
      in case is_ok_to_run_job (ce\<lparr>ce_reg := cy_reg cy\<rparr>) j (cy_server cy0) of
           None \<Rightarrow> None
         | Some (rc, s) \<Rightarrow>
             (let cy1 = cy0\<lparr>cy_server := s\<rparr>
              in if rc = SUCCESS then run_job ce inp j cy1 else refuse_job ce rc j cy1))"

text \<open>
  One pass: \<open>None\<close> is a crash, the flag tells whether the loop goes on.  The loop ends after four failed starts, when
  there is no job left, or when an active cycle has lasted too long.
\<close>

definition cycle_pass :: "cycle_env \<Rightarrow> int \<Rightarrow> step_input \<Rightarrow> cycle \<Rightarrow> (bool \<times> cycle) option" where
  "cycle_pass ce cycle_start inp cy =
     (if cy_run_errors cy > 3 then Some (False, cy)
      else case next_job (ce_conf ce) (cs_policy (ce_status ce)) cy of
             None \<Rightarrow> None
           | Some (None, cy') \<Rightarrow> Some (False, cy')
           | Some (Some j, cy') \<Rightarrow>
               (if cy_active cy' \<and> in_time inp - cycle_start > cf_max_cycle (ce_conf ce) then Some (False, cy')
                else map_option (\<lambda>c. (True, c)) (handle_job ce inp j cy')))"

text \<open>The loop with fuel; running out of fuel is a value of its own.\<close>

datatype outcome = Finished cycle | Crashed | Out_Of_Fuel

fun main_loop :: "cycle_env \<Rightarrow> int \<Rightarrow> (nat \<Rightarrow> step_input) \<Rightarrow> nat \<Rightarrow> nat \<Rightarrow> cycle \<Rightarrow> outcome" where
  "main_loop ce start inputs 0 n cy = Out_Of_Fuel"
| "main_loop ce start inputs (Suc fuel) n cy =
     (case cycle_pass ce start (inputs n) cy of
        None \<Rightarrow> Crashed
      | Some (False, cy') \<Rightarrow> Finished cy'
      | Some (True, cy') \<Rightarrow> main_loop ce start inputs fuel (n + 1) cy')"

end
