(* ===== verification/CycleSafety.thy ===== *)
theory CycleSafety
  imports Cycle
begin

text \<open>
  What a scheduling cycle guarantees: the counts of running jobs stay right, no start exceeds a limit, and the loop
  ends.  The main loop is a step relation; the invariants are proved for the body of the loop and carried over all
  passes by rule induction.
\<close>

section \<open>What a cycle never changes\<close>

definition queue_static :: "queue_state \<Rightarrow> queue_info \<times> nat list \<times> string" where
  "queue_static q = (qs_info q, qs_jobs q, qs_fairshare_tree q)"

definition job_owner :: "job_info \<Rightarrow> string \<times> string" where
  "job_owner job = (ji_account job, ji_group job)"

record server_static =
  ss_job_queue :: "nat list"
  ss_jobs :: "nat list"
  ss_by_owner :: "(string \<times> nat list) list"
  ss_limits :: "int \<times> int \<times> int"
  ss_queues :: "(queue_info \<times> nat list \<times> string) list"
  ss_owners :: "(string \<times> string) list"

definition static :: "server_info \<Rightarrow> server_static" where
  "static s = \<lparr>ss_job_queue = si_job_queue s, ss_jobs = si_jobs s, ss_by_owner = si_jobs_by_owner s,
     ss_limits = (si_max_run s, si_max_user_run s, si_max_group_run s),
     ss_queues = map queue_static (si_queues s), ss_owners = map job_owner (si_job_tab s)\<rparr>"

lemma static_eq:
  assumes "static s' = static s"
  shows "si_job_queue s' = si_job_queue s" "si_jobs s' = si_jobs s" "si_jobs_by_owner s' = si_jobs_by_owner s"
    "si_max_run s' = si_max_run s" "si_max_user_run s' = si_max_user_run s" "si_max_group_run s' = si_max_group_run s"
    "map queue_static (si_queues s') = map queue_static (si_queues s)" "map job_owner (si_job_tab s') = map job_owner (si_job_tab s)"
    "length (si_queues s') = length (si_queues s)" "length (si_job_tab s') = length (si_job_tab s)"
proof -
  show q: "map queue_static (si_queues s') = map queue_static (si_queues s)"
    and t: "map job_owner (si_job_tab s') = map job_owner (si_job_tab s)"
    using assms by (simp_all add: static_def)
  show "length (si_queues s') = length (si_queues s)" "length (si_job_tab s') = length (si_job_tab s)"
    using q t map_eq_imp_length_eq by blast+
  show "si_job_queue s' = si_job_queue s" "si_jobs s' = si_jobs s" "si_jobs_by_owner s' = si_jobs_by_owner s"
    "si_max_run s' = si_max_run s" "si_max_user_run s' = si_max_user_run s" "si_max_group_run s' = si_max_group_run s"
    using assms by (simp_all add: static_def)
qed

lemma static_queue:
  assumes "static s' = static s" and "q < length (si_queues s)"
  shows "qs_info (queue_at s' q) = qs_info (queue_at s q)" "qs_jobs (queue_at s' q) = qs_jobs (queue_at s q)"
    "qs_fairshare_tree (queue_at s' q) = qs_fairshare_tree (queue_at s q)"
proof -
  have "queue_static (queue_at s' q) = queue_static (queue_at s q)"
    using map_nth_eq[OF static_eq(7)[OF assms(1)]] static_eq(9)[OF assms(1)] assms(2) by (simp add: queue_at_def)
  then show "qs_info (queue_at s' q) = qs_info (queue_at s q)" "qs_jobs (queue_at s' q) = qs_jobs (queue_at s q)"
    "qs_fairshare_tree (queue_at s' q) = qs_fairshare_tree (queue_at s q)"
    by (simp_all add: queue_static_def)
qed

lemma static_owner:
  assumes "static s' = static s" and "j < length (si_job_tab s)"
  shows "ji_account (job_at s' j) = ji_account (job_at s j)" "ji_group (job_at s' j) = ji_group (job_at s j)"
proof -
  have "job_owner (job_at s' j) = job_owner (job_at s j)"
    using map_nth_eq[OF static_eq(8)[OF assms(1)]] static_eq(10)[OF assms(1)] assms(2) by (simp add: job_at_def)
  then show "ji_account (job_at s' j) = ji_account (job_at s j)" "ji_group (job_at s' j) = ji_group (job_at s j)"
    by (simp_all add: job_owner_def)
qed

section \<open>Quiet changes\<close>

text \<open>Who runs: the running jobs of the server and of the queues.\<close>

definition runs :: "server_info \<Rightarrow> nat list \<times> nat list list" where
  "runs s = (si_running_jobs s, map qs_running_jobs (si_queues s))"

text \<open>
  A quiet change starts no job: only marks of jobs that cannot run are added, and the counts stay right.
\<close>

definition quiet :: "server_info \<Rightarrow> server_info \<Rightarrow> bool" where
  "quiet s s' \<longleftrightarrow>
     static s' = static s \<and> runs s' = runs s \<and> si_exec_count s' = si_exec_count s \<and>
     (\<forall>i < length (si_job_tab s). ji_state (job_at s' i) = ji_state (job_at s i) \<and>
        (ji_can_not_run (job_at s i) \<longrightarrow> ji_can_not_run (job_at s' i))) \<and>
     (in_tab s \<and> server_ok s \<longrightarrow> server_ok s')"

lemma quiet_refl [simp]: "quiet s s"
  by (simp add: quiet_def)

lemma in_tab_runs: "static s' = static s \<Longrightarrow> runs s' = runs s \<Longrightarrow> in_tab s' \<longleftrightarrow> in_tab s"
proof -
  assume h: "static s' = static s" "runs s' = runs s"
  have l: "length (si_job_tab s') = length (si_job_tab s)" using static_eq(10)[OF h(1)] .
  have "in_tab x \<longleftrightarrow> (\<forall>j \<in> set (fst (runs x)). j < length (si_job_tab x)) \<and>
      (\<forall>js \<in> set (snd (runs x)). \<forall>j \<in> set js. j < length (si_job_tab x))" for x
    by (auto simp: in_tab_def runs_def)
  then show "in_tab s' \<longleftrightarrow> in_tab s" using h(2) l by simp
qed

lemma quiet_in_tab: "quiet s s' \<Longrightarrow> in_tab s' \<longleftrightarrow> in_tab s"
  by (rule in_tab_runs) (simp_all add: quiet_def)

lemma quietD:
  assumes "quiet s s'"
  shows "static s' = static s" "runs s' = runs s" "si_exec_count s' = si_exec_count s"
    "i < length (si_job_tab s) \<Longrightarrow> ji_state (job_at s' i) = ji_state (job_at s i)"
    "i < length (si_job_tab s) \<Longrightarrow> ji_can_not_run (job_at s i) \<Longrightarrow> ji_can_not_run (job_at s' i)"
    "in_tab s \<Longrightarrow> server_ok s \<Longrightarrow> server_ok s'" "length (si_job_tab s') = length (si_job_tab s)"
  using assms static_eq(10)[of s' s] unfolding quiet_def by blast+

lemma quiet_trans [trans]:
  assumes "quiet s s'" "quiet s' s''" shows "quiet s s''"
  unfolding quiet_def
proof (intro conjI allI impI)
  note a = quietD[OF assms(1)] and b = quietD[OF assms(2)]
  show "static s'' = static s" "runs s'' = runs s" "si_exec_count s'' = si_exec_count s"
    using a(1,2,3) b(1,2,3) by simp_all
  show "server_ok s''" if "in_tab s \<and> server_ok s"
    using b(6) a(6) that quiet_in_tab[OF assms(1)] by blast
  fix i assume i: "i < length (si_job_tab s)"
  then show "ji_state (job_at s'' i) = ji_state (job_at s i)" using a(4,7) b(4) by simp
  show "ji_can_not_run (job_at s'' i)" if "ji_can_not_run (job_at s i)" using a(5)[OF i that] a(7) b(5) i by simp
qed

lemma map_eq_via:
  assumes "map f xs = map f ys" "\<And>x y. f x = f y \<Longrightarrow> g x = g y" shows "map g xs = map g ys"
proof (rule nth_equalityI)
  show len: "length (map g xs) = length (map g ys)" using map_eq_imp_length_eq[OF assms(1)] by simp
  fix i assume "i < length (map g xs)"
  then have i: "i < length xs" "i < length ys" using len by simp_all
  show "map g xs ! i = map g ys ! i"
    unfolding nth_map[OF i(1)] nth_map[OF i(2)] by (rule assms(2)[OF map_nth_eq[OF assms(1) i(1)]])
qed

lemma same_shell_quiet:
  assumes "same_shell s s'" shows "quiet s s'"
proof -
  note f = same_shell_fields[OF assms]
  have b: "queue_static a = queue_static b \<and> qs_running_jobs a = qs_running_jobs b" if "bare_queue a = bare_queue b" for a b
    using arg_cong[OF that, of qs_info] arg_cong[OF that, of qs_jobs]
      arg_cong[OF that, of qs_running_jobs] arg_cong[OF that, of qs_fairshare_tree]
    by (simp add: bare_queue_def queue_static_def)
  have q: "map queue_static (si_queues s') = map queue_static (si_queues s)"
    "map qs_running_jobs (si_queues s') = map qs_running_jobs (si_queues s)"
    by (rule map_eq_via[OF f(14)], blast dest: b)+
  have j: "job_frame (job_at s' i) = job_frame (job_at s i)" if "i < length (si_job_tab s)" for i
    using same_shell_job[OF assms that] .
  have "map job_owner (si_job_tab s') = map job_owner (si_job_tab s)"
  proof (rule map_eq_via[OF f(1)])
    fix x y assume "job_frame x = job_frame y"
    from job_frame_eq(1,2)[OF this] show "job_owner x = job_owner y" by (simp add: job_owner_def)
  qed
  then have "static s' = static s" using f q by (simp add: static_def)
  moreover have "runs s' = runs s" using f q by (simp add: runs_def)
  moreover have "ji_state (job_at s' i) = ji_state (job_at s i)" "ji_can_not_run (job_at s' i) = ji_can_not_run (job_at s i)"
    if "i < length (si_job_tab s)" for i
    by (rule job_frame_eq(3,4)[OF j[OF that]])+
  ultimately show ?thesis using assms f(9) by (simp add: quiet_def same_shell_def)
qed

lemma quiet_upd_job:
  assumes "job_owner (f (job_at s j)) = job_owner (job_at s j)" "ji_state (f (job_at s j)) = ji_state (job_at s j)"
    "ji_can_not_run (job_at s j) \<Longrightarrow> ji_can_not_run (f (job_at s j))"
  shows "quiet s (upd_job j f s)"
proof -
  have o: "map job_owner ((si_job_tab s)[j := f (si_job_tab s ! j)]) = map job_owner (si_job_tab s)"
    using assms(1) by (cases "j < length (si_job_tab s)") (auto simp: job_at_def list_eq_iff_nth_eq nth_list_update)
  have "server_ok (upd_job j f s)" if "in_tab s" "server_ok s"
    using keeps_owner_ok[OF keeps_owner_upd_job that] assms(1) by (simp add: job_owner_def)
  moreover have "static (upd_job j f s) = static s" "runs (upd_job j f s) = runs s"
    using o by (simp_all add: static_def runs_def upd_job_def)
  moreover have "si_exec_count (upd_job j f s) = si_exec_count s" by (simp add: upd_job_def)
  ultimately show ?thesis using assms(2,3) by (simp add: quiet_def job_at_upd_job)
qed

lemma quiet_world: "quiet s (s\<lparr>si_world := w\<rparr>)"
proof -
  have "server_ok (s\<lparr>si_world := w\<rparr>)" if "in_tab s" "server_ok s"
    by (rule keeps_owner_ok[OF _ that]) (simp add: keeps_owner_def)
  then show ?thesis by (auto simp: quiet_def static_def runs_def job_at_def)
qed


text \<open>The parts of the loop body that start no job.\<close>

lemma quiet_clean_up: "quiet s (clean_up j s)" "quiet s (clean_schedule j s)"
  unfolding clean_up_def clean_schedule_def Let_def
  by (rule quiet_trans[OF quiet_world quiet_upd_job]; simp add: job_owner_def)+

lemma quiet_mark: "quiet s (mark_cannot_run j s)"
  unfolding mark_cannot_run_def by (rule quiet_upd_job) (simp_all add: job_owner_def)

lemma mark_marks: "j < length (si_job_tab s) \<Longrightarrow> ji_can_not_run (job_at (mark_cannot_run j s) j)"
  by (simp add: mark_cannot_run_def job_at_upd_job)

lemma comment_keeps:
  "update_job_comment c job = (rc, job', reqs) \<Longrightarrow>
     job_owner job' = job_owner job \<and> ji_state job' = ji_state job \<and> ji_can_not_run job' = ji_can_not_run job"
  by (auto simp: update_job_comment_def job_owner_def split: if_splits)

lemma quiet_comment: "quiet (cy_server cy) (cy_server (comment_job j c cy))"
proof -
  obtain rc job reqs where u: "update_job_comment c (job_at (cy_server cy) j) = (rc, job, reqs)" by (metis surj_pair)
  show ?thesis using comment_keeps[OF u]
    by (auto simp: comment_job_def u send_def on_server_def intro!: quiet_upd_job)
qed

lemma quiet_cant_run: "quiet s (fst (cant_run c j (s, sent)))"
proof -
  obtain rc job reqs where u: "update_job_comment c ((job_at s j)\<lparr>ji_can_not_run := True\<rparr>) = (rc, job, reqs)" by (metis surj_pair)
  show ?thesis using comment_keeps[OF u]
    by (auto simp: cant_run_def u job_owner_def intro!: quiet_upd_job)
qed

lemma quiet_cant_run_fold: "quiet s (fst (fold (cant_run c) js (s, sent)))"
proof (induction js arbitrary: s sent)
  case (Cons j js)
  obtain s1 sent1 where c: "cant_run c j (s, sent) = (s1, sent1)" by fastforce
  show ?case using quiet_trans[OF quiet_cant_run[of s c j sent] Cons.IH[of "fst (cant_run c j (s, sent))" sent1]] by (simp add: c)
qed simp

lemma quiet_strict_fifo: "quiet (cy_server cy) (cy_server (strict_fifo_stop j cy))"
  using quiet_cant_run_fold[of "cy_server cy" COMMENT_STRICT_FIFO _ "[]"]
  by (auto simp: strict_fifo_stop_def update_jobs_cant_run_def send_def Let_def split: option.split prod.split)
    (metis fst_conv)

lemma report_keeps [simp]: "cy_server (report_schedule j cy) = cy_server cy"
  by (simp add: report_schedule_def Let_def send_def)

text \<open>Where the selection stands is changed by \<open>next_job\<close> only.\<close>

definition position :: "cycle \<Rightarrow> nat \<times> int" where
  "position cy = (cy_last_queue cy, cy_last_job cy)"

lemma position_simps [simp]:
  "position (on_server f cy) = position cy" "position (send r cy) = position cy" "position (comment_job j c cy) = position cy"
  "position (strict_fifo_stop j cy) = position cy" "position (report_schedule j cy) = position cy"
  "position (cy\<lparr>cy_server := s\<rparr>) = position cy" "position (cy\<lparr>cy_active := b\<rparr>) = position cy"
  "position (cy\<lparr>cy_run_errors := n\<rparr>) = position cy" "position (cy\<lparr>cy_trees := t\<rparr>) = position cy"
  by (simp_all add: position_def on_server_def send_def comment_job_def strict_fifo_stop_def report_schedule_def Let_def
      split: prod.split)

lemma refuse_job_quiet:
  assumes "refuse_job ce rc j cy = Some cy'" and j: "j < length (si_job_tab (cy_server cy))"
  shows "quiet (cy_server cy) (cy_server cy') \<and> ji_can_not_run (job_at (cy_server cy') j) \<and> position cy' = position cy"
proof -
  define cy1 where "cy1 = on_server (mark_cannot_run j) cy"
  have q1: "quiet (cy_server cy) (cy_server cy1)" by (simp add: cy1_def on_server_def quiet_mark)
  have m1: "ji_can_not_run (job_at (cy_server cy1) j)" using j by (simp add: cy1_def on_server_def mark_marks)
  obtain c where c: "translate_job_fail_code rc = Some c" using assms(1) by (auto simp: refuse_job_def Let_def split: option.splits)
  define cy2 where "cy2 = (case c of None \<Rightarrow> cy1
      | Some comment \<Rightarrow> (let cy' = comment_job j comment cy1
          in if rc \<noteq> NOT_QUEUED \<and> po_strict_fifo (cs_policy (ce_status ce)) \<and> \<not> qi_is_global (qs_info (queue_of (cy_server cy') j))
             then strict_fifo_stop j cy' else cy'))"
  define cy3 where "cy3 = (if rc = JOB_SCHEDULED then report_schedule j cy2 else cy2)"
  have q2: "quiet (cy_server cy1) (cy_server cy2)"
    unfolding cy2_def Let_def
    using quiet_comment[of cy1 j] quiet_trans[OF quiet_comment[of cy1 j] quiet_strict_fifo] by (simp split: option.split)
  have cy': "cy' = on_server (clean_schedule j) cy3"
    using assms(1) unfolding refuse_job_def c option.case Let_def cy3_def cy2_def cy1_def by blast
  then have "quiet (cy_server cy1) (cy_server cy')"
    using quiet_trans[OF q2 quiet_clean_up(2)] by (simp add: on_server_def cy3_def)
  moreover have "position cy' = position cy" unfolding cy' cy3_def cy2_def cy1_def Let_def by (simp split: option.split)
  moreover have "j < length (si_job_tab (cy_server cy1))" using j quietD(7)[OF q1] by simp
  ultimately show ?thesis using quiet_trans[OF q1] quietD(5) m1 by blast
qed


section \<open>Starting a job\<close>

definition index_ok :: "server_info \<Rightarrow> bool" where
  "index_ok s \<longleftrightarrow> length (si_job_queue s) = length (si_job_tab s) \<and> (\<forall>q \<in> set (si_job_queue s). q < length (si_queues s)) \<and>
     (\<forall>j \<in> set (si_jobs s). j < length (si_job_tab s)) \<and>
     (\<forall>q \<in> set (si_queues s). \<forall>j \<in> set (qs_jobs q). j < length (si_job_tab s)) \<and>
     (\<forall>(o', js) \<in> set (si_jobs_by_owner s). \<forall>j \<in> set js. j < length (si_job_tab s))"

lemma index_ok_static:
  assumes "static s' = static s" shows "index_ok s' \<longleftrightarrow> index_ok s"
proof -
  have "index_ok x \<longleftrightarrow> length (ss_job_queue (static x)) = length (ss_owners (static x)) \<and>
      (\<forall>q \<in> set (ss_job_queue (static x)). q < length (ss_queues (static x))) \<and>
      (\<forall>j \<in> set (ss_jobs (static x)). j < length (ss_owners (static x))) \<and>
      (\<forall>q \<in> set (ss_queues (static x)). \<forall>j \<in> set (fst (snd q)). j < length (ss_owners (static x))) \<and>
      (\<forall>(o', js) \<in> set (ss_by_owner (static x)). \<forall>j \<in> set js. j < length (ss_owners (static x)))" for x
    by (simp add: index_ok_def static_def queue_static_def)
  then show ?thesis using assms by simp
qed

text \<open>The effect of a start on the server.\<close>

definition starts :: "nat \<Rightarrow> server_info \<Rightarrow> server_info \<Rightarrow> bool" where
  "starts j s s' \<longleftrightarrow>
     static s' = static s \<and> si_exec_count s' = si_exec_count s \<and>
     si_running_jobs s' = si_running_jobs s @ [j] \<and>
     (\<forall>q < length (si_queues s). qs_running_jobs (queue_at s' q) =
        (if q = si_job_queue s ! j then qs_running_jobs (queue_at s q) @ [j] else qs_running_jobs (queue_at s q))) \<and>
     (\<forall>i < length (si_job_tab s). i \<noteq> j \<longrightarrow> ji_state (job_at s' i) = ji_state (job_at s i)) \<and>
     (\<forall>i < length (si_job_tab s). ji_can_not_run (job_at s' i) = ji_can_not_run (job_at s i)) \<and>
     ji_state (job_at s' j) = JobRunning"

lemma update_on_job_run_frame:
  "static (update_on_job_run ev j s) = static s" "si_exec_count (update_on_job_run ev j s) = si_exec_count s"
  "si_running_jobs (update_on_job_run ev j s) = si_running_jobs s @ [j]" "si_queues (update_on_job_run ev j s) = si_queues s"
  "si_job_tab (update_on_job_run ev j s) = si_job_tab s" "si_job_queue (update_on_job_run ev j s) = si_job_queue s"
  by (simp_all add: update_on_job_run_def Let_def static_def)

lemma in_tab_start:
  assumes "in_tab s" "starts j s s'" "j < length (si_job_tab s)" shows "in_tab s'"
proof -
  have len: "length (si_job_tab s') = length (si_job_tab s)" "length (si_queues s') = length (si_queues s)"
    using static_eq(9,10)[of s' s] assms(2)[unfolded starts_def] by blast+
  have "\<forall>i \<in> set (qs_running_jobs q). i < length (si_job_tab s')" if mem: "q \<in> set (si_queues s')" for q
  proof -
    obtain k where k: "k < length (si_queues s)" "q = queue_at s' k" using mem len by (auto simp: in_set_conv_nth queue_at_def)
    then have "set (qs_running_jobs q) \<subseteq> insert j (set (qs_running_jobs (queue_at s k)))" using assms(2) by (auto simp: starts_def)
    moreover have "queue_at s k \<in> set (si_queues s)" using k by (simp add: queue_at_def)
    ultimately show ?thesis using assms(1,3) len by (auto simp: in_tab_def)
  qed
  then show ?thesis using assms len by (auto simp: in_tab_def starts_def)
qed

lemma account_run_starts:
  assumes ok: "server_ok s" "in_tab s" "index_ok s" and j: "j < length (si_job_tab s)"
    and run: "account_run ev j s = Some s'"
  shows "starts j s s' \<and> server_ok s'"
proof -
  let ?q = "si_job_queue s ! j" and ?s1 = "update_on_job_run ev j s"
  have q: "?q < length (si_queues s)" using ok(3) j by (auto simp: index_ok_def)
  note f = update_on_job_run_frame[of ev j s]
  have ok1: "server_ok ?s1" using update_on_job_run_ok[OF ok(1)] by simp
  have q1: "?q < length (si_queues ?s1)" using q f(4) by simp
  obtain q' where u: "update_queue_on_job_run (ev_parse_nodespec ev) ?q j ?s1 = Some (upd_queue ?q (\<lambda>_. q') ?s1)"
    and ok2: "server_ok (upd_queue ?q (\<lambda>_. q') ?s1)"
    and q': "qs_info q' = qs_info (queue_at s ?q)" "qs_jobs q' = qs_jobs (queue_at s ?q)"
      "qs_fairshare_tree q' = qs_fairshare_tree (queue_at s ?q)" "qs_running_jobs q' = qs_running_jobs (queue_at s ?q) @ [j]"
    using update_queue_on_job_run_ok[OF ok1 q1] f(4) by (auto simp: queue_at_def)
  let ?s2 = "upd_queue ?q (\<lambda>_. q') ?s1"
  have s': "s' = upd_job j update_job_on_run ?s2" using run u f(6) by (auto simp: account_run_def)
  have qs: "map queue_static (si_queues ?s2) = map queue_static (si_queues s)"
    using q q'(1-3) f(4) by (auto intro!: nth_equalityI simp: upd_queue_def queue_static_def queue_at_def nth_list_update)
  have tab: "si_job_tab s' = (si_job_tab s)[j := update_job_on_run (si_job_tab s ! j)]" using f(5) by (simp add: s' upd_job_def)
  have own: "map job_owner (si_job_tab s') = map job_owner (si_job_tab s)"
    using j by (auto intro!: nth_equalityI simp: tab nth_list_update job_owner_def update_job_on_run_def)
  have st: "static s' = static s"
    using qs own f(1) by (simp add: s' upd_job_def upd_queue_def static_def)
  have run_q: "qs_running_jobs (queue_at s' k) =
      (if k = ?q then qs_running_jobs (queue_at s k) @ [j] else qs_running_jobs (queue_at s k))" if "k < length (si_queues s)" for k
    using that q q'(4) f(4) by (simp add: s' upd_job_def queue_at_def upd_queue_def nth_list_update)
  have "starts j s s'"
    using st run_q f(2,3) j by (auto simp: starts_def s' upd_job_def upd_queue_def job_at_def f(5) nth_list_update update_job_on_run_def)
  moreover have "in_tab ?s2"
    using in_tab_start[OF ok(2) calculation j] by (simp add: in_tab_def s' upd_job_def)
  then have "server_ok s'"
    unfolding s' by (intro keeps_owner_ok[OF keeps_owner_upd_job _ ok2]) (simp_all add: update_job_on_run_def)
  ultimately show ?thesis by simp
qed


text \<open>A start or a refusal of a job, seen from the state before the pass; the executions are counted separately.\<close>

definition started_job :: "nat \<Rightarrow> server_info \<Rightarrow> server_info \<Rightarrow> bool" where
  "started_job j s s' \<longleftrightarrow>
     static s' = static s \<and> si_running_jobs s' = si_running_jobs s @ [j] \<and>
     (\<forall>q < length (si_queues s). qs_running_jobs (queue_at s' q) =
        (if q = si_job_queue s ! j then qs_running_jobs (queue_at s q) @ [j] else qs_running_jobs (queue_at s q))) \<and>
     (\<forall>i < length (si_job_tab s). i \<noteq> j \<longrightarrow> ji_state (job_at s' i) = ji_state (job_at s i)) \<and>
     (\<forall>i < length (si_job_tab s). ji_can_not_run (job_at s i) \<longrightarrow> ji_can_not_run (job_at s' i)) \<and>
     ji_state (job_at s' j) = JobRunning"

definition refused_job :: "nat \<Rightarrow> server_info \<Rightarrow> server_info \<Rightarrow> bool" where
  "refused_job j s s' \<longleftrightarrow>
     static s' = static s \<and> runs s' = runs s \<and>
     (\<forall>i < length (si_job_tab s). ji_state (job_at s' i) = ji_state (job_at s i) \<and>
        (ji_can_not_run (job_at s i) \<longrightarrow> ji_can_not_run (job_at s' i))) \<and>
     ji_can_not_run (job_at s' j)"

lemma starts_started: "starts j s s' \<Longrightarrow> started_job j s s'"
  by (simp add: starts_def started_job_def)

lemma runs_queue:
  assumes "runs s' = runs s" shows "si_running_jobs s' = si_running_jobs s"
    "q < length (si_queues s) \<Longrightarrow> qs_running_jobs (queue_at s' q) = qs_running_jobs (queue_at s q)"
proof -
  have m: "map qs_running_jobs (si_queues s') = map qs_running_jobs (si_queues s)" using assms by (simp add: runs_def)
  show "si_running_jobs s' = si_running_jobs s" using assms by (simp add: runs_def)
  show "q < length (si_queues s) \<Longrightarrow> qs_running_jobs (queue_at s' q) = qs_running_jobs (queue_at s q)"
    using map_nth_eq[OF m, of q] map_eq_imp_length_eq[OF m] by (simp add: queue_at_def)
qed

lemma quiet_then_started:
  assumes "quiet s s1" "started_job j s1 s2" shows "started_job j s s2"
proof -
  note a = quietD[OF assms(1)]
  note r = runs_queue[OF a(2)] and e = static_eq[OF a(1)] and b = assms(2)[unfolded started_job_def]
  show ?thesis unfolding started_job_def
  proof (intro conjI allI impI)
    show "static s2 = static s" "si_running_jobs s2 = si_running_jobs s @ [j]" "ji_state (job_at s2 j) = JobRunning"
      using a(1) b r(1) by simp_all
    show "qs_running_jobs (queue_at s2 q) =
        (if q = si_job_queue s ! j then qs_running_jobs (queue_at s q) @ [j] else qs_running_jobs (queue_at s q))"
      if "q < length (si_queues s)" for q using b r(2)[OF that] e(1,9) that by auto
    fix i assume i: "i < length (si_job_tab s)"
    show "ji_state (job_at s2 i) = ji_state (job_at s i)" if "i \<noteq> j" using b a(4)[OF i] a(7) i that by simp
    show "ji_can_not_run (job_at s2 i)" if "ji_can_not_run (job_at s i)" using b a(5)[OF i that] a(7) i by simp
  qed
qed

lemma started_then_quiet:
  assumes "started_job j s s1" "quiet s1 s2" "j < length (si_job_tab s)" shows "started_job j s s2"
proof -
  note b = assms(1)[unfolded started_job_def] and a = quietD[OF assms(2)]
  have e: "static s1 = static s" using b by blast
  note r = runs_queue[OF a(2)] and l = static_eq(9,10)[OF e]
  show ?thesis unfolding started_job_def
  proof (intro conjI allI impI)
    show "static s2 = static s" "si_running_jobs s2 = si_running_jobs s @ [j]" "ji_state (job_at s2 j) = JobRunning"
      using a(1,4) b r(1) assms(3) l by simp_all
    show "qs_running_jobs (queue_at s2 q) =
        (if q = si_job_queue s ! j then qs_running_jobs (queue_at s q) @ [j] else qs_running_jobs (queue_at s q))"
      if "q < length (si_queues s)" for q using b r(2) l that by simp
    fix i assume i: "i < length (si_job_tab s)"
    show "ji_state (job_at s2 i) = ji_state (job_at s i)" if "i \<noteq> j" using b a(4) l i that by simp
    show "ji_can_not_run (job_at s2 i)" if "ji_can_not_run (job_at s i)" using b a(5) l i that by simp
  qed
qed

lemma quiet_refused: "quiet s s' \<Longrightarrow> ji_can_not_run (job_at s' j) \<Longrightarrow> refused_job j s s'"
  by (simp add: quiet_def refused_job_def)

lemma quiet_then_refused:
  assumes "quiet s s1" "refused_job j s1 s2" shows "refused_job j s s2"
  unfolding refused_job_def
proof (intro conjI allI impI)
  note a = quietD[OF assms(1)] and b = assms(2)[unfolded refused_job_def]
  show "static s2 = static s" "runs s2 = runs s" "ji_can_not_run (job_at s2 j)" using a(1,2) b by simp_all
  fix i assume i: "i < length (si_job_tab s)"
  show "ji_state (job_at s2 i) = ji_state (job_at s i)" using b a(4)[OF i] a(7) i by simp
  show "ji_can_not_run (job_at s2 i)" if "ji_can_not_run (job_at s i)" using b a(5)[OF i that] a(7) i by simp
qed

section \<open>The body of the loop\<close>

text \<open>Counting an execution changes nothing else.\<close>

lemma count_exec_frame:
  "static (count_exec j s) = static s" "runs (count_exec j s) = runs s" "job_at (count_exec j s) i = job_at s i"
  "server_ok (count_exec j s) = server_ok s" "in_tab (count_exec j s) = in_tab s" "index_ok (count_exec j s) = index_ok s"
  "si_job_tab (count_exec j s) = si_job_tab s"
proof -
  show "static (count_exec j s) = static s" "runs (count_exec j s) = runs s" "job_at (count_exec j s) i = job_at s i"
    "in_tab (count_exec j s) = in_tab s" "index_ok (count_exec j s) = index_ok s" "si_job_tab (count_exec j s) = si_job_tab s"
    by (simp_all add: count_exec_def static_def runs_def job_at_def in_tab_def index_ok_def)
  show "server_ok (count_exec j s) = server_ok s"
    by (simp add: count_exec_def server_ok_def queue_ok_def server_running_def queue_running_def queue_at_def job_at_fun)
qed


definition cy_ok :: "server_info \<Rightarrow> bool" where
  "cy_ok s \<longleftrightarrow> server_ok s \<and> in_tab s \<and> index_ok s"

lemma quiet_ok: "quiet s s' \<Longrightarrow> cy_ok s \<Longrightarrow> cy_ok s'"
  using quiet_in_tab[of s s'] quietD(1,6)[of s s'] index_ok_static[of s' s] by (simp add: cy_ok_def)

lemma account_run_ok:
  assumes "cy_ok s" "j < length (si_job_tab s)" "account_run ev j s = Some s'"
  shows "started_job j s s'" "cy_ok s'" "si_exec_count s' = si_exec_count s"
proof -
  have r: "starts j s s' \<and> server_ok s'" using assms account_run_starts[of s j ev s'] by (simp add: cy_ok_def)
  then have s: "static s' = static s" "si_exec_count s' = si_exec_count s" by (simp_all add: starts_def)
  show "started_job j s s'" "si_exec_count s' = si_exec_count s" using r s starts_started by auto
  show "cy_ok s'" using r in_tab_start[of s j s'] assms index_ok_static[OF s(1)] by (simp add: cy_ok_def)
qed

lemma usage_on_run_server: "usage_on_run j cy = Some cy' \<Longrightarrow> cy_server cy' = cy_server cy \<and> position cy' = position cy"
  by (auto simp: usage_on_run_def Let_def split: option.splits)

lemma after_start_spec:
  assumes "cy_ok (cy_server cy)" "j < length (si_job_tab (cy_server cy))" "after_start ce booting j cy = Some cy'"
  shows "started_job j (cy_server cy) (cy_server cy')" "cy_ok (cy_server cy')"
    "si_exec_count (cy_server cy') = si_exec_count (cy_server cy)" "position cy' = position cy"
proof -
  obtain s where s: "account_run (ce_env ce) j (cy_server cy) = Some s" and cy': "cy_server cy' = s" "position cy' = position cy"
    using assms(3) by (auto simp: after_start_def Let_def dest: usage_on_run_server split: option.splits if_splits)
  show "started_job j (cy_server cy) (cy_server cy')" "cy_ok (cy_server cy')"
    "si_exec_count (cy_server cy') = si_exec_count (cy_server cy)" "position cy' = position cy"
    using account_run_ok[OF assms(1,2) s] cy' by simp_all
qed

text \<open>What an attempt to start a job does: with a positive answer the job runs, otherwise nothing happened.\<close>

definition attempted :: "nat \<Rightarrow> int \<Rightarrow> server_info \<Rightarrow> server_info \<Rightarrow> bool" where
  "attempted j ret s s' \<longleftrightarrow>
     (if ret = 0 then started_job j s s' \<and> si_exec_count s' = si_exec_count s else quiet s s')"

lemma try_run_job_spec:
  assumes ok: "cy_ok (cy_server cy)" and j: "j < length (si_job_tab (cy_server cy))"
    and run: "try_run_job ce reply j cy = Some (ret, cy')"
  shows "attempted j ret (cy_server cy) (cy_server cy') \<and> cy_ok (cy_server cy') \<and> position cy' = position cy"
proof -
  let ?s = "cy_server cy"
  obtain best booting minspec where p: "nodes_preassign_string (ce_env ce) (job_at ?s j) (si_nodes ?s) (si_world ?s) =
      (best, booting, minspec)" by (metis surj_pair)
  define cy1 where "cy1 = send (update_job_fairshare (minspec * qs_queue_cost (queue_of ?s j) *
      ji_calculated_fairshare (job_at ?s j)) (job_at ?s j)) cy"
  define cy2 where "cy2 = (if \<not> booting then send [start_request (ce_conf ce) (qs_info (queue_of ?s j)) (job_at ?s j) best] cy1
      else if \<not> is_remote (ce_conf ce) (job_at ?s j) then comment_job j COMMENT_NODE_STILL_BOOTING cy1 else cy1)"
  have s1: "cy_server cy1 = ?s" by (simp add: cy1_def send_def)
  have q2: "quiet ?s (cy_server cy2)" "position cy2 = position cy"
    using quiet_comment[of cy1 j] s1 by (auto simp: cy2_def send_def) (simp_all add: position_def cy1_def send_def comment_job_def on_server_def split: prod.split)
  have ret: "ret = (if booting then 0 else reply)"
    and cy': "map_option (on_server (clean_up j)) (if ret = 0 then after_start ce booting j cy2 else Some cy2) = Some cy'"
    using run unfolding try_run_job_def Let_def p case_prod_conv cy1_def[symmetric] cy2_def[symmetric] by auto
  have ok2: "cy_ok (cy_server cy2)" "j < length (si_job_tab (cy_server cy2))" using quiet_ok[OF q2(1) ok] quietD(7)[OF q2(1)] j by simp_all
  obtain cy3 where cy3: "(if ret = 0 then after_start ce booting j cy2 else Some cy2) = Some cy3" "cy' = on_server (clean_up j) cy3"
    using cy' by auto
  have q3: "quiet (cy_server cy3) (cy_server cy')" using quiet_clean_up(1) by (simp add: cy3(2) on_server_def)
  show ?thesis
  proof (cases "ret = 0")
    case True
    then have a: "after_start ce booting j cy2 = Some cy3" using cy3 by simp
    note s = after_start_spec[OF ok2 a]
    have "started_job j ?s (cy_server cy3)" by (rule quiet_then_started[OF q2(1) s(1)])
    then have "started_job j ?s (cy_server cy')" by (rule started_then_quiet[OF _ q3 j])
    moreover have "si_exec_count (cy_server cy') = si_exec_count ?s" using quietD(3)[OF q3] s(3) quietD(3)[OF q2(1)] by simp
    ultimately show ?thesis using True quiet_ok[OF q3 s(2)] s(4) q2(2) cy3(2) by (simp add: attempted_def)
  next
    case False
    then have "cy3 = cy2" using cy3 by simp
    then show ?thesis using False quiet_trans[OF q2(1)] q3 quiet_ok[OF q3] ok2 q2(2) cy3(2) by (simp add: attempted_def)
  qed
qed


lemma refresh_quiet:
  "refresh ce cache cy = Some cy' \<Longrightarrow> quiet (cy_server cy) (cy_server cy') \<and> position cy' = position cy"
  by (auto simp: refresh_def Let_def position_def quiet_world)

text \<open>How a pass counts executions: at most one more for the owner, who was below the limit of the cycle.\<close>

definition exec_step :: "int \<Rightarrow> nat \<Rightarrow> server_info \<Rightarrow> server_info \<Rightarrow> bool" where
  "exec_step limit j s s' \<longleftrightarrow>
     si_exec_count s' = si_exec_count s \<or>
     (si_exec_count s (ji_account (job_at s j)) < limit \<and>
      si_exec_count s' = (si_exec_count s)(ji_account (job_at s j) := si_exec_count s (ji_account (job_at s j)) + 1))"

lemma count_exec_step:
  "si_exec_count s (ji_account (job_at s j)) < limit \<Longrightarrow> exec_step limit j s (count_exec j s)"
  by (simp add: exec_step_def count_exec_def)

lemma run_job_spec:
  assumes ok: "cy_ok (cy_server cy)" and j: "j < length (si_job_tab (cy_server cy))"
    and exec: "si_exec_count (cy_server cy) (ji_account (job_at (cy_server cy) j)) < limit"
    and run: "run_job ce inp j cy = Some cy'"
  shows "cy_ok (cy_server cy') \<and> position cy' = position cy \<and> exec_step limit j (cy_server cy) (cy_server cy') \<and>
     (refused_job j (cy_server cy) (cy_server cy') \<or> started_job j (cy_server cy) (cy_server cy'))"
proof -
  let ?s = "cy_server cy" and ?cz = "on_server (count_exec j) (cy\<lparr>cy_active := True\<rparr>)"
  let ?t = "cy_server ?cz"
  have s0: "?t = count_exec j ?s" by (simp add: on_server_def)
  note f = count_exec_frame[of j ?s]
  obtain ret cy1 where t: "try_run_job ce (in_reply inp) j ?cz = Some (ret, cy1)"
    using run by (auto simp: run_job_def split: option.splits)
  have ok0: "cy_ok ?t" "j < length (si_job_tab ?t)" using ok j f(4,5,6,7) by (simp_all add: s0 cy_ok_def)
  note a = try_run_job_spec[OF ok0 t]
  have l1: "length (si_job_tab (cy_server cy1)) = length (si_job_tab ?s)"
  proof -
    have "static (cy_server cy1) = static ?t"
      using a quietD(1)[of ?t "cy_server cy1"] by (cases "ret = 0") (simp_all add: attempted_def started_job_def)
    then show ?thesis using static_eq(10)[of "cy_server cy1" ?t] f(7) s0 by simp
  qed
  have lifted: "quiet ?t x \<Longrightarrow> ji_can_not_run (job_at x j) \<Longrightarrow> refused_job j ?s x"
    "started_job j ?t x \<Longrightarrow> started_job j ?s x"
    "si_exec_count x = si_exec_count ?t \<Longrightarrow> exec_step limit j ?s x" for x
  proof -
    show "refused_job j ?s x" if "quiet ?t x" "ji_can_not_run (job_at x j)"
      using quiet_refused[OF that] f(1,2,3,7) by (simp add: refused_job_def s0)
    show "started_job j ?s x" if "started_job j ?t x"
      using that runs_queue[OF f(2)] static_eq[OF f(1)] f(1,3,7) by (simp add: started_job_def s0)
    show "exec_step limit j ?s x" if "si_exec_count x = si_exec_count ?t"
      using count_exec_step[OF exec] that by (simp add: exec_step_def s0)
  qed
  show ?thesis
  proof (cases "ret = 0")
    case True
    then have r: "refresh ce (in_cache inp) cy1 = Some cy'" using run t by (simp add: run_job_def)
    note q = refresh_quiet[OF r]
    have st: "started_job j ?t (cy_server cy1)" "si_exec_count (cy_server cy1) = si_exec_count ?t"
      using a True by (simp_all add: attempted_def)
    have "started_job j ?t (cy_server cy')" using started_then_quiet[OF st(1) _ ok0(2)] q by simp
    then show ?thesis using lifted(2,3) a q quiet_ok st(2) quietD(3) by auto
  next
    case False
    then have cy': "cy' = (on_server (mark_cannot_run j) cy1)\<lparr>cy_run_errors := cy_run_errors cy1 + 1\<rparr>"
      using run t by (simp add: run_job_def)
    have q: "quiet (cy_server cy1) (cy_server cy')" using quiet_mark by (simp add: cy' on_server_def)
    have q0: "quiet ?t (cy_server cy')" using quiet_trans[OF _ q] a False by (simp add: attempted_def)
    have "ji_can_not_run (job_at (cy_server cy') j)" using mark_marks[of j "cy_server cy1"] l1 j by (simp add: cy' on_server_def)
    then show ?thesis using lifted(1)[OF q0] lifted(3)[of "cy_server cy'"] quietD(3)[OF q0] quiet_ok[OF q] a cy' by simp
  qed
qed


section \<open>Limits\<close>

text \<open>The counts are determined by who runs and by the owners.\<close>

lemma same_running_counts:
  assumes st: "static s' = static s" and r: "runs s' = runs s" and tab: "in_tab s"
  shows "length (si_running_jobs s') = length (si_running_jobs s)"
    "count_by_user (server_running s') = count_by_user (server_running s)"
    "count_by_group (server_running s') = count_by_group (server_running s)"
    "q < length (si_queues s) \<Longrightarrow> length (qs_running_jobs (queue_at s' q)) = length (qs_running_jobs (queue_at s q))"
    "q < length (si_queues s) \<Longrightarrow> count_by_user (queue_running s' (queue_at s' q)) = count_by_user (queue_running s (queue_at s q))"
    "q < length (si_queues s) \<Longrightarrow> count_by_group (queue_running s' (queue_at s' q)) = count_by_group (queue_running s (queue_at s q))"
proof -
  note rr = runs_queue[OF r] and o = static_owner[OF st]
  show "length (si_running_jobs s') = length (si_running_jobs s)" using rr by simp
  show "count_by_user (server_running s') = count_by_user (server_running s)"
    "count_by_group (server_running s') = count_by_group (server_running s)"
    using rr(1) tab o by (auto intro!: count_by_user_accounts count_by_group_groups simp: server_running_def in_tab_def)
  assume q: "q < length (si_queues s)"
  have m: "\<forall>j \<in> set (qs_running_jobs (queue_at s q)). j < length (si_job_tab s)" using tab q by (auto simp: in_tab_def queue_at_def)
  show "length (qs_running_jobs (queue_at s' q)) = length (qs_running_jobs (queue_at s q))" using rr(2)[OF q] by simp
  show "count_by_user (queue_running s' (queue_at s' q)) = count_by_user (queue_running s (queue_at s q))"
    "count_by_group (queue_running s' (queue_at s' q)) = count_by_group (queue_running s (queue_at s q))"
    using rr(2)[OF q] m o by (auto intro!: count_by_user_accounts count_by_group_groups simp: queue_running_def)
qed

lemma within_limits_quiet:
  assumes "quiet s s'" "in_tab s" "q < length (si_queues s)" "j < length (si_job_tab s)"
  shows "within_limits s' q (job_at s' j) = within_limits s q (job_at s j)"
  using same_running_counts[OF quietD(1,2)[OF assms(1)] assms(2)] static_eq(4-6)[OF quietD(1)[OF assms(1)]]
    static_owner[OF quietD(1)[OF assms(1)] assms(4)] static_queue[OF quietD(1)[OF assms(1)] assms(3)] assms(3)
  by (simp add: within_limits_def)

text \<open>One pass over a job.\<close>

definition pass_over :: "int \<Rightarrow> nat \<Rightarrow> server_info \<Rightarrow> server_info \<Rightarrow> bool" where
  "pass_over limit j s s' \<longleftrightarrow>
     cy_ok s' \<and> exec_step limit j s s' \<and>
     (refused_job j s s' \<or> started_job j s s' \<and> within_limits s (si_job_queue s ! j) (job_at s j))"

lemma handle_job_spec:
  assumes ok: "cy_ok (cy_server cy)" and j: "j < length (si_job_tab (cy_server cy))"
    and run: "handle_job ce inp j cy = Some cy'"
  shows "pass_over (cf_max_user_run (ce_conf ce)) j (cy_server cy) (cy_server cy') \<and> position cy' = position cy"
proof -
  let ?s = "cy_server cy" and ?c = "ce\<lparr>ce_reg := cy_reg cy\<rparr>" and ?t = "upd_job j (\<lambda>job. job\<lparr>ji_schedule := []\<rparr>) (cy_server cy)"
  let ?q = "si_job_queue (cy_server cy) ! j"
  have q0: "quiet ?s ?t" by (rule quiet_upd_job) (simp_all add: job_owner_def)
  obtain rc s where r: "is_ok_to_run_job ?c j ?t = Some (rc, s)"
    and cy': "(if rc = SUCCESS then run_job ce inp j (cy\<lparr>cy_server := s\<rparr>) else refuse_job ce rc j (cy\<lparr>cy_server := s\<rparr>)) = Some cy'"
    using run by (auto simp: handle_job_def on_server_def Let_def split: option.splits)
  have q: "?q < length (si_queues ?s)" using ok j by (auto simp: cy_ok_def index_ok_def)
  have qt: "?q = si_job_queue ?t ! j" "?q < length (si_queues ?t)" using q by (simp_all add: upd_job_def)
  have okt: "server_ok ?t" "in_tab ?s" using quiet_ok[OF q0 ok] ok by (simp_all add: cy_ok_def)
  note i = is_ok_to_run_job_spec[OF okt(1) qt r]
  have qs: "quiet ?s s" using quiet_trans[OF q0 same_shell_quiet] i by blast
  have oks: "cy_ok s" "j < length (si_job_tab s)" using quiet_ok[OF qs ok] quietD(7)[OF qs] j by simp_all
  have acc: "ji_account (job_at s j) = ji_account (job_at ?s j)" using static_owner(1)[OF quietD(1)[OF qs] j] .
  show ?thesis
  proof (cases "rc = SUCCESS")
    case False
    then have "refuse_job ce rc j (cy\<lparr>cy_server := s\<rparr>) = Some cy'" using cy' by simp
    from refuse_job_quiet[OF this] oks(2) have f: "quiet s (cy_server cy')" "ji_can_not_run (job_at (cy_server cy') j)" "position cy' = position cy"
      by simp_all
    have "quiet ?s (cy_server cy')" by (rule quiet_trans[OF qs f(1)])
    then show ?thesis using f quiet_refused quietD(3) quiet_ok[OF f(1) oks(1)] by (simp add: pass_over_def exec_step_def)
  next
    case True
    have e: "si_exec_count ?t = si_exec_count ?s" "ji_account (job_at ?t j) = ji_account (job_at ?s j)"
      using quietD(3)[OF q0] static_owner(1)[OF quietD(1)[OF q0] j] by simp_all
    then have lim: "si_exec_count s (ji_account (job_at s j)) < cf_max_user_run (ce_conf ce)"
      using i True quietD(3)[OF qs] acc by simp
    have w: "within_limits ?s ?q (job_at ?s j)" using i True within_limits_quiet[OF q0 okt(2) q j] by simp
    have "run_job ce inp j (cy\<lparr>cy_server := s\<rparr>) = Some cy'" using cy' True by simp
    from run_job_spec[OF _ _ _ this] oks lim
    have f: "cy_ok (cy_server cy')" "position cy' = position cy" "exec_step (cf_max_user_run (ce_conf ce)) j s (cy_server cy')"
      "refused_job j s (cy_server cy') \<or> started_job j s (cy_server cy')" by simp_all
    have "exec_step (cf_max_user_run (ce_conf ce)) j ?s (cy_server cy')" using f(3) quietD(3)[OF qs] acc by (simp add: exec_step_def)
    moreover have "refused_job j ?s (cy_server cy') \<or> started_job j ?s (cy_server cy')"
      using f(4) quiet_then_started[OF qs] quiet_then_refused[OF qs] by blast
    ultimately show ?thesis using f w by (auto simp: pass_over_def)
  qed
qed


section \<open>Limits over a whole cycle\<close>

text \<open>A count never grows beyond its limit; one that was above it from the start does not grow.\<close>

definition respected :: "int \<Rightarrow> int \<Rightarrow> int \<Rightarrow> bool" where
  "respected limit before after \<longleftrightarrow> limit = RESC_INFINITY \<or> after \<le> max before limit"

definition limits_kept :: "int \<Rightarrow> server_info \<Rightarrow> server_info \<Rightarrow> bool" where
  "limits_kept max_exec s s' \<longleftrightarrow>
     static s' = static s \<and> (\<forall>u. si_exec_count s' u \<le> max (si_exec_count s u) max_exec) \<and>
     respected (si_max_run s) (int (length (si_running_jobs s))) (int (length (si_running_jobs s'))) \<and>
     (\<forall>u. respected (si_max_user_run s) (count_by_user (server_running s) u) (count_by_user (server_running s') u)) \<and>
     (\<forall>g. respected (si_max_group_run s) (count_by_group (server_running s) g) (count_by_group (server_running s') g)) \<and>
     (\<forall>q < length (si_queues s). let i = qs_info (queue_at s q); r = queue_at s q; r' = queue_at s' q in
        respected (qi_max_run i) (int (length (qs_running_jobs r))) (int (length (qs_running_jobs r'))) \<and>
        (\<forall>u. respected (qi_max_user_run i) (count_by_user (queue_running s r) u) (count_by_user (queue_running s' r') u)) \<and>
        (\<forall>g. respected (qi_max_group_run i) (count_by_group (queue_running s r) g) (count_by_group (queue_running s' r') g)))"

lemma respected_refl [simp]: "respected l n n"
  by (simp add: respected_def)

lemma respected_trans: "respected l a b \<Longrightarrow> respected l b c \<Longrightarrow> respected l a c"
  by (auto simp: respected_def)

lemma respected_grow: "below n l \<Longrightarrow> respected l n (n + 1)" "below n l \<Longrightarrow> respected l n (1 + n)"
  by (auto simp: respected_def below_def)

lemma exec_step_bound: "exec_step limit j s s' \<Longrightarrow> si_exec_count s' u \<le> max (si_exec_count s u) limit"
  by (auto simp: exec_step_def)

text \<open>The counts after a start: one more for the owner.\<close>

lemma started_counts:
  assumes st: "started_job j s s'" and tab: "in_tab s" and j: "j < length (si_job_tab s)"
  shows "count_by_user (server_running s') u = count_by_user (server_running s) u + (if u = ji_account (job_at s j) then 1 else 0)"
    "count_by_group (server_running s') g = count_by_group (server_running s) g + (if g = ji_group (job_at s j) then 1 else 0)"
    "q < length (si_queues s) \<Longrightarrow> count_by_user (queue_running s' (queue_at s' q)) u = count_by_user (queue_running s (queue_at s q)) u +
       (if q = si_job_queue s ! j \<and> u = ji_account (job_at s j) then 1 else 0)"
    "q < length (si_queues s) \<Longrightarrow> count_by_group (queue_running s' (queue_at s' q)) g = count_by_group (queue_running s (queue_at s q)) g +
       (if q = si_job_queue s ! j \<and> g = ji_group (job_at s j) then 1 else 0)"
proof -
  note b = st[unfolded started_job_def]
  have o: "ji_account (job_at s' i) = ji_account (job_at s i)" "ji_group (job_at s' i) = ji_group (job_at s i)"
    if "i < length (si_job_tab s)" for i
    using b by (blast intro: static_owner[OF _ that])+
  have u: "count_by_user (map (job_at s') js) = count_by_user (map (job_at s) js)"
    "count_by_group (map (job_at s') js) = count_by_group (map (job_at s) js)"
    if "\<forall>i \<in> set js. i < length (si_job_tab s)" for js
    using that o by (auto intro!: count_by_user_accounts count_by_group_groups)
  have m: "\<forall>i \<in> set (si_running_jobs s). i < length (si_job_tab s)" using tab by (simp add: in_tab_def)
  show "count_by_user (server_running s') u = count_by_user (server_running s) u + (if u = ji_account (job_at s j) then 1 else 0)"
    "count_by_group (server_running s') g = count_by_group (server_running s) g + (if g = ji_group (job_at s j) then 1 else 0)"
    using b u[of "si_running_jobs s @ [j]"] m j users.count_snoc groups_count.count_snoc by (simp_all add: server_running_def)
  assume q: "q < length (si_queues s)"
  have mq: "\<forall>i \<in> set (qs_running_jobs (queue_at s q)). i < length (si_job_tab s)" using tab q by (auto simp: in_tab_def queue_at_def)
  define X where "X = (if q = si_job_queue s ! j then [j] else [])"
  have r: "qs_running_jobs (queue_at s' q) = qs_running_jobs (queue_at s q) @ X" using b q by (auto simp: X_def)
  have X: "\<forall>i \<in> set (qs_running_jobs (queue_at s q) @ X). i < length (si_job_tab s)" using mq j by (auto simp: X_def)
  show "count_by_user (queue_running s' (queue_at s' q)) u = count_by_user (queue_running s (queue_at s q)) u +
       (if q = si_job_queue s ! j \<and> u = ji_account (job_at s j) then 1 else 0)"
    "count_by_group (queue_running s' (queue_at s' q)) g = count_by_group (queue_running s (queue_at s q)) g +
       (if q = si_job_queue s ! j \<and> g = ji_group (job_at s j) then 1 else 0)"
    unfolding queue_running_def r u[OF X] by (simp_all add: X_def users.count_snoc groups_count.count_snoc)
qed

lemma pass_limits:
  assumes ok: "cy_ok s" and j: "j < length (si_job_tab s)" and p: "pass_over limit j s s'"
  shows "limits_kept limit s s'"
proof -
  have e: "si_exec_count s' u \<le> max (si_exec_count s u) limit" for u using p exec_step_bound unfolding pass_over_def by blast
  have tab: "in_tab s" using ok by (simp add: cy_ok_def)
  consider (refused) "refused_job j s s'" | (started) "started_job j s s'" "within_limits s (si_job_queue s ! j) (job_at s j)"
    using p by (auto simp: pass_over_def)
  then show ?thesis
  proof cases
    case refused
    then have h: "static s' = static s" "runs s' = runs s" by (simp_all add: refused_job_def)
    then show ?thesis using same_running_counts[OF h tab] e by (simp add: limits_kept_def Let_def)
  next
    case started
    note c = started_counts[OF started(1) tab j] and b = started(1)[unfolded started_job_def] and w = started(2)[unfolded within_limits_def]
    have n: "int (length (si_running_jobs s')) = int (length (si_running_jobs s)) + 1" using b by simp
    have nq: "int (length (qs_running_jobs (queue_at s' q))) =
        int (length (qs_running_jobs (queue_at s q))) + (if q = si_job_queue s ! j then 1 else 0)"
      if "q < length (si_queues s)" for q using b that by simp
    show ?thesis unfolding limits_kept_def Let_def
      using b e n nq c w respected_grow by auto
  qed
qed

lemma limits_kept_trans:
  assumes "limits_kept l s s1" "limits_kept l s1 s2" shows "limits_kept l s s2"
proof -
  note a = assms(1)[unfolded limits_kept_def Let_def] and b = assms(2)[unfolded limits_kept_def Let_def]
  have e: "static s1 = static s" using a by simp
  note f = static_eq(4-6,9)[OF e] static_queue(1)[OF e]
  show ?thesis unfolding limits_kept_def Let_def
  proof (intro conjI allI impI)
    show "static s2 = static s" using a b by simp
    show "si_exec_count s2 u \<le> max (si_exec_count s u) l" for u
      using a b by (metis max.absorb_iff2 max.cobounded2 max.assoc max.mono order_refl order_trans)
  qed (use a b f respected_trans in \<open>metis+\<close>)
qed

end
