(* ===== verification/CycleEnd.thy ===== *)
theory CycleEnd
  imports CycleSafety
begin

text \<open>
  The order in which a cycle takes jobs, the passes as a step relation, the invariants of all reachable states,
  and the end of the loop: every pass uses up a job.
\<close>

section \<open>The selected job\<close>

lemma extract_loop_mem:
  "extract_loop prio js best mv mp = Some b \<Longrightarrow> best = Some b \<or> (b \<in> set js \<and> runnable b)"
proof (induction js arbitrary: best mv mp)
  case (Cons j js)
  then show ?case by (fastforce simp: Let_def split: if_splits)
qed simp

lemma extract_users_mem:
  "extract_users us best mv mp = Some b \<Longrightarrow> best = Some b \<or> (\<exists>u \<in> set us. b \<in> set u \<and> runnable b)"
proof (induction us arbitrary: best mv mp)
  case (Cons u us)
  show ?case
  proof (cases "dropWhile (\<lambda>j. \<not> runnable j) u")
    case Nil
    have "extract_users us best mv mp = Some b" using Cons.prems unfolding extract_users.simps Nil by simp
    then show ?thesis using Cons.IH by auto
  next
    case d: (Cons j x)
    have j: "runnable j" "j \<in> set u"
      using hd_dropWhile[of "\<lambda>j. \<not> runnable j" u] set_dropWhileD[of j "\<lambda>j. \<not> runnable j" u] d by auto
    then show ?thesis using d Cons.prems Cons.IH by (fastforce simp: Let_def split: if_splits)
  qed
qed simp

lemma those_mem: "those xs = Some ys \<Longrightarrow> y \<in> set ys \<Longrightarrow> Some y \<in> set xs"
proof (induction xs arbitrary: ys)
  case (Cons x xs)
  then show ?case by (auto split: option.splits)
qed simp

text \<open>An entry of the selection belongs to a job of the vector.\<close>

lemma fs_entries_mem:
  assumes "fs_entries trees s js = Some es" "e \<in> set es"
  shows "fe_index e \<in> set js \<and> fj_job e = job_at s (fe_index e)"
proof -
  obtain x where x: "x \<in> set js" "fs_entry_of trees s x = Some e"
    using those_mem[OF assms[unfolded fs_entries_def]] by auto
  then show ?thesis by (auto simp: fs_entry_of_def)
qed

text \<open>A job is open when it is neither running nor marked.\<close>

definition open_job :: "server_info \<Rightarrow> nat \<Rightarrow> bool" where
  "open_job s j \<longleftrightarrow> \<not> ji_can_not_run (job_at s j) \<and> ji_state (job_at s j) \<noteq> JobRunning"

lemma runnable_open: "runnable e \<Longrightarrow> fj_job e = job_at s j \<Longrightarrow> open_job s j"
  by (simp add: runnable_def open_job_def)

lemma fair_queues_mem:
  "fair_queues prio trees s qs lq = Some (Some j, lq') \<Longrightarrow> \<exists>q \<in> set qs. j \<in> set (qs_jobs q) \<and> open_job s j"
proof (induction prio trees s qs lq rule: fair_queues.induct)
  case (2 prio trees s q qs lq)
  then obtain es where es: "fs_entries trees s (qs_jobs q) = Some es" by (auto split: option.splits)
  show ?case
  proof (cases "extract_fairshare prio es")
    case None
    then show ?thesis using 2 es by (auto split: if_splits)
  next
    case (Some e)
    have "e \<in> set es" "runnable e" using extract_loop_mem[OF Some[unfolded extract_fairshare_def]] by auto
    then show ?thesis using 2(2) Some es fs_entries_mem[OF es] runnable_open by fastforce
  qed
qed simp

section \<open>The order without fairshare\<close>

text \<open>The jobs in the order in which they are considered, and how many have been passed.\<close>

definition job_seq :: "policy \<Rightarrow> server_info \<Rightarrow> nat list" where
  "job_seq p s = (if po_by_queue p then concat (map qs_jobs (si_queues s)) else si_jobs s)"

definition passed :: "policy \<Rightarrow> server_info \<Rightarrow> nat \<Rightarrow> int \<Rightarrow> nat" where
  "passed p s lq lj =
     (if po_by_queue p then length (concat (take lq (map qs_jobs (si_queues s)))) + nat (lj + 1) else nat (lj + 1))"

lemma concat_nth_split:
  "q < length xss \<Longrightarrow> i < length (xss ! q) \<Longrightarrow> length (concat (take q xss)) + i < length (concat xss) \<and>
     concat xss ! (length (concat (take q xss)) + i) = xss ! q ! i"
proof -
  assume h: "q < length xss" "i < length (xss ! q)"
  have "concat xss = concat (take q xss) @ xss ! q @ concat (drop (Suc q) xss)"
    using h(1) by (metis append_take_drop_id concat.simps(2) concat_append Cons_nth_drop_Suc)
  then show ?thesis using h(2) by (simp add: nth_append)
qed

lemma concat_take_Suc: "q < length xss \<Longrightarrow> length (concat (take (Suc q) xss)) = length (concat (take q xss)) + length (xss ! q)"
  by (simp add: take_Suc_conv_app_nth)

lemma skip_loop_spec:
  assumes "skip_loop stuck qs lq lj = Some (lq', lj')" "lq \<le> length qs" "lq < length qs \<Longrightarrow> lj \<le> length (qs ! lq)"
  shows "lq' \<le> length qs \<and>
     (lq' < length qs \<longrightarrow> lj' < length (qs ! lq') \<and> \<not> stuck (qs ! lq' ! lj') \<and>
        length (concat (take lq qs)) + lj \<le> length (concat (take lq' qs)) + lj')"
  using assms
proof (induction stuck qs lq lj rule: skip_loop.induct)
  case (1 stuck qs lq lj)
  show ?case
  proof (cases "lq < length qs")
    case False
    then show ?thesis using 1(3,4) by (simp add: skip_loop.simps)
  next
    case lq: True
    let ?jobs = "qs ! lq"
    consider (end_of_queue) "lj = length ?jobs" | (skip) "lj < length ?jobs" "stuck (?jobs ! lj)"
      | (take_it) "lj < length ?jobs" "\<not> stuck (?jobs ! lj)" using 1(5) lq by fastforce
    then show ?thesis
    proof cases
      case end_of_queue
      have "skip_loop stuck qs (lq + 1) 0 = Some (lq', lj')" using 1(3) lq end_of_queue by (subst (asm) skip_loop.simps) simp
      from 1(1)[OF lq refl end_of_queue this] lq show ?thesis using end_of_queue concat_take_Suc[OF lq] by auto
    next
      case skip
      have "skip_loop stuck qs lq (lj + 1) = Some (lq', lj')" using 1(3) lq skip by (subst (asm) skip_loop.simps) simp
      from 1(2)[OF lq refl _ _ _ this] lq skip show ?thesis by auto
    next
      case take_it
      then show ?thesis using 1(3) lq by (subst (asm) skip_loop.simps) (auto split: if_splits)
    qed
  qed
qed


text \<open>Where the selection may stand.\<close>

definition pos_ok :: "policy \<Rightarrow> server_info \<Rightarrow> nat \<Rightarrow> int \<Rightarrow> bool" where
  "pos_ok p s lq lj \<longleftrightarrow>
     - 1 \<le> lj \<and> (po_by_queue p \<longrightarrow> lq \<le> length (si_queues s) \<and> (lq < length (si_queues s) \<longrightarrow> lj < int (length (qs_jobs (queue_at s lq)))))"

lemma next_in_queues_spec:
  assumes "next_in_queues s lq lj = Some (r, lq', lj')" "pos_ok p s lq lj" "po_by_queue p"
  shows "r = Some j \<Longrightarrow> pos_ok p s lq' lj' \<and> \<not> ji_can_not_run (job_at s j) \<and> passed p s lq lj < passed p s lq' lj' \<and>
     passed p s lq' lj' \<le> length (job_seq p s) \<and> j = job_seq p s ! (passed p s lq' lj' - 1)"
proof -
  assume r: "r = Some j"
  let ?qs = "map qs_jobs (si_queues s)"
  obtain k where sk: "skip_loop (\<lambda>j. ji_can_not_run (job_at s j)) ?qs lq (nat (lj + 1)) = Some (lq', k)" and k: "lj' = int k"
    and j: "lq' \<noteq> length (si_queues s)" "j = qs_jobs (queue_at s lq') ! k"
    using assms(1) r by (auto simp: next_in_queues_def split: option.splits if_splits)
  have pre: "lq \<le> length ?qs" "lq < length ?qs \<Longrightarrow> nat (lj + 1) \<le> length (?qs ! lq)"
    using assms(2,3) by (auto simp: pos_ok_def queue_at_def)
  note s = skip_loop_spec[OF sk pre]
  have lq': "lq' < length ?qs" using s j(1) by auto
  then have b: "k < length (?qs ! lq')" "\<not> ji_can_not_run (job_at s (?qs ! lq' ! k))"
    "length (concat (take lq ?qs)) + nat (lj + 1) \<le> length (concat (take lq' ?qs)) + k" using s by auto
  have jq: "j = ?qs ! lq' ! k" using j lq' by (simp add: queue_at_def)
  have n: "nat (int k + 1) = Suc k" by simp
  show ?thesis
    using b lq' concat_nth_split[OF lq' b(1)] jq k n assms(3)
    by (simp add: pos_ok_def passed_def job_seq_def queue_at_def)
qed

lemma next_in_server_spec:
  assumes "next_in_server s lj = Some (Some j, lj')" "- 1 \<le> lj"
  shows "- 1 \<le> lj' \<and> lj < lj' \<and> nat (lj' + 1) \<le> length (si_jobs s) \<and> \<not> ji_can_not_run (job_at s j) \<and> j = si_jobs s ! nat lj'"
proof -
  let ?P = "\<lambda>j. ji_can_not_run (job_at s j)" and ?d = "drop (nat (lj + 1)) (si_jobs s)"
  let ?n = "length (takeWhile ?P ?d)"
  have le: "nat (lj + 1) \<le> length (si_jobs s)" and lj': "lj' = int (nat (lj + 1) + ?n)" and ne: "nat (lj + 1) + ?n \<noteq> length (si_jobs s)"
    and j: "j = si_jobs s ! (nat (lj + 1) + ?n)"
    using assms(1) by (auto simp: next_in_server_def Let_def split: if_splits)
  have "?n \<le> length ?d" by (rule length_takeWhile_le)
  then have n: "?n < length ?d" using ne le by simp
  have s: "\<not> ?P (?d ! ?n)" using nth_length_takeWhile[OF n] .
  define m where "m = nat (lj + 1) + ?n"
  have m: "m < length (si_jobs s)" "nat (lj + 1) \<le> m" using n le by (simp_all add: m_def)
  have f: "lj' = int m" "j = si_jobs s ! m" "\<not> ?P j" using lj' j s le by (simp_all add: m_def)
  then show ?thesis using m assms(2) by auto
qed

text \<open>What \<open>next_job\<close> promises: a job of the server that may be considered, further on in the order.\<close>

lemma next_job_server: "next_job conf p cy = Some (r, cy') \<Longrightarrow> cy_server cy' = cy_server cy \<and> cy_trees cy' = cy_trees cy"
  by (auto simp: next_job_def Let_def split: if_splits prod.splits)

lemma next_job_fair:
  assumes "next_job conf p cy = Some (Some j, cy')" "po_fair_share p" "index_ok (cy_server cy)"
  shows "j < length (si_job_tab (cy_server cy)) \<and> open_job (cy_server cy) j"
proof (cases "po_by_queue p")
  case True
  then obtain lq where "fair_queues (cf_priority_fairshare conf) (cy_trees cy) (cy_server cy)
      (drop (cy_last_queue cy) (si_queues (cy_server cy))) (cy_last_queue cy) = Some (Some j, lq)"
    using assms(1,2) by (auto simp: next_job_def Let_def split: if_splits)
  from fair_queues_mem[OF this] show ?thesis using assms(3) by (auto simp: index_ok_def dest: in_set_dropD)
next
  case False
  then obtain es e where es: "those (map (\<lambda>(_, js). fs_entries (cy_trees cy) (cy_server cy) js) (si_jobs_by_owner (cy_server cy))) = Some es"
    and e: "extract_fairshare_server es = Some e" "j = fe_index e"
    using assms(1,2) by (auto simp: next_job_def Let_def split: if_splits)
  obtain u where u: "u \<in> set es" "e \<in> set u" "runnable e" using extract_users_mem[OF e(1)[unfolded extract_fairshare_server_def]] by auto
  obtain o' js where o: "(o', js) \<in> set (si_jobs_by_owner (cy_server cy))" "fs_entries (cy_trees cy) (cy_server cy) js = Some u"
    using those_mem[OF es u(1)] by auto
  show ?thesis using fs_entries_mem[OF o(2) u(2)] runnable_open[OF u(3)] o(1) e(2) assms(3) by (auto simp: index_ok_def)
qed

lemma next_job_plain:
  assumes "next_job conf p cy = Some (Some j, cy')" "\<not> po_fair_share p" "pos_ok p (cy_server cy) (cy_last_queue cy) (cy_last_job cy)"
  shows "pos_ok p (cy_server cy) (cy_last_queue cy') (cy_last_job cy') \<and> \<not> ji_can_not_run (job_at (cy_server cy) j) \<and>
     passed p (cy_server cy) (cy_last_queue cy) (cy_last_job cy) < passed p (cy_server cy) (cy_last_queue cy') (cy_last_job cy') \<and>
     passed p (cy_server cy) (cy_last_queue cy') (cy_last_job cy') \<le> length (job_seq p (cy_server cy)) \<and>
     j = job_seq p (cy_server cy) ! (passed p (cy_server cy) (cy_last_queue cy') (cy_last_job cy') - 1)"
proof (cases "po_by_queue p")
  case True
  then obtain lq lj where n: "next_in_queues (cy_server cy) (cy_last_queue cy) (cy_last_job cy) = Some (Some j, lq, lj)"
    and "cy_last_queue cy' = lq" "cy_last_job cy' = lj"
    using assms(1,2) by (auto simp: next_job_def Let_def split: if_splits)
  with next_in_queues_spec[OF n assms(3) True refl] show ?thesis by auto
next
  case False
  then obtain lj where n: "next_in_server (cy_server cy) (cy_last_job cy) = Some (Some j, lj)" and "cy_last_job cy' = lj"
    using assms(1,2) by (auto simp: next_job_def Let_def split: if_splits)
  then show ?thesis using next_in_server_spec[OF n] assms(3) False by (auto simp: pos_ok_def passed_def job_seq_def nat_add_distrib)
qed

section \<open>A pass\<close>

text \<open>
  A job is closed when no later pass may take it: it is marked, it runs (with fairshare), or its place in the order is
  behind the selection (without).
\<close>

definition closed_job :: "policy \<Rightarrow> cycle \<Rightarrow> nat \<Rightarrow> bool" where
  "closed_job p cy j \<longleftrightarrow>
     ji_can_not_run (job_at (cy_server cy) j) \<or>
     (if po_fair_share p then ji_state (job_at (cy_server cy) j) = JobRunning
      else j \<in> set (take (passed p (cy_server cy) (cy_last_queue cy) (cy_last_job cy)) (job_seq p (cy_server cy))))"

definition cy_inv :: "policy \<Rightarrow> cycle \<Rightarrow> bool" where
  "cy_inv p cy \<longleftrightarrow>
     cy_ok (cy_server cy) \<and> distinct (job_seq p (cy_server cy)) \<and>
     (\<not> po_fair_share p \<longrightarrow> pos_ok p (cy_server cy) (cy_last_queue cy) (cy_last_job cy)) \<and>
     distinct (si_running_jobs (cy_server cy)) \<and> (\<forall>j \<in> set (si_running_jobs (cy_server cy)). closed_job p cy j)"

text \<open>The jobs a cycle may still take.\<close>

definition todo :: "policy \<Rightarrow> cycle \<Rightarrow> nat" where
  "todo p cy =
     (let s = cy_server cy
      in if po_fair_share p then length (filter (open_job s) [0..<length (si_job_tab s)])
         else length (job_seq p s) - passed p s (cy_last_queue cy) (cy_last_job cy))"

lemma static_order:
  assumes "static s' = static s"
  shows "job_seq p s' = job_seq p s" "passed p s' = passed p s" "pos_ok p s' = pos_ok p s"
proof -
  have q: "map qs_jobs (si_queues s') = map qs_jobs (si_queues s)"
    by (rule map_eq_via[OF static_eq(7)[OF assms]]) (simp add: queue_static_def)
  show "job_seq p s' = job_seq p s" "passed p s' = passed p s"
    using q static_eq(2)[OF assms] by (simp_all add: job_seq_def passed_def fun_eq_iff)
  show "pos_ok p s' = pos_ok p s"
    using static_eq(9)[OF assms] static_queue(2)[OF assms] by (auto simp: pos_ok_def fun_eq_iff)
qed

lemma selected_job:
  assumes n: "next_job conf p cy = Some (Some j, cy')" and i: "cy_inv p cy"
  shows "j < length (si_job_tab (cy_server cy)) \<and> \<not> closed_job p cy j \<and> \<not> ji_can_not_run (job_at (cy_server cy) j)"
proof (cases "po_fair_share p")
  case True
  then show ?thesis using next_job_fair[OF n True] i by (auto simp: cy_inv_def cy_ok_def open_job_def closed_job_def)
next
  case False
  let ?s = "cy_server cy" let ?seq = "job_seq p ?s" let ?a = "passed p ?s (cy_last_queue cy) (cy_last_job cy)"
  let ?b = "passed p ?s (cy_last_queue cy') (cy_last_job cy')"
  have f: "\<not> ji_can_not_run (job_at ?s j)" "?a < ?b" "?b \<le> length ?seq" "j = ?seq ! (?b - 1)"
    using next_job_plain[OF n False] i False by (auto simp: cy_inv_def)
  have "j \<in> set ?seq" using f by simp
  then have "j < length (si_job_tab ?s)" using i by (auto simp: cy_inv_def cy_ok_def index_ok_def job_seq_def split: if_splits)
  moreover have "j \<notin> set (take ?a ?seq)"
    using f i by (auto simp: cy_inv_def in_set_conv_nth nth_eq_iff_index_eq)
  ultimately show ?thesis using f False by (simp add: closed_job_def)
qed

lemma pass_over_facts:
  assumes "pass_over limit j s s'"
  shows "static s' = static s" "cy_ok s'"
    "\<And>i. i < length (si_job_tab s) \<Longrightarrow> ji_can_not_run (job_at s i) \<Longrightarrow> ji_can_not_run (job_at s' i)"
    "\<And>i. i < length (si_job_tab s) \<Longrightarrow> i \<noteq> j \<Longrightarrow> ji_state (job_at s' i) = ji_state (job_at s i)"
    "si_running_jobs s' = si_running_jobs s \<and> ji_can_not_run (job_at s' j) \<or>
     si_running_jobs s' = si_running_jobs s @ [j] \<and> ji_state (job_at s' j) = JobRunning"
proof -
  have c: "refused_job j s s' \<or> started_job j s s'" using assms by (auto simp: pass_over_def)
  show "static s' = static s" "\<And>i. i < length (si_job_tab s) \<Longrightarrow> ji_can_not_run (job_at s i) \<Longrightarrow> ji_can_not_run (job_at s' i)"
    "\<And>i. i < length (si_job_tab s) \<Longrightarrow> i \<noteq> j \<Longrightarrow> ji_state (job_at s' i) = ji_state (job_at s i)"
    "si_running_jobs s' = si_running_jobs s \<and> ji_can_not_run (job_at s' j) \<or>
     si_running_jobs s' = si_running_jobs s @ [j] \<and> ji_state (job_at s' j) = JobRunning"
    using c by (auto simp: refused_job_def started_job_def runs_def)
  show "cy_ok s'" using assms by (simp add: pass_over_def)
qed

lemma filter_shrinks:
  assumes "\<And>x. x \<in> set xs \<Longrightarrow> Q x \<Longrightarrow> P x" "y \<in> set xs" "P y" "\<not> Q y"
  shows "length (filter Q xs) < length (filter P xs)"
  using assms
proof (induction xs)
  case (Cons x xs)
  have le: "length (filter Q xs) \<le> length (filter P xs)"
    using Cons.prems(1) by (metis (no_types, lifting) filter_cong filter_filter length_filter_le list.set_intros(2))
  show ?case using Cons le by (cases "y \<in> set xs") (auto simp: le_imp_less_Suc less_Suc_eq)
qed simp

lemma cycle_pass_spec:
  assumes pass: "cycle_pass ce start inp cy = Some (True, cy')" and inv: "cy_inv (cs_policy (ce_status ce)) cy"
  shows "cy_inv (cs_policy (ce_status ce)) cy' \<and> todo (cs_policy (ce_status ce)) cy' < todo (cs_policy (ce_status ce)) cy \<and>
     limits_kept (cf_max_user_run (ce_conf ce)) (cy_server cy) (cy_server cy')"
proof -
  let ?p = "cs_policy (ce_status ce)" and ?s = "cy_server cy" and ?t = "cy_server cy'"
  obtain j cy1 where n: "next_job (ce_conf ce) ?p cy = Some (Some j, cy1)" and h: "handle_job ce inp j cy1 = Some cy'"
    using pass by (auto simp: cycle_pass_def split: if_splits option.splits)
  have s1: "cy_server cy1 = ?s" using next_job_server[OF n] by simp
  note sel = selected_job[OF n inv]
  have ok: "cy_ok ?s" using inv by (simp add: cy_inv_def)
  have po: "pass_over (cf_max_user_run (ce_conf ce)) j ?s ?t" and pos: "position cy' = position cy1"
    using handle_job_spec[OF _ _ h] s1 ok sel by auto
  note f = pass_over_facts[OF po]
  have len: "length (si_job_tab ?t) = length (si_job_tab ?s)" using static_eq(10)[OF f(1)] .
  have pq: "cy_last_queue cy' = cy_last_queue cy1" "cy_last_job cy' = cy_last_job cy1" using pos by (simp_all add: position_def)
  note so = static_order[OF f(1), of ?p]
  have plain: "pos_ok ?p ?s (cy_last_queue cy1) (cy_last_job cy1)"
      "passed ?p ?s (cy_last_queue cy) (cy_last_job cy) < passed ?p ?s (cy_last_queue cy1) (cy_last_job cy1)"
      "passed ?p ?s (cy_last_queue cy1) (cy_last_job cy1) \<le> length (job_seq ?p ?s)"
      "j = job_seq ?p ?s ! (passed ?p ?s (cy_last_queue cy1) (cy_last_job cy1) - 1)" if nf: "\<not> po_fair_share ?p"
    using next_job_plain[OF n nf] inv nf by (simp_all add: cy_inv_def)
  have keep: "closed_job ?p cy' i" if "i < length (si_job_tab ?s)" "closed_job ?p cy i" for i
  proof (cases "po_fair_share ?p")
    case True
    then have "i \<noteq> j" using that sel by auto
    then show ?thesis using that f(3,4)[OF that(1)] True by (auto simp: closed_job_def)
  next
    case False
    have "set (take (passed ?p ?s (cy_last_queue cy) (cy_last_job cy)) (job_seq ?p ?s)) \<subseteq>
        set (take (passed ?p ?s (cy_last_queue cy1) (cy_last_job cy1)) (job_seq ?p ?s))"
      using plain(2)[OF False] by (intro set_take_subset_set_take) simp
    then show ?thesis using that f(3)[OF that(1)] False so pq by (auto simp: closed_job_def)
  qed
  have new: "closed_job ?p cy' j" if "ji_state (job_at ?t j) = JobRunning"
  proof (cases "po_fair_share ?p")
    case False
    let ?b = "passed ?p ?s (cy_last_queue cy1) (cy_last_job cy1)"
    have "take ?b (job_seq ?p ?s) ! (?b - 1) = j" "?b - 1 < length (take ?b (job_seq ?p ?s))"
      using plain[OF False] by auto
    then have "j \<in> set (take ?b (job_seq ?p ?s))" by (metis nth_mem)
    then show ?thesis using False so pq by (simp add: closed_job_def)
  qed (use that in \<open>simp add: closed_job_def\<close>)
  have run: "\<forall>i \<in> set (si_running_jobs ?s). i < length (si_job_tab ?s)" using ok by (simp add: cy_ok_def in_tab_def)
  have notin: "j \<notin> set (si_running_jobs ?s)" using inv sel by (auto simp: cy_inv_def)
  have "cy_inv ?p cy'" unfolding cy_inv_def
  proof (intro conjI impI ballI)
    show "cy_ok ?t" "distinct (job_seq ?p ?t)" using f(2) so inv by (simp_all add: cy_inv_def)
    show "pos_ok ?p ?t (cy_last_queue cy') (cy_last_job cy')" if "\<not> po_fair_share ?p" using plain(1)[OF that] so pq by simp
    show "distinct (si_running_jobs ?t)" using f(5) notin inv by (auto simp: cy_inv_def)
    show "closed_job ?p cy' i" if "i \<in> set (si_running_jobs ?t)" for i
      using f(5) that new keep run inv by (auto simp: cy_inv_def)
  qed
  moreover have "todo ?p cy' < todo ?p cy"
  proof (cases "po_fair_share ?p")
    case True
    have "length (filter (open_job ?t) [0..<length (si_job_tab ?s)]) < length (filter (open_job ?s) [0..<length (si_job_tab ?s)])"
    proof (rule filter_shrinks[of _ _ _ j])
      show "open_job ?s j" "\<not> open_job ?t j" "j \<in> set [0..<length (si_job_tab ?s)]"
        using sel True f(5) by (auto simp: open_job_def closed_job_def)
      show "open_job ?s i" if "i \<in> set [0..<length (si_job_tab ?s)]" "open_job ?t i" for i
        using that f(3,4)[of i] \<open>open_job ?s j\<close> by (cases "i = j") (auto simp: open_job_def)
    qed
    then show ?thesis using True len by (simp add: todo_def Let_def)
  qed (use plain so pq in \<open>auto simp: todo_def Let_def\<close>)
  moreover have "limits_kept (cf_max_user_run (ce_conf ce)) ?s ?t" using pass_limits[OF ok _ po] sel by simp
  ultimately show ?thesis by simp
qed

lemma cycle_pass_stop:
  "cycle_pass ce start inp cy = Some (False, cy') \<Longrightarrow> cy_server cy' = cy_server cy"
  by (auto simp: cycle_pass_def split: if_splits option.splits dest: next_job_server)

section \<open>All passes\<close>

text \<open>The states a cycle goes through, whatever the server answers and whatever the clock and the cache say.\<close>

inductive cycle_reach :: "cycle_env \<Rightarrow> int \<Rightarrow> cycle \<Rightarrow> cycle \<Rightarrow> bool" for ce start cy where
  begin_cycle: "cycle_reach ce start cy cy"
| next_pass: "cycle_reach ce start cy cy1 \<Longrightarrow> cycle_pass ce start inp cy1 = Some (True, cy2) \<Longrightarrow> cycle_reach ce start cy cy2"

lemma limits_kept_refl [simp]: "limits_kept l s s"
  by (simp add: limits_kept_def Let_def)

lemma reach_inv:
  assumes "cycle_reach ce start cy cy'" "cy_inv (cs_policy (ce_status ce)) cy"
  shows "cy_inv (cs_policy (ce_status ce)) cy' \<and> limits_kept (cf_max_user_run (ce_conf ce)) (cy_server cy) (cy_server cy')"
  using assms
proof (induction rule: cycle_reach.induct)
  case (next_pass cy1 inp cy2)
  then show ?case using cycle_pass_spec[OF next_pass.hyps(2)] limits_kept_trans by blast
qed simp

lemma reach_step_front:
  assumes "cycle_pass ce start inp cy = Some (True, cy1)" "cycle_reach ce start cy1 cy2"
  shows "cycle_reach ce start cy cy2"
  using assms(2,1)
  by (induction rule: cycle_reach.induct) (blast intro: cycle_reach.intros)+

lemma main_loop_reach:
  assumes "main_loop ce start inputs fuel n cy = Finished cy'"
  shows "\<exists>cy1 k. cycle_reach ce start cy cy1 \<and> cycle_pass ce start (inputs k) cy1 = Some (False, cy')"
  using assms
proof (induction ce start inputs fuel n cy rule: main_loop.induct)
  case (2 ce start inputs fuel n cy)
  show ?case
  proof (cases "cycle_pass ce start (inputs n) cy")
    case (Some r)
    obtain b c where r: "(b, c) = r" by (metis surj_pair)
    show ?thesis
    proof (cases "b = True")
      case True
      then have "main_loop ce start inputs fuel (n + 1) c = Finished cy'" using 2(2) Some r[symmetric] by simp
      from 2(1)[OF Some r True this] show ?thesis using reach_step_front Some r True by blast
    next
      case False
      then have "c = cy'" using 2(2) Some r[symmetric] by simp
      then have "cycle_pass ce start (inputs n) cy = Some (False, cy')" using Some r False by simp
      then show ?thesis using cycle_reach.begin_cycle[of ce start cy] by blast
    qed
  qed (use 2(2) in simp)
qed simp

text \<open>The loop ends: the fuel is never used up when there is more of it than there are jobs to take.\<close>

lemma main_loop_ends:
  assumes "cy_inv (cs_policy (ce_status ce)) cy" "todo (cs_policy (ce_status ce)) cy < fuel"
  shows "main_loop ce start inputs fuel n cy \<noteq> Out_Of_Fuel"
  using assms
proof (induction ce start inputs fuel n cy rule: main_loop.induct)
  case (2 ce start inputs fuel n cy)
  show ?case
  proof (cases "cycle_pass ce start (inputs n) cy")
    case (Some r)
    obtain b c where r: "(b, c) = r" by (metis surj_pair)
    show ?thesis
    proof (cases "b = True")
      case True
      have "cycle_pass ce start (inputs n) cy = Some (True, c)" using Some r True by simp
      note p = cycle_pass_spec[OF this 2(2)]
      have "main_loop ce start inputs fuel (n + 1) c \<noteq> Out_Of_Fuel"
        by (rule 2(1)[OF Some r True]) (use p 2(3) in simp_all)
      then show ?thesis using Some r[symmetric] True by simp
    qed (use Some r[symmetric] in simp)
  qed simp
qed simp

lemma main_loop_result:
  assumes "cy_inv (cs_policy (ce_status ce)) cy" "main_loop ce start inputs fuel n cy = Finished cy'"
  shows "limits_kept (cf_max_user_run (ce_conf ce)) (cy_server cy) (cy_server cy') \<and> cy_ok (cy_server cy') \<and>
     distinct (si_running_jobs (cy_server cy'))"
proof -
  obtain cy1 k where r: "cycle_reach ce start cy cy1" "cycle_pass ce start (inputs k) cy1 = Some (False, cy')"
    using main_loop_reach[OF assms(2)] by blast
  show ?thesis using reach_inv[OF r(1) assms(1)] cycle_pass_stop[OF r(2)] by (simp add: cy_inv_def)
qed

section \<open>No job is forgotten\<close>

text \<open>
  With the whole server as one queue: when the selection answers that no job is left, every job has been started or
  is marked as one that cannot run.
\<close>

definition settled :: "server_info \<Rightarrow> nat \<Rightarrow> bool" where
  "settled s j \<longleftrightarrow> ji_can_not_run (job_at s j) \<or> j \<in> set (si_running_jobs s)"

definition settled_upto :: "cycle \<Rightarrow> bool" where
  "settled_upto cy \<longleftrightarrow> (\<forall>j \<in> set (take (nat (cy_last_job cy + 1)) (si_jobs (cy_server cy))). settled (cy_server cy) j)"

lemma take_upto_skipped:
  assumes "\<forall>x \<in> set (take n xs). Q x" "\<forall>x. P x \<longrightarrow> Q x"
  shows "\<forall>x \<in> set (take (n + length (takeWhile P (drop n xs))) xs). Q x"
proof -
  have "take (n + length (takeWhile P (drop n xs))) xs = take n xs @ takeWhile P (drop n xs)"
    by (simp add: take_add takeWhile_eq_take[symmetric])
  then show ?thesis using assms set_takeWhileD[of _ P "drop n xs"] by auto
qed

lemma next_server_settled:
  assumes n: "next_job conf p cy = Some (r, cy')" and p: "\<not> po_fair_share p" "\<not> po_by_queue p" and s: "settled_upto cy"
  shows "r = Some j \<Longrightarrow> \<forall>i \<in> set (take (nat (cy_last_job cy' + 1)) (si_jobs (cy_server cy))). i = j \<or> settled (cy_server cy) i"
    "r = None \<Longrightarrow> \<forall>i \<in> set (si_jobs (cy_server cy)). settled (cy_server cy) i"
proof -
  let ?s = "cy_server cy" let ?P = "\<lambda>j. ji_can_not_run (job_at ?s j)" let ?n = "nat (cy_last_job cy + 1)"
  define m where "m = ?n + length (takeWhile ?P (drop ?n (si_jobs ?s)))"
  have f: "r = (if m = length (si_jobs ?s) then None else Some (si_jobs ?s ! m))" "cy_last_job cy' = int m" "?n \<le> length (si_jobs ?s)"
    using n p by (auto simp: next_job_def next_in_server_def Let_def m_def split: if_splits)
  have le: "m \<le> length (si_jobs ?s)"
    using f(3) length_takeWhile_le[of ?P "drop ?n (si_jobs ?s)"] by (simp add: m_def)
  have t: "\<forall>i \<in> set (take m (si_jobs ?s)). settled ?s i"
    using take_upto_skipped[of ?n "si_jobs ?s" "settled ?s" ?P] s by (simp add: m_def settled_upto_def settled_def)
  show "r = None \<Longrightarrow> \<forall>i \<in> set (si_jobs ?s). settled ?s i" using t f(1) by (auto split: if_splits)
  assume "r = Some j"
  then have j: "m < length (si_jobs ?s)" "j = si_jobs ?s ! m" using f(1) le by (auto split: if_splits)
  then show "\<forall>i \<in> set (take (nat (cy_last_job cy' + 1)) (si_jobs ?s)). i = j \<or> settled ?s i"
    using t f(2) by (auto simp: nat_add_distrib take_Suc_conv_app_nth)
qed

lemma pass_settled:
  assumes pass: "cycle_pass ce start inp cy = Some (True, cy')" and inv: "cy_inv (cs_policy (ce_status ce)) cy"
    and p: "\<not> po_fair_share (cs_policy (ce_status ce))" "\<not> po_by_queue (cs_policy (ce_status ce))" and s: "settled_upto cy"
  shows "settled_upto cy'"
proof -
  let ?p = "cs_policy (ce_status ce)" and ?s = "cy_server cy" and ?t = "cy_server cy'"
  obtain j cy1 where n: "next_job (ce_conf ce) ?p cy = Some (Some j, cy1)" and h: "handle_job ce inp j cy1 = Some cy'"
    using pass by (auto simp: cycle_pass_def split: if_splits option.splits)
  have s1: "cy_server cy1 = ?s" using next_job_server[OF n] by simp
  note sel = selected_job[OF n inv]
  have ok: "cy_ok ?s" using inv by (simp add: cy_inv_def)
  have po: "pass_over (cf_max_user_run (ce_conf ce)) j ?s ?t" and pos: "cy_last_job cy' = cy_last_job cy1"
    using handle_job_spec[OF _ _ h] s1 ok sel by (auto simp: position_def)
  note f = pass_over_facts[OF po] and t = next_server_settled(1)[OF n p s refl]
  have jobs: "si_jobs ?t = si_jobs ?s" using static_eq(2)[OF f(1)] .
  have tab: "\<forall>i \<in> set (si_jobs ?s). i < length (si_job_tab ?s)" using ok by (simp add: cy_ok_def index_ok_def)
  have "settled ?t i" if "i \<in> set (si_jobs ?s)" "i = j \<or> settled ?s i" for i
    using that tab f(3)[of i] f(5) by (auto simp: settled_def)
  then show ?thesis using t pos jobs by (auto simp: settled_upto_def dest: in_set_takeD)
qed

lemma all_settled:
  assumes "cycle_reach ce start cy cy'" "cy_inv (cs_policy (ce_status ce)) cy"
    and "\<not> po_fair_share (cs_policy (ce_status ce))" "\<not> po_by_queue (cs_policy (ce_status ce))" "settled_upto cy"
    and "next_job (ce_conf ce) (cs_policy (ce_status ce)) cy' = Some (None, cy'')"
  shows "\<forall>j \<in> set (si_jobs (cy_server cy)). settled (cy_server cy') j"
proof -
  have "settled_upto cy'" using assms(1,2,3,4,5)
  proof (induction rule: cycle_reach.induct)
    case (next_pass cy1 inp cy2)
    then show ?case using pass_settled[OF next_pass.hyps(2)] reach_inv[OF next_pass.hyps(1)] by blast
  qed
  moreover have "si_jobs (cy_server cy') = si_jobs (cy_server cy)"
    using reach_inv[OF assms(1,2)] static_eq(2) unfolding limits_kept_def by blast
  ultimately show ?thesis using next_server_settled(2)[OF assms(6,3,4)] by simp
qed

end
