(* ===== verification/ServerQuery.thy ===== *)
theory ServerQuery
  imports JobQueries
begin

text \<open>
  Reading the state of the server at the start of a cycle: \<open>src/server_info.cpp\<close>, \<open>src/node_info.cpp\<close> and the queries of
  \<open>src/queue_info.cpp\<close>.  The replies of the server and of the cache are inputs; \<open>Null_Result\<close> is a query that returns
  a null pointer, \<open>Thrown\<close> an exception, \<open>Cache_Failure\<close> a failure inside the refresh from the cache, and \<open>Undefined\<close> an
  access behind the end of an array or through a null pointer.
\<close>

datatype fetch_error = Null_Result | Thrown | Cache_Failure | Undefined

record answers =
  an_server :: "batch_status option"
  an_nodes :: "batch_status list option"
  an_queues :: "batch_status list option"
  an_jobs :: "string \<Rightarrow> int + batch_status list"
  an_host :: "string \<Rightarrow> string option"
  an_cache :: metrics
  an_raw :: "nat \<Rightarrow> raw_fields"
  an_raw_state :: MagratheaState

section \<open>Nodes\<close>

text \<open>The nodes of the reply; the constructor of a node may throw.\<close>

fun build_nodes :: "answers \<Rightarrow> nat \<Rightarrow> batch_status list \<Rightarrow> nd_env \<Rightarrow> fetch_error + (node_info list \<times> nd_env)" where
  "build_nodes an i [] env = Inr ([], env)"
| "build_nodes an i (b # bs) env =
     (case new_node_data (an_raw an i) env b of
        (_, Inl _) \<Rightarrow> Inl Thrown
      | (env', Inr n) \<Rightarrow>
          map_sum id (\<lambda>(ns, e). (new_node_info (an_raw_state an) n # ns, e)) (build_nodes an (i + 1) bs env'))"

definition find_node_info :: "string \<Rightarrow> node_info list \<Rightarrow> nat option" where
  "find_node_info nodename nodes =
     (let i = length (takeWhile (\<lambda>n. nd_name n \<noteq> nodename) nodes) in if i < length nodes then Some i else None)"

text \<open>A virtual node is tied to its physical host; without a host it cannot be used.\<close>

definition link_host :: "(string \<Rightarrow> string option) \<Rightarrow> nat \<Rightarrow> world \<Rightarrow> world" where
  "link_host host a w =
     (if nd_type (node_at w a) \<noteq> NodeVirtual then w
      else case host (nd_name (node_at w a)) of
             None \<Rightarrow> upd_node a set_notusable w
           | Some h \<Rightarrow>
               (case find_node_info h (w_nodes w) of
                  None \<Rightarrow> w
                | Some p \<Rightarrow> upd_node p (\<lambda>n. n\<lparr>ni_hosted := ni_hosted n @ [a]\<rparr>) (upd_node a (\<lambda>n. n\<lparr>ni_host := Some p\<rparr>) w)))"

definition query_nodes :: "answers \<Rightarrow> prop_registry \<Rightarrow> world \<Rightarrow> fetch_error + (world \<times> prop_registry)" where
  "query_nodes an reg w =
     (case an_nodes an of
        None \<Rightarrow> Inl Null_Result
      | Some bs \<Rightarrow>
          map_sum id (\<lambda>(ns, env). (fold (link_host (an_host an)) [0..<length ns] (w\<lparr>w_nodes := ns, w_heap := e_heap env\<rparr>), e_reg env))
            (build_nodes an 0 bs \<lparr>e_heap = w_heap w, e_reg = reg\<rparr>))"

text \<open>\<open>node_filter\<close> returns a null pointer when nothing is left.\<close>

definition node_filter :: "(nat \<Rightarrow> bool) \<Rightarrow> nat list \<Rightarrow> nat list option" where
  "node_filter f nodes = (let r = filter f nodes in if r = [] then None else Some r)"

definition is_node_non_dedicated :: "world \<Rightarrow> nat \<Rightarrow> bool" where
  "is_node_non_dedicated w a \<longleftrightarrow> nd_ded_queue_name (node_at w a) = []"

section \<open>Queues\<close>

definition START_WITH_JOB :: int where "START_WITH_JOB = 0"

definition new_queue_state :: "string \<Rightarrow> queue_state" where
  "new_queue_state name =
     \<lparr>qs_info = \<lparr>qi_name = name, qi_is_started = False, qi_is_exec = False, qi_is_global = False, qi_dedtime_queue = False,
        qi_excl_nodes_only = False, qi_is_admin_queue = False, qi_max_run = RESC_INFINITY, qi_max_user_run = RESC_INFINITY,
        qi_max_group_run = RESC_INFINITY, qi_max_proc = RESC_INFINITY, qi_max_user_proc = RESC_INFINITY,
        qi_max_group_proc = RESC_INFINITY, qi_priority = 0, qi_starving_support = - 1, qi_excl_node_count = 0\<rparr>,
      qs_sc = zero_state_count, qs_jobs = [], qs_running_jobs = [], qs_jobs_by_group = (\<lambda>_. None), qs_jobs_by_user = (\<lambda>_. None),
      qs_cores_by_group = (\<lambda>_. None), qs_cores_by_user = (\<lambda>_. None), qs_running_cores = None, qs_is_ok_to_run = False,
      qs_excl_nodes = [], qs_queue_cost = 1, qs_fairshare_tree = ''default'', qs_is_route = False, qs_required_property = None\<rparr>"

text \<open>\<open>push_excl_node\<close>: the node is appended; the array grows by doubling.\<close>

definition push_excl_node :: "nat \<Rightarrow> queue_state \<Rightarrow> queue_state" where
  "push_excl_node a q =
     q\<lparr>qs_excl_nodes := qs_excl_nodes q @ [a], qs_info := (qs_info q)\<lparr>qi_excl_node_count := qi_excl_node_count (qs_info q) + 1\<rparr>\<rparr>"

definition excl_capacity :: "nat \<Rightarrow> nat \<Rightarrow> nat" where
  "excl_capacity capacity used =
     (if capacity \<le> used + 1 then (capacity + 5 * (if capacity = 0 then 1 else 0)) * 2 else capacity)"

text \<open>A number that has to fill the whole value.\<close>

definition count_attr :: "int \<Rightarrow> string \<Rightarrow> int" where
  "count_attr other v = (let (n, endp) = strtol v in if endp \<noteq> [] then other else to_sint n)"

definition on_info :: "(queue_info \<Rightarrow> queue_info) \<Rightarrow> queue_state \<Rightarrow> queue_state" where
  "on_info f q = q\<lparr>qs_info := f (qs_info q)\<rparr>"

definition required_nodes :: "env \<Rightarrow> world \<Rightarrow> string \<Rightarrow> nat list" where
  "required_nodes ev w v =
     filter (\<lambda>a. has_prop_str ev (w_heap w) (node_at w a) v \<and> nd_ded_queue_name (node_at w a) = []) [0..<length (w_nodes w)]"

definition queue_attr :: "env \<Rightarrow> world \<Rightarrow> attrl \<Rightarrow> queue_state \<Rightarrow> queue_state" where
  "queue_attr ev w a q =
     (let name = at_name a; v = at_value a
      in if name = ''started'' then (if v = ''True'' then on_info (\<lambda>i. i\<lparr>qi_is_started := True\<rparr>) q else q)
         else if name = ''max_running'' then on_info (\<lambda>i. i\<lparr>qi_max_run := count_attr (- 1) v\<rparr>) q
         else if name = ''max_user_run'' then on_info (\<lambda>i. i\<lparr>qi_max_user_run := count_attr (- 1) v\<rparr>) q
         else if name = ''max_group_run'' then on_info (\<lambda>i. i\<lparr>qi_max_group_run := count_attr (- 1) v\<rparr>) q
         else if name = ''max_proc'' then on_info (\<lambda>i. i\<lparr>qi_max_proc := count_attr (- 1) v\<rparr>) q
         else if name = ''max_user_proc'' then on_info (\<lambda>i. i\<lparr>qi_max_user_proc := count_attr (- 1) v\<rparr>) q
         else if name = ''max_group_proc'' then on_info (\<lambda>i. i\<lparr>qi_max_group_proc := count_attr (- 1) v\<rparr>) q
         else if name = ''fairshare_tree'' then q\<lparr>qs_fairshare_tree := v\<rparr>
         else if name = ''Priority'' then on_info (\<lambda>i. i\<lparr>qi_priority := count_attr (- 1) v\<rparr>) q
         else if name = ''queue_type'' then
           (if v = ''Execution'' then (on_info (\<lambda>i. i\<lparr>qi_is_exec := True\<rparr>) q)\<lparr>qs_is_route := False\<rparr>
            else if v = ''Route'' then (on_info (\<lambda>i. i\<lparr>qi_is_exec := False\<rparr>) q)\<lparr>qs_is_route := True\<rparr>
            else q)
         else if name = ''is_transit'' then (if v = ''True'' then on_info (\<lambda>i. i\<lparr>qi_is_global := True\<rparr>) q else q)
         else if name = ''jobs_starving_after'' then on_info (\<lambda>i. i\<lparr>qi_starving_support := count_attr (- 1) v\<rparr>) q
         else if name = ''fairshare_coef'' then q\<lparr>qs_queue_cost := atof v\<rparr>
         else if name = ''admin_queue'' then (if v = ''True'' then on_info (\<lambda>i. i\<lparr>qi_is_admin_queue := True\<rparr>) q else q)
         else if name = ''required_property'' then
           fold push_excl_node (required_nodes ev w v)
             ((on_info (\<lambda>i. i\<lparr>qi_excl_nodes_only := True\<rparr>) q)\<lparr>qs_required_property := Some v\<rparr>)
         else q)"

definition query_queue_info :: "env \<Rightarrow> world \<Rightarrow> batch_status \<Rightarrow> queue_state" where
  "query_queue_info ev w queue =
     fold push_excl_node
       (filter (\<lambda>a. nd_ded_queue_name (node_at w a) \<noteq> [] \<and> nd_ded_queue_name (node_at w a) = bs_name queue) [0..<length (w_nodes w)])
       (fold (queue_attr ev w) (bs_attribs queue) (new_queue_state (bs_name queue)))"

definition queue_comment_table :: "(int \<times> string) list" where
  "queue_comment_table =
     [(QUEUE_NOT_STARTED, ''Not Running: Queue not started.''),
      (QUEUE_NOT_EXEC, ''Not Running: Queue not an execution queue.''),
      (DED_TIME, ''Not Running: Dedicated time conflict''),
      (QUEUE_REMOTE_LOCAL, ''Not Runnning: Queue is local and remote''),
      (QUEUE_IGNORED, ''Not Running: Queue is configured to be ignored'')]"

definition translate_queue_fail_code :: "int \<Rightarrow> string" where
  "translate_queue_fail_code fail_code = (case map_of queue_comment_table fail_code of None \<Rightarrow> [] | Some c \<Rightarrow> c)"

definition is_running :: "server_info \<Rightarrow> nat \<Rightarrow> bool" where
  "is_running s j \<longleftrightarrow> ji_state (job_at s j) = JobRunning"

lemma is_running_fun: "is_running s = (\<lambda>j. ji_state (job_at s j) = JobRunning)"
  by (rule ext) (simp add: is_running_def)

text \<open>The state while queues are read.\<close>

record reading =
  rd_server :: server_info
  rd_trees :: "group_info smap"
  rd_sent :: "request list"

definition ded_prefixed :: "config \<Rightarrow> queue_state \<Rightarrow> queue_state" where
  "ded_prefixed conf q =
     (if cf_ded_prefix conf \<noteq> [] \<and> is_prefix (cf_ded_prefix conf) (qi_name (qs_info q))
      then on_info (\<lambda>i. i\<lparr>qi_dedtime_queue := True\<rparr>) q else q)"

text \<open>The jobs of a queue are put into the table of jobs.\<close>

definition add_queue :: "queue_state \<Rightarrow> job_info list \<Rightarrow> server_info \<Rightarrow> server_info" where
  "add_queue q jobs s =
     (let n = length (si_job_tab s)
      in s\<lparr>si_job_tab := si_job_tab s @ jobs, si_job_queue := si_job_queue s @ replicate (length jobs) (length (si_queues s)),
           si_queues := si_queues s @ [q\<lparr>qs_jobs := [n..<n + length jobs]\<rparr>]\<rparr>)"

definition count_queue :: "nat \<Rightarrow> server_info \<Rightarrow> server_info" where
  "count_queue k s =
     upd_queue k (\<lambda>q. q\<lparr>qs_sc := count_states (map (job_at s) (qs_jobs q)) (qs_sc q),
                        qs_running_jobs := filter (is_running s) (qs_jobs q)\<rparr>) s"

definition query_queue :: "cycle_env \<Rightarrow> (string \<Rightarrow> tree_error + group_info) \<Rightarrow> answers \<Rightarrow> batch_status \<Rightarrow> reading \<Rightarrow>
    fetch_error + reading" where
  "query_queue ce build an b r =
     (let s = rd_server r; k = length (si_queues s);
          q = query_queue_info (ce_env ce) (si_world s) b
      in case query_jobs build (qs_fairshare_tree q) (an_jobs an (bs_name b)) (rd_trees r) of
           Inl _ \<Rightarrow> Inl Thrown
         | Inr (_, jobs, trees) \<Rightarrow>
             (let q1 = ded_prefixed (ce_conf ce) q;
                  ret = is_ok_to_run_queue (ce_conf ce) (ce_status ce) (si_name s) (qs_info q1);
                  s1 = add_queue (q1\<lparr>qs_is_ok_to_run := (ret = SUCCESS)\<rparr>) jobs s;
                  (s2, reqs) = (if ret = SUCCESS then (s1, [])
                                else update_jobs_cant_run (qs_jobs (queue_at s1 k)) None (translate_queue_fail_code ret) START_WITH_JOB s1)
              in Inr \<lparr>rd_server = count_queue k s2, rd_trees = trees, rd_sent = rd_sent r @ reqs\<rparr>))"

fun query_queue_list :: "cycle_env \<Rightarrow> (string \<Rightarrow> tree_error + group_info) \<Rightarrow> answers \<Rightarrow> batch_status list \<Rightarrow> reading \<Rightarrow>
    fetch_error + reading" where
  "query_queue_list ce build an [] r = Inr r"
| "query_queue_list ce build an (b # bs) r =
     (case query_queue ce build an b r of Inl e \<Rightarrow> Inl e | Inr r' \<Rightarrow> query_queue_list ce build an bs r')"

definition query_queues :: "cycle_env \<Rightarrow> (string \<Rightarrow> tree_error + group_info) \<Rightarrow> answers \<Rightarrow> reading \<Rightarrow> fetch_error + reading" where
  "query_queues ce build an r =
     (case an_queues an of None \<Rightarrow> Inl Null_Result | Some bs \<Rightarrow> query_queue_list ce build an bs r)"

section \<open>Server\<close>

definition DEFAULT_JOB_START_TIMEOUT :: int where "DEFAULT_JOB_START_TIMEOUT = 60"

text \<open>The server together with what only the plan-based scheduler and the connections read.\<close>

record server_query =
  sq_server :: server_info
  sq_default_queue :: "string option"
  sq_tokens :: "(string \<times> rat) list option"
  sq_job_start_timeout :: int
  sq_scheduled_jobs :: "nat list"
  sq_jobs_on_cpu :: "nat option list option list"

definition new_server_info :: "string \<Rightarrow> server_query" where
  "new_server_info name =
     \<lparr>sq_server = \<lparr>si_name = name,
        si_world = \<lparr>w_heap = [], w_nodes = [], w_dynamic_resources = [], w_installing_node_count = 0,
                    w_max_installing_nodes = RESC_INFINITY\<rparr>,
        si_nodes = [], si_non_dedicated_nodes = [], si_job_tab = [], si_job_queue = [], si_queues = [], si_jobs = [],
        si_running_jobs = [], si_sc = zero_state_count, si_max_run = RESC_INFINITY, si_max_user_run = RESC_INFINITY,
        si_max_group_run = RESC_INFINITY, si_jobs_by_group = (\<lambda>_. None), si_jobs_by_user = (\<lambda>_. None),
        si_exec_count = (\<lambda>_. 0), si_jobs_by_owner = []\<rparr>,
      sq_default_queue = None, sq_tokens = None, sq_job_start_timeout = DEFAULT_JOB_START_TIMEOUT,
      sq_scheduled_jobs = [], sq_jobs_on_cpu = []\<rparr>"

text \<open>A token is a name and a number with a colon between them; without the colon a null pointer is followed.\<close>

definition get_token :: "string \<Rightarrow> (string \<times> rat) option" where
  "get_token token_string = map_option (\<lambda>(identifier, n). (identifier, atof n)) (strchr token_string (CHR '':''))"

definition get_token_array :: "string \<Rightarrow> (string \<times> rat) list option" where
  "get_token_array tokenlist =
     (case break_comma_list (Some tokenlist) of None \<Rightarrow> None | Some ws \<Rightarrow> those (map get_token ws))"

definition on_sinfo :: "(server_info \<Rightarrow> server_info) \<Rightarrow> server_query \<Rightarrow> server_query" where
  "on_sinfo f q = q\<lparr>sq_server := f (sq_server q)\<rparr>"

definition server_attr :: "attrl \<Rightarrow> server_query \<Rightarrow> server_query option" where
  "server_attr a q =
     (let name = at_name a; v = at_value a
      in if name = ''default_queue'' then Some (q\<lparr>sq_default_queue := Some v\<rparr>)
         else if name = ''max_running'' then Some (on_sinfo (\<lambda>s. s\<lparr>si_max_run := count_attr (- 1) v\<rparr>) q)
         else if name = ''max_user_run'' then Some (on_sinfo (\<lambda>s. s\<lparr>si_max_user_run := count_attr (- 1) v\<rparr>) q)
         else if name = ''max_group_run'' then Some (on_sinfo (\<lambda>s. s\<lparr>si_max_group_run := count_attr (- 1) v\<rparr>) q)
         else if name = ''max_installing_nodes'' then
           Some (on_sinfo (\<lambda>s. s\<lparr>si_world := (si_world s)\<lparr>w_max_installing_nodes := count_attr (- 1) v\<rparr>\<rparr>) q)
         else if name = ''tokens'' then map_option (\<lambda>ts. q\<lparr>sq_tokens := Some ts\<rparr>) (get_token_array v)
         else if name = ''job_start_timeout'' then
           Some (q\<lparr>sq_job_start_timeout := count_attr DEFAULT_JOB_START_TIMEOUT v\<rparr>)
         else Some q)"

definition query_server_info :: "batch_status \<Rightarrow> server_query option" where
  "query_server_info server = each server_attr (bs_attribs server) (new_server_info (bs_name server))"

text \<open>\<open>set_jobs\<close>: the jobs of all queues.\<close>

definition set_jobs :: "server_info \<Rightarrow> server_info" where
  "set_jobs s = s\<lparr>si_jobs := si_jobs s @ concat (map qs_jobs (si_queues s))\<rparr>"

definition total_queues :: "server_info \<Rightarrow> server_info" where
  "total_queues s = s\<lparr>si_sc := fold (\<lambda>q c. plus_state_count c (qs_sc q)) (si_queues s) (si_sc s)\<rparr>"

definition collect_running :: "server_info \<Rightarrow> server_info" where
  "collect_running s = s\<lparr>si_running_jobs := filter (is_running s) (si_jobs s)\<rparr>"

section \<open>Jobs on processors\<close>

text \<open>\<open>parse_head_number\<close>: the digits after the blanks; signs between them are skipped.\<close>

definition parse_head_number :: "string \<Rightarrow> int" where
  "parse_head_number job_on_cpu =
     dec_value (filter (\<lambda>c. c \<noteq> CHR ''-'')
       (takeWhile (\<lambda>c. isdigit c \<or> c = CHR ''-'') (dropWhile (\<lambda>c. c = CHR '' '') job_on_cpu)))"

text \<open>The name behind the slash; without a slash the loop leaves the string.\<close>

definition parse_name_job_on_cpu :: "string \<Rightarrow> string option" where
  "parse_name_job_on_cpu job_on_cpu = map_option snd (strchr job_on_cpu (CHR ''/''))"

text \<open>
  The loop over the jobs stops at a null pointer that no one has put there: a name that is not found is looked for
  behind the end of the vector.
\<close>

definition find_job_name :: "server_info \<Rightarrow> nat list \<Rightarrow> string \<Rightarrow> nat option option" where
  "find_job_name s possible_jobs job_name =
     (if possible_jobs = [] then Some None
      else case List.find (\<lambda>j. ji_job_id (job_at s j) = job_name) possible_jobs of
             None \<Rightarrow> None | Some j \<Rightarrow> Some (Some j))"

definition assign_jobs_on_cpu :: "server_info \<Rightarrow> nat list \<Rightarrow> string \<Rightarrow> nat option list \<Rightarrow> (nat option list) option" where
  "assign_jobs_on_cpu s possible_jobs job_on_cpu cpus =
     (let cpu = parse_head_number job_on_cpu
      in case parse_name_job_on_cpu job_on_cpu of
           None \<Rightarrow> None
         | Some name \<Rightarrow>
             (case find_job_name s possible_jobs name of
                None \<Rightarrow> None
              | Some j \<Rightarrow> if nat cpu < length cpus then Some (cpus[nat cpu := j]) else None))"

definition node_cpus :: "server_info \<Rightarrow> nat list \<Rightarrow> nat \<Rightarrow> nat option list option option" where
  "node_cpus s scheduled a =
     (let n = node_at (si_world s) a
      in if \<not> has_jobs n then Some None
         else map_option Some (each (assign_jobs_on_cpu s scheduled) (sorted_list_of_set (nd_jobs n))
                (replicate (nat (nd_core_total n)) None)))"

section \<open>The whole query\<close>

definition book_dynamic :: "resc_info_db \<Rightarrow> job_info \<Rightarrow> world \<Rightarrow> world" where
  "book_dynamic db job w =
     fold (\<lambda>(_, i) w.
         if ri_source i \<noteq> ResCheckDynamic then w
         else case find_resource_req (ji_resreq job) (ri_name i) of
                None \<Rightarrow> w
              | Some r \<Rightarrow> w\<lparr>w_dynamic_resources :=
                  smap_modify (ri_name i) (\<lambda>d. add_scheduled d (rq_amount r)) (w_dynamic_resources w)\<rparr>) db w"

definition is_scheduled :: "server_info \<Rightarrow> nat \<Rightarrow> bool" where
  "is_scheduled s j \<longleftrightarrow> ji_state (job_at s j) \<in> {JobExiting, JobRunning, JobCompleted}"

text \<open>What follows when the queues are read: \<open>Undefined\<close> when all nodes are dedicated to queues.\<close>

definition finish_server :: "resc_info_db \<Rightarrow> server_query \<Rightarrow> fetch_error + server_query" where
  "finish_server db q =
     (let s = collect_running (set_jobs (total_queues (sq_server q)));
          scheduled = filter (is_scheduled s) (si_jobs s)
      in case node_filter (is_node_non_dedicated (si_world s)) (si_nodes s) of
           None \<Rightarrow> Inl Undefined
         | Some nodes \<Rightarrow>
             (case those (map (node_cpus s scheduled) (si_nodes s)) of
                None \<Rightarrow> Inl Undefined
              | Some cpus \<Rightarrow>
                  Inr (q\<lparr>sq_server := s\<lparr>si_non_dedicated_nodes := nodes,
                              si_world := fold (book_dynamic db) (server_running s) (si_world s)\<rparr>,
                         sq_scheduled_jobs := scheduled, sq_jobs_on_cpu := cpus\<rparr>)))"

record fetched =
  ft_query :: server_query
  ft_reg :: prop_registry
  ft_db :: resc_info_db
  ft_trees :: "group_info smap"
  ft_sent :: "request list"

text \<open>The images of the nodes, the queues and the rest, when the nodes are known.\<close>

definition query_rest :: "cycle_env \<Rightarrow> (string \<Rightarrow> tree_error + group_info) \<Rightarrow> answers \<Rightarrow> group_info smap \<Rightarrow> server_query \<Rightarrow>
    nat list \<Rightarrow> cache_state \<Rightarrow> fetch_error + fetched" where
  "query_rest ce build an trees q nodes st =
     (let ev = (ce_env ce)\<lparr>ev_db := qc_db st\<rparr>; w1 = qc_world st;
          w2 = fold (\<lambda>a. upd_node a (fetch_bootable_alternatives ev (w_heap w1))) nodes w1;
          s = (sq_server q)\<lparr>si_world := w2, si_nodes := nodes\<rparr>
      in case query_queues (ce\<lparr>ce_env := ev\<rparr>) build an \<lparr>rd_server = s, rd_trees = trees, rd_sent = []\<rparr> of
           Inl e \<Rightarrow> Inl e
         | Inr r \<Rightarrow>
             map_sum id (\<lambda>q'. \<lparr>ft_query = q', ft_reg = qc_reg st, ft_db = qc_db st, ft_trees = rd_trees r, ft_sent = rd_sent r\<rparr>)
               (finish_server (qc_db st) (q\<lparr>sq_server := rd_server r\<rparr>)))"

definition query_server :: "cycle_env \<Rightarrow> (string \<Rightarrow> tree_error + group_info) \<Rightarrow> answers \<Rightarrow> group_info smap \<Rightarrow> fetch_error + fetched" where
  "query_server ce build an trees =
     (case an_server an of
        None \<Rightarrow> Inl Null_Result
      | Some b \<Rightarrow>
          (case query_server_info b of
             None \<Rightarrow> Inl Undefined
           | Some q \<Rightarrow>
               (case query_nodes an (ce_reg ce) (si_world (sq_server q)) of
                  Inl e \<Rightarrow> Inl e
                | Inr (w, reg) \<Rightarrow>
                    (let nodes = [0..<length (w_nodes w)]
                     in case query_external_cache (an_cache an) False nodes \<lparr>qc_world = w, qc_reg = reg, qc_db = ev_db (ce_env ce)\<rparr> of
                          None \<Rightarrow> Inl Cache_Failure
                        | Some st \<Rightarrow> query_rest ce build an trees q nodes st))))"

section \<open>Arrays of nodes\<close>

text \<open>The array of exclusive nodes always has room for the new entry and the null pointer behind it.\<close>

lemma excl_capacity_room:
  assumes "capacity = 0 \<longrightarrow> used = 0" "capacity \<noteq> 0 \<longrightarrow> used < capacity"
  shows "used + 1 < excl_capacity capacity used"
  using assms by (auto simp: excl_capacity_def)

lemma push_excl_count:
  "length (qs_excl_nodes q) = qi_excl_node_count (qs_info q) \<Longrightarrow>
     length (qs_excl_nodes (push_excl_node a q)) = qi_excl_node_count (qs_info (push_excl_node a q))"
  by (simp add: push_excl_node_def)

text \<open>The loop that counts the nodes open to all queues follows a null pointer when there is none.\<close>

lemma all_dedicated_undefined:
  assumes "\<forall>a \<in> set (si_nodes (sq_server q)). nd_ded_queue_name (node_at (si_world (sq_server q)) a) \<noteq> []"
  shows "finish_server db q = Inl Undefined"
proof -
  have "node_filter (is_node_non_dedicated (si_world (sq_server q))) (si_nodes (sq_server q)) = None"
    using assms by (simp add: node_filter_def is_node_non_dedicated_def filter_empty_conv)
  then show ?thesis by (simp add: finish_server_def Let_def collect_running_def set_jobs_def total_queues_def)
qed

text \<open>A node that names a job the server does not report makes the search leave the vector.\<close>

lemma unknown_job_undefined:
  assumes "possible \<noteq> []" "\<forall>j \<in> set possible. ji_job_id (job_at s j) \<noteq> name"
  shows "find_job_name s possible name = None"
  using assms by (auto simp: find_job_name_def find_None_iff split: option.split)

section \<open>A fresh server\<close>

text \<open>
  What the queries establish: every job is in exactly one queue and knows it, only queued jobs may be considered, the
  lists of running jobs and the counts fit the states, and the caches are empty.
\<close>

definition unmarked_queued :: "job_info \<Rightarrow> bool" where
  "unmarked_queued job \<longleftrightarrow> ji_state job \<noteq> JobQueued \<longrightarrow> ji_can_not_run job"

definition fresh_queue :: "server_info \<Rightarrow> nat \<Rightarrow> bool" where
  "fresh_queue s k \<longleftrightarrow>
     (let q = queue_at s k
      in qs_jobs_by_user q = (\<lambda>_. None) \<and> qs_jobs_by_group q = (\<lambda>_. None) \<and>
         qs_running_jobs q = filter (is_running s) (qs_jobs q) \<and> sc_running (qs_sc q) = int (length (qs_running_jobs q)) \<and>
         (\<forall>j \<in> set (qs_jobs q). j < length (si_job_tab s) \<and> si_job_queue s ! j = k))"

definition fresh_tab :: "server_info \<Rightarrow> bool" where
  "fresh_tab s \<longleftrightarrow>
     length (si_job_queue s) = length (si_job_tab s) \<and> (\<forall>k \<in> set (si_job_queue s). k < length (si_queues s)) \<and>
     (\<forall>job \<in> set (si_job_tab s). unmarked_queued job) \<and> (\<forall>k < length (si_queues s). distinct (qs_jobs (queue_at s k)) \<and> fresh_queue s k)"

text \<open>A change that only marks jobs and comments on them.\<close>

definition only_marks :: "server_info \<Rightarrow> server_info \<Rightarrow> bool" where
  "only_marks s s' \<longleftrightarrow>
     (\<exists>tab. s' = s\<lparr>si_job_tab := tab\<rparr> \<and> length tab = length (si_job_tab s) \<and>
        (\<forall>i < length tab. ji_state (tab ! i) = ji_state (si_job_tab s ! i) \<and>
           (ji_can_not_run (si_job_tab s ! i) \<longrightarrow> ji_can_not_run (tab ! i))))"

lemma only_marks_refl [simp]: "only_marks s s"
  unfolding only_marks_def by (rule exI[of _ "si_job_tab s"]) simp

lemma only_marks_trans [trans]: "only_marks s s' \<Longrightarrow> only_marks s' s'' \<Longrightarrow> only_marks s s''"
  by (auto simp: only_marks_def)

lemma cant_run_marks: "only_marks s (fst (cant_run c j (s, sent)))"
proof -
  obtain rc job reqs where u: "update_job_comment c ((job_at s j)\<lparr>ji_can_not_run := True\<rparr>) = (rc, job, reqs)" by (metis surj_pair)
  have job: "ji_state job = ji_state (job_at s j)" "ji_can_not_run job"
    using u by (auto simp: update_job_comment_def split: if_splits)
  show ?thesis unfolding only_marks_def
  proof (rule exI[of _ "(si_job_tab s)[j := job]"], intro conjI)
    show "fst (cant_run c j (s, sent)) = s\<lparr>si_job_tab := (si_job_tab s)[j := job]\<rparr>" by (simp add: cant_run_def u upd_job_def)
    show "\<forall>i < length ((si_job_tab s)[j := job]). ji_state ((si_job_tab s)[j := job] ! i) = ji_state (si_job_tab s ! i) \<and>
        (ji_can_not_run (si_job_tab s ! i) \<longrightarrow> ji_can_not_run ((si_job_tab s)[j := job] ! i))"
      using job by (cases "j < length (si_job_tab s)") (auto simp: nth_list_update job_at_def)
  qed simp
qed

lemma cant_run_all_marks: "only_marks s (fst (update_jobs_cant_run jobs start c w s))"
proof -
  have "only_marks x (fst (fold (cant_run c) js (x, sent)))" for js x sent
  proof (induction js arbitrary: x sent)
    case (Cons j js)
    obtain y r where y: "cant_run c j (x, sent) = (y, r)" by fastforce
    show ?case using only_marks_trans[OF _ Cons.IH[of y r]] cant_run_marks[of x c j sent] y by simp
  qed simp
  then show ?thesis by (simp add: update_jobs_cant_run_def split: option.split)
qed

lemma is_running_marks: "only_marks s s' \<Longrightarrow> j < length (si_job_tab s) \<Longrightarrow> is_running s' j = is_running s j"
  by (auto simp: only_marks_def is_running_def job_at_def)

lemma fresh_queue_marks:
  assumes "only_marks s s'" "fresh_queue s k" shows "fresh_queue s' k"
proof -
  have q: "queue_at s' k = queue_at s k" "si_job_queue s' = si_job_queue s" "length (si_job_tab s') = length (si_job_tab s)"
    using assms(1) by (auto simp: only_marks_def queue_at_def)
  have "filter (is_running s') (qs_jobs (queue_at s k)) = filter (is_running s) (qs_jobs (queue_at s k))"
    using assms by (auto intro!: filter_cong is_running_marks simp: fresh_queue_def Let_def)
  then show ?thesis using assms(2) q by (simp add: fresh_queue_def Let_def)
qed

lemma unmarked_marks:
  assumes "only_marks s s'" "\<forall>job \<in> set (si_job_tab s). unmarked_queued job" shows "\<forall>job \<in> set (si_job_tab s'). unmarked_queued job"
  using assms by (auto simp: only_marks_def unmarked_queued_def all_set_conv_all_nth)

text \<open>Adding a queue does not disturb the others.\<close>

lemma fresh_queue_add:
  assumes "fresh_queue s k" "k < length (si_queues s)" "length (si_job_queue s) = length (si_job_tab s)"
  shows "fresh_queue (add_queue q jobs s) k"
proof -
  let ?s = "add_queue q jobs s"
  have q: "queue_at ?s k = queue_at s k" using assms(2) by (simp add: add_queue_def Let_def queue_at_def nth_append)
  have j: "is_running ?s j = is_running s j" "si_job_queue ?s ! j = si_job_queue s ! j" "j < length (si_job_tab ?s)"
    if "j < length (si_job_tab s)" for j
    using that assms(3) by (simp_all add: add_queue_def Let_def is_running_def job_at_def nth_append)
  have "filter (is_running ?s) (qs_jobs (queue_at s k)) = filter (is_running s) (qs_jobs (queue_at s k))"
    using assms(1) j(1) by (auto intro!: filter_cong simp: fresh_queue_def Let_def)
  then show ?thesis using assms(1) q j(2,3) by (auto simp: fresh_queue_def Let_def)
qed

lemma count_queue_fields [simp]:
  "si_job_tab (count_queue k s) = si_job_tab s" "si_job_queue (count_queue k s) = si_job_queue s"
  "length (si_queues (count_queue k s)) = length (si_queues s)" "is_running (count_queue k s) = is_running s"
  by (simp_all add: count_queue_def is_running_def fun_eq_iff job_at_def)

lemma count_queue_jobs: "k < length (si_queues s) \<Longrightarrow> qs_jobs (queue_at (count_queue k s) i) = qs_jobs (queue_at s i)"
  by (simp add: count_queue_def queue_at_upd)

lemma count_states_running:
  "sc_running (count_states (map (job_at s) js) c) = sc_running c + int (length (filter (is_running s) js))"
proof -
  have "length (filter (\<lambda>j. ji_state j = JobRunning) (map (job_at s) js)) = length (filter (is_running s) js)"
    by (simp add: filter_map o_def is_running_fun)
  then show ?thesis by (simp add: count_states_def Let_def count_state_running)
qed

lemma fresh_queue_counted:
  assumes "k < length (si_queues s)" "qs_sc (queue_at s k) = zero_state_count"
    "qs_jobs_by_user (queue_at s k) = (\<lambda>_. None)" "qs_jobs_by_group (queue_at s k) = (\<lambda>_. None)"
    "\<forall>j \<in> set (qs_jobs (queue_at s k)). j < length (si_job_tab s) \<and> si_job_queue s ! j = k"
  shows "fresh_queue (count_queue k s) k"
  using assms by (simp add: fresh_queue_def Let_def) (simp add: count_queue_def queue_at_upd count_states_running zero_state_count_def)

lemma fresh_queue_other:
  assumes "fresh_queue s i" "i \<noteq> k" "k < length (si_queues s)" shows "fresh_queue (count_queue k s) i"
  using assms by (simp add: fresh_queue_def Let_def) (simp add: count_queue_def queue_at_upd)

text \<open>A queue as its attributes describe it has no jobs yet and nothing cached.\<close>

definition blank_queue :: "queue_state \<Rightarrow> bool" where
  "blank_queue q \<longleftrightarrow> qs_sc q = zero_state_count \<and> qs_jobs_by_user q = (\<lambda>_. None) \<and> qs_jobs_by_group q = (\<lambda>_. None)"

lemma blank_push: "blank_queue (fold push_excl_node xs q) = blank_queue q"
  by (induction xs arbitrary: q) (simp_all add: blank_queue_def push_excl_node_def)

lemma blank_attr: "blank_queue q \<Longrightarrow> blank_queue (queue_attr ev w a q)"
proof -
  assume q: "blank_queue q"
  have i: "blank_queue (on_info f q)" for f using q by (simp add: on_info_def blank_queue_def)
  have u: "blank_queue (x\<lparr>qs_fairshare_tree := t\<rparr>) = blank_queue x" "blank_queue (x\<lparr>qs_queue_cost := c\<rparr>) = blank_queue x"
    "blank_queue (x\<lparr>qs_is_route := b\<rparr>) = blank_queue x" "blank_queue (x\<lparr>qs_required_property := p\<rparr>) = blank_queue x" for x t c b p
    by (simp_all add: blank_queue_def)
  show ?thesis unfolding queue_attr_def Let_def by (simp add: i u q blank_push split del: if_split split: if_split)
qed

lemma blank_query: "blank_queue (query_queue_info ev w b)"
proof -
  have "blank_queue (fold (queue_attr ev w) as q)" if "blank_queue q" for as q
    using that by (induction as arbitrary: q) (auto intro: blank_attr)
  moreover have "blank_queue (new_queue_state n)" for n by (simp add: blank_queue_def new_queue_state_def)
  ultimately show ?thesis by (simp add: query_queue_info_def blank_push)
qed

lemma blank_ded: "blank_queue (ded_prefixed conf q) = blank_queue q"
  by (simp add: ded_prefixed_def on_info_def blank_queue_def)

lemma query_jobs_spec:
  assumes "trees_ok trees" "builds_ok build" "query_jobs build tree answer trees = Inr (b, jobs, trees')"
  shows "trees_ok trees' \<and> (\<forall>job \<in> set jobs. unmarked_queued job)"
proof (cases answer)
  case (Inl e)
  then show ?thesis using assms by (auto simp: query_jobs_def)
next
  case (Inr bs)
  then have "query_job_list build tree bs trees = Inr (jobs, trees')"
    using assms(3) by (cases "query_job_list build tree bs trees") (auto simp: query_jobs_def)
  from query_job_list_spec[OF assms(1,2) this] show ?thesis by (auto simp: unmarked_queued_def)
qed

text \<open>What is not touched while queues are read.\<close>

definition reading_frame :: "server_info \<Rightarrow> nat list \<times> nat list \<times> state_count \<times> world \<times> nat list \<times> (string \<times> nat list) list \<times>
    (string \<Rightarrow> int option) \<times> (string \<Rightarrow> int option)" where
  "reading_frame s = (si_jobs s, si_running_jobs s, si_sc s, si_world s, si_nodes s, si_jobs_by_owner s, si_jobs_by_user s, si_jobs_by_group s)"

lemma query_queue_fresh:
  assumes f: "fresh_tab (rd_server r)" and t: "trees_ok (rd_trees r)" "builds_ok build"
    and q: "query_queue ce build an b r = Inr r'"
  shows "fresh_tab (rd_server r') \<and> trees_ok (rd_trees r') \<and> reading_frame (rd_server r') = reading_frame (rd_server r)"
proof -
  let ?s = "rd_server r" let ?k = "length (si_queues ?s)" let ?q = "query_queue_info (ce_env ce) (si_world ?s) b"
  obtain ok jobs trees where j: "query_jobs build (qs_fairshare_tree ?q) (an_jobs an (bs_name b)) (rd_trees r) = Inr (ok, jobs, trees)"
    using q by (auto simp: query_queue_def Let_def split: sum.splits)
  define ret where "ret = is_ok_to_run_queue (ce_conf ce) (ce_status ce) (si_name ?s) (qs_info (ded_prefixed (ce_conf ce) ?q))"
  define q1 where "q1 = (ded_prefixed (ce_conf ce) ?q)\<lparr>qs_is_ok_to_run := (ret = SUCCESS)\<rparr>"
  define s1 where "s1 = add_queue q1 jobs ?s"
  define mk where "mk = (if ret = SUCCESS then (s1, [])
      else update_jobs_cant_run (qs_jobs (queue_at s1 ?k)) None (translate_queue_fail_code ret) START_WITH_JOB s1)"
  have "query_queue ce build an b r = Inr \<lparr>rd_server = count_queue ?k (fst mk), rd_trees = trees, rd_sent = rd_sent r @ snd mk\<rparr>"
    unfolding query_queue_def Let_def j sum.case split_def fst_conv snd_conv ret_def[symmetric] q1_def[symmetric]
    unfolding s1_def[symmetric] mk_def[symmetric] ..
  then have r': "rd_server r' = count_queue ?k (fst mk)" "rd_trees r' = trees" using q by auto
  define s2 where "s2 = fst mk"
  have m: "only_marks s1 s2" by (simp add: s2_def mk_def cant_run_all_marks)
  have jobs: "trees_ok trees" "\<forall>job \<in> set jobs. unmarked_queued job" using query_jobs_spec[OF t j] by simp_all
  have b1: "blank_queue q1" using blank_query[of "ce_env ce" "si_world ?s" b] blank_ded by (simp add: q1_def blank_queue_def)
  have len: "length (si_job_queue ?s) = length (si_job_tab ?s)" using f by (simp add: fresh_tab_def)
  have q2: "si_queues s2 = si_queues s1" "si_job_queue s2 = si_job_queue s1" "length (si_job_tab s2) = length (si_job_tab s1)"
    using m by (auto simp: only_marks_def)
  have k: "?k < length (si_queues s2)" "queue_at s2 ?k = q1\<lparr>qs_jobs := [length (si_job_tab ?s)..<length (si_job_tab ?s) + length jobs]\<rparr>"
    using q2 by (simp_all add: s1_def add_queue_def Let_def queue_at_def nth_append)
  have new: "fresh_queue (count_queue ?k s2) ?k"
  proof (rule fresh_queue_counted[OF k(1)])
    show "\<forall>j \<in> set (qs_jobs (queue_at s2 ?k)). j < length (si_job_tab s2) \<and> si_job_queue s2 ! j = ?k"
      unfolding k(2) q2(2,3) using len by (auto simp: s1_def add_queue_def Let_def nth_append)
  qed (use b1 k(2) in \<open>simp_all add: blank_queue_def\<close>)
  have old: "fresh_queue (count_queue ?k s2) i" if "i < ?k" for i
    using that f k(1) len
    by (auto intro!: fresh_queue_other fresh_queue_marks[OF m] fresh_queue_add simp: fresh_tab_def s1_def)
  have dist: "distinct (qs_jobs (queue_at (count_queue ?k s2) i))" if "i < length (si_queues s2)" for i
    using that f k q2 count_queue_jobs[OF k(1), of i] by (cases "i = ?k") (auto simp: fresh_tab_def queue_at_def s1_def add_queue_def Let_def nth_append)
  have um: "\<forall>job \<in> set (si_job_tab s2). unmarked_queued job"
    using unmarked_marks[OF m] f jobs(2) by (auto simp: fresh_tab_def s1_def add_queue_def Let_def)
  have "fresh_tab (count_queue ?k s2)"
    unfolding fresh_tab_def
  proof (intro conjI ballI allI impI)
    fix i assume "i < length (si_queues (count_queue ?k s2))"
    then have i: "i < length (si_queues s2)" by simp
    then have "i \<le> ?k" using q2 by (simp add: s1_def add_queue_def Let_def)
    then show "fresh_queue (count_queue ?k s2) i" using old new by (cases "i = ?k") auto
    show "distinct (qs_jobs (queue_at (count_queue ?k s2) i))" by (rule dist[OF i])
  next
    show "length (si_job_queue (count_queue ?k s2)) = length (si_job_tab (count_queue ?k s2))"
      using q2 len by (simp add: s1_def add_queue_def Let_def)
    fix i assume "i \<in> set (si_job_queue (count_queue ?k s2))"
    then show "i < length (si_queues (count_queue ?k s2))"
      using q2 f by (auto simp: s1_def add_queue_def Let_def fresh_tab_def)
  qed (use um in simp)
  moreover have "reading_frame (count_queue ?k s2) = reading_frame ?s"
    using m by (auto simp: reading_frame_def count_queue_def upd_queue_def only_marks_def s1_def add_queue_def Let_def)
  ultimately show ?thesis using r' jobs(1) by (simp add: s2_def)
qed

lemma query_queue_list_fresh:
  assumes "fresh_tab (rd_server r)" "trees_ok (rd_trees r)" "builds_ok build" "query_queue_list ce build an bs r = Inr r'"
  shows "fresh_tab (rd_server r') \<and> trees_ok (rd_trees r') \<and> reading_frame (rd_server r') = reading_frame (rd_server r)"
  using assms(1,2,4)
proof (induction bs arbitrary: r)
  case (Cons b bs)
  then obtain r1 where q: "query_queue ce build an b r = Inr r1" "query_queue_list ce build an bs r1 = Inr r'"
    by (auto split: sum.splits)
  note f = query_queue_fresh[OF Cons.prems(1,2) assms(3) q(1)]
  show ?case using Cons.IH[OF _ _ q(2)] f by simp
qed simp

text \<open>The server when all queues are read.\<close>

definition fresh_server :: "server_info \<Rightarrow> bool" where
  "fresh_server s \<longleftrightarrow>
     fresh_tab s \<and> si_jobs_by_user s = (\<lambda>_. None) \<and> si_jobs_by_group s = (\<lambda>_. None) \<and>
     mset (si_jobs s) = mset (concat (map qs_jobs (si_queues s))) \<and>
     si_running_jobs s = filter (is_running s) (si_jobs s) \<and> sc_running (si_sc s) = int (length (si_running_jobs s))"

lemma total_running:
  "sc_running (fold (\<lambda>q c. plus_state_count c (qs_sc q)) qs c) = sc_running c + sum_list (map (\<lambda>q. sc_running (qs_sc q)) qs)"
  by (induction qs arbitrary: c) (simp_all add: plus_state_count_def)

lemma queues_running:
  assumes "fresh_tab s"
  shows "sum_list (map (\<lambda>q. sc_running (qs_sc q)) (si_queues s)) = int (length (filter (is_running s) (concat (map qs_jobs (si_queues s)))))"
proof -
  have "sc_running (qs_sc q) = int (length (filter (is_running s) (qs_jobs q)))" if mem: "q \<in> set (si_queues s)" for q
  proof -
    obtain k where k: "k < length (si_queues s)" "q = queue_at s k" using mem by (auto simp: in_set_conv_nth queue_at_def)
    then have "fresh_queue s k" using assms by (simp add: fresh_tab_def)
    then show ?thesis by (simp add: fresh_queue_def Let_def k(2))
  qed
  then have m: "map (\<lambda>q. sc_running (qs_sc q)) (si_queues s) = map (\<lambda>q. int (length (filter (is_running s) (qs_jobs q)))) (si_queues s)"
    by simp
  have "sum_list (map (\<lambda>q. int (length (filter P (qs_jobs q)))) qs) = int (length (filter P (concat (map qs_jobs qs))))"
    for P :: "nat \<Rightarrow> bool" and qs by (induction qs) simp_all
  then show ?thesis unfolding m .
qed

lemma fresh_tab_world:
  "fresh_tab (s\<lparr>si_world := w\<rparr>) = fresh_tab s" "fresh_tab (s\<lparr>si_sc := c\<rparr>) = fresh_tab s" "fresh_tab (s\<lparr>si_jobs := js\<rparr>) = fresh_tab s"
  "fresh_tab (s\<lparr>si_running_jobs := js\<rparr>) = fresh_tab s" "fresh_tab (s\<lparr>si_non_dedicated_nodes := js\<rparr>) = fresh_tab s"
  "fresh_tab (s\<lparr>si_jobs_by_owner := m\<rparr>) = fresh_tab s" "fresh_tab (s\<lparr>si_nodes := js\<rparr>) = fresh_tab s"
  by (simp_all add: fresh_tab_def fresh_queue_def queue_at_def is_running_fun job_at_def Let_def)

lemma finish_server_fresh:
  assumes f: "fresh_tab (sq_server q)" "si_jobs (sq_server q) = []" "si_sc (sq_server q) = zero_state_count"
    "si_jobs_by_user (sq_server q) = (\<lambda>_. None)" "si_jobs_by_group (sq_server q) = (\<lambda>_. None)"
    and fin: "finish_server db q = Inr q'"
  shows "fresh_server (sq_server q')"
proof -
  let ?s = "sq_server q"
  define s where "s = collect_running (set_jobs (total_queues ?s))"
  obtain nodes w where q': "sq_server q' = s\<lparr>si_non_dedicated_nodes := nodes, si_world := w\<rparr>"
    using fin unfolding finish_server_def Let_def s_def[symmetric] by (auto split: option.splits)
  have r: "is_running s = is_running ?s" "is_running (s\<lparr>si_non_dedicated_nodes := nodes, si_world := w\<rparr>) = is_running ?s"
    by (simp_all add: s_def collect_running_def set_jobs_def total_queues_def is_running_fun job_at_def)
  have "is_running (set_jobs (total_queues ?s)) = is_running ?s"
    by (simp add: set_jobs_def total_queues_def is_running_fun job_at_def)
  then have e: "si_queues s = si_queues ?s" "si_jobs s = concat (map qs_jobs (si_queues ?s))"
    "si_running_jobs s = filter (is_running ?s) (concat (map qs_jobs (si_queues ?s)))"
    "si_sc s = fold (\<lambda>q c. plus_state_count c (qs_sc q)) (si_queues ?s) zero_state_count"
    "si_jobs_by_user s = (\<lambda>_. None)" "si_jobs_by_group s = (\<lambda>_. None)"
    using f by (simp_all add: s_def collect_running_def set_jobs_def total_queues_def)
  have "fresh_tab s" using f(1) by (simp add: s_def collect_running_def set_jobs_def total_queues_def fresh_tab_world)
  then show ?thesis
    using e r queues_running[OF f(1)] by (simp add: fresh_server_def q' fresh_tab_world total_running) (simp add: zero_state_count_def)
qed

end
