(* ===== verification/CycleInit.thy ===== *)
theory CycleInit
  imports CycleEnd ServerQuery
begin

text \<open>
  The beginning and the end of a scheduling cycle: \<open>World::fetch_servers\<close>, \<open>World::update_fairshare\<close>,
  \<open>World::init_scheduling_cycle\<close> and \<open>World::update_last_running\<close> of \<open>src/SchedulerRealm.cpp\<close>.  A server that was fetched and
  prepared this way satisfies the invariant that the theorems on cycles start from.
\<close>

section \<open>Jobs of other servers\<close>

text \<open>Jobs of a slave server join the global queue \<open>k\<close>; states are counted again and running jobs collected again.\<close>

definition merge_jobs :: "nat \<Rightarrow> job_info list \<Rightarrow> server_info \<Rightarrow> server_info" where
  "merge_jobs k jobs s =
     (if jobs = [] then s
      else let n = length (si_job_tab s); new = [n..<n + length jobs];
               s1 = s\<lparr>si_job_tab := si_job_tab s @ jobs, si_job_queue := si_job_queue s @ replicate (length jobs) k\<rparr>;
               s2 = upd_queue k (\<lambda>q. let js = qs_jobs q @ new
                                     in q\<lparr>qs_jobs := js, qs_sc := count_states (map (job_at s1) js) zero_state_count,
                                          qs_running_jobs := filter (is_running s1) js\<rparr>) s1;
               all = si_jobs s @ new
           in s2\<lparr>si_jobs := all, si_sc := count_states (map (job_at s1) all) zero_state_count,
                 si_running_jobs := filter (is_running s1) all\<rparr>)"

text \<open>
  The loop over the queues for one slave server.  A connection that cannot be made (\<open>None\<close>) or a tree that cannot be built
  is an exception and ends the work on this server; an error of the query skips the queue.
\<close>

fun merge_slave :: "(string \<Rightarrow> tree_error + group_info) \<Rightarrow> (string \<Rightarrow> (int + batch_status list) option) \<Rightarrow> nat list \<Rightarrow>
    server_info \<times> group_info smap \<Rightarrow> server_info \<times> group_info smap" where
  "merge_slave build answer [] st = st"
| "merge_slave build answer (k # ks) (s, trees) =
     (if \<not> qi_is_global (qs_info (queue_at s k)) then merge_slave build answer ks (s, trees)
      else case answer (qi_name (qs_info (queue_at s k))) of
             None \<Rightarrow> (s, trees)
           | Some jobs \<Rightarrow>
               (case query_jobs build (qs_fairshare_tree (queue_at s k)) jobs trees of
                  Inl _ \<Rightarrow> (s, trees)
                | Inr (ok, js, trees') \<Rightarrow>
                    merge_slave build answer ks (if ok then (merge_jobs k js s, trees') else (s, trees'))))"

definition merge_slaves :: "config \<Rightarrow> (string \<Rightarrow> tree_error + group_info) \<Rightarrow> (string \<Rightarrow> string \<Rightarrow> (int + batch_status list) option) \<Rightarrow>
    server_info \<times> group_info smap \<Rightarrow> server_info \<times> group_info smap" where
  "merge_slaves conf build remote =
     fold (\<lambda>slave st. merge_slave build (remote slave) [0..<length (si_queues (fst st))] st)
       (takeWhile (\<lambda>n. n \<noteq> []) (cf_slave_servers conf))"

definition fetch_servers :: "cycle_env \<Rightarrow> (string \<Rightarrow> tree_error + group_info) \<Rightarrow> answers \<Rightarrow>
    (string \<Rightarrow> string \<Rightarrow> (int + batch_status list) option) \<Rightarrow> group_info smap \<Rightarrow> fetch_error + fetched" where
  "fetch_servers ce build an remote trees =
     map_sum id (\<lambda>f. let (s, ts) = merge_slaves (ce_conf ce) build remote (sq_server (ft_query f), ft_trees f)
                     in f\<lparr>ft_query := (ft_query f)\<lparr>sq_server := regenerate_jobs_by_owner s\<rparr>, ft_trees := ts\<rparr>)
       (query_server ce build an trees)"

section \<open>Usage\<close>

text \<open>A job that ran at the end of the last cycle; its group is named by the tree and the account.\<close>

record prev_job =
  pj_name :: string
  pj_resused :: "resource_req list"
  pj_account :: string
  pj_tree :: string

text \<open>Adding a fraction to a whole number drops the part behind the point.\<close>

definition add_usage :: "rat \<Rightarrow> int \<Rightarrow> int" where
  "add_usage x u = (let y = of_int u + x in if 0 \<le> y then \<lfloor>y\<rfloor> else \<lceil>y\<rceil>)"

definition find_prev :: "server_info \<Rightarrow> prev_job \<Rightarrow> nat option" where
  "find_prev s p =
     List.find (\<lambda>j. ji_state (job_at s j) \<in> {JobCompleted, JobExiting, JobRunning} \<and> ji_job_id (job_at s j) = pj_name p) (si_jobs s)"

text \<open>The usage since the last cycle, with five minutes on top; \<open>None\<close> when the job has no cost and no \<open>procs\<close> request.\<close>

definition usage_since :: "job_info \<Rightarrow> prev_job \<Rightarrow> rat option" where
  "usage_since job p =
     (let t = of_int (calculate_usage_value (ji_resused job) - calculate_usage_value (pj_resused p) + 5 * 60)
      in if ji_calculated_fairshare job \<noteq> 0 then Some (t * ji_calculated_fairshare job)
         else map_option (\<lambda>r. t * of_int (rq_amount r)) (find_resource_req (ji_resreq job) ''procs''))"

definition add_prev :: "server_info \<Rightarrow> prev_job \<Rightarrow> group_info smap \<Rightarrow> group_info smap option" where
  "add_prev s p trees =
     (case find_prev s p of
        None \<Rightarrow> Some trees
      | Some j \<Rightarrow>
          map_option (\<lambda>x. smap_modify (pj_tree p) (upd_ginfo (pj_account p) (\<lambda>g. g\<lparr>g_usage := add_usage x (g_usage g)\<rparr>)) trees)
            (usage_since (job_at s j) p))"

definition set_temp :: "prev_job \<Rightarrow> group_info smap \<Rightarrow> group_info smap" where
  "set_temp p = smap_modify (pj_tree p) (upd_ginfo (pj_account p) (\<lambda>g. g\<lparr>g_temp_usage := g_usage g\<rparr>))"

text \<open>The loop that halves the usage once for every half-life; it does not end when the half-life is not positive.\<close>

partial_function (option) decay_loop :: "int \<Rightarrow> int \<Rightarrow> int \<Rightarrow> group_info smap \<Rightarrow> group_info smap option" where
  "decay_loop half_life last_decay t trees =
     (if t - last_decay > half_life then decay_loop half_life last_decay (t - half_life) (decay_fairshare_trees trees)
      else Some trees)"

record usage_state =
  us_trees :: "group_info smap"
  us_last_decay :: int
  us_last_sync :: int
  us_written :: "(string \<times> (string \<times> int) list) list option"

definition decay_usage :: "config \<Rightarrow> int \<Rightarrow> usage_state \<Rightarrow> usage_state option" where
  "decay_usage conf now u =
     map_option (\<lambda>ts. u\<lparr>us_trees := ts,
         us_last_decay := (if now - us_last_decay u > cf_half_life conf
                           then now - c_mod (now - us_last_decay u) (cf_half_life conf) else us_last_decay u)\<rparr>)
       (decay_loop (cf_half_life conf) (us_last_decay u) now (us_trees u))"

definition sync_usage :: "config \<Rightarrow> int \<Rightarrow> usage_state \<Rightarrow> usage_state" where
  "sync_usage conf now u =
     (if now - us_last_sync u > cf_sync_time conf
      then u\<lparr>us_written := Some (map (\<lambda>(n, t). (n, dump_usage t)) (us_trees u)), us_last_sync := now\<rparr> else u)"

definition update_fairshare :: "config \<Rightarrow> status \<Rightarrow> server_info \<Rightarrow> prev_job list \<Rightarrow> usage_state \<Rightarrow> usage_state option" where
  "update_fairshare conf cstat s last_running u =
     (if \<not> po_fair_share (cs_policy cstat) then Some u
      else case each (add_prev s) last_running (us_trees u) of
             None \<Rightarrow> None
           | Some ts \<Rightarrow>
               map_option (sync_usage conf (cs_current_time cstat))
                 (decay_usage conf (cs_current_time cstat) (u\<lparr>us_trees := fold set_temp last_running ts\<rparr>)))"

text \<open>The jobs that run at the end of the cycle; the precondition compares their number with the count.\<close>

definition update_last_running :: "server_info \<Rightarrow> prev_job list option" where
  "update_last_running s =
     (if sc_running (si_sc s) \<noteq> int (length (si_running_jobs s)) then None
      else Some (map (\<lambda>j. \<lparr>pj_name = ji_job_id (job_at s j), pj_resused = clone_resource_req_list (ji_resused (job_at s j)),
                          pj_account = ji_account (job_at s j), pj_tree = qs_fairshare_tree (queue_of s j)\<rparr>) (si_running_jobs s)))"

section \<open>Order\<close>

definition place :: "nat list \<Rightarrow> nat \<Rightarrow> nat" where
  "place xs x = length (takeWhile (\<lambda>y. y \<noteq> x) xs)"

text \<open>The queues by priority; the jobs point to their queues, so the indices follow.\<close>

definition sort_queues :: "server_info \<Rightarrow> server_info" where
  "sort_queues s =
     (let ord = sort_by (\<lambda>a b. qi_priority (qs_info (queue_at s a)) > qi_priority (qs_info (queue_at s b))) [0..<length (si_queues s)]
      in s\<lparr>si_queues := map (queue_at s) ord, si_job_queue := map (place ord) (si_job_queue s)\<rparr>)"

definition sort_jobs :: "(nat \<Rightarrow> nat \<Rightarrow> bool) \<Rightarrow> policy \<Rightarrow> server_info \<Rightarrow> server_info" where
  "sort_jobs lt p s =
     (if po_by_queue p \<or> po_round_robin p then s\<lparr>si_queues := map (\<lambda>q. q\<lparr>qs_jobs := sort_by lt (qs_jobs q)\<rparr>) (si_queues s)\<rparr>
      else s\<lparr>si_jobs := sort_by lt (si_jobs s)\<rparr>)"

text \<open>\<open>perc\<close> gives the percentage of the group of a job.\<close>

definition sort_server :: "(job_info \<Rightarrow> rat) \<Rightarrow> policy \<Rightarrow> server_info \<Rightarrow> server_info option" where
  "sort_server perc p s =
     (let s1 = (if po_sort_queues p then sort_queues s else s)
      in if hd (po_sort_by p) = NO_SORT then Some s1
         else map_option (\<lambda>lt. sort_jobs (\<lambda>a b. lt (job_at s1 a) (job_at s1 b)) p s1) (cmp_sort perc (po_sort_by p)))"

definition init_scheduling_cycle :: "cycle_env \<Rightarrow> (job_info \<Rightarrow> rat) \<Rightarrow> prev_job list \<Rightarrow> usage_state \<Rightarrow> cycle \<Rightarrow> (usage_state \<times> cycle) option" where
  "init_scheduling_cycle ce perc last_running u cy =
     (case update_fairshare (ce_conf ce) (ce_status ce) (cy_server cy) last_running u of
        None \<Rightarrow> None
      | Some u' \<Rightarrow>
          (case sort_server perc (cs_policy (ce_status ce)) (cy_server cy) of
             None \<Rightarrow> None
           | Some s \<Rightarrow>
               map_option (\<lambda>cy'. (u', cy'))
                 (next_job_init (cs_policy (ce_status ce)) (cy\<lparr>cy_server := s, cy_trees := us_trees u'\<rparr>))))"

section \<open>Decay\<close>

lemma decay_loop_steps:
  assumes "0 < half_life"
  shows "decay_loop half_life last_decay t trees =
     Some ((decay_fairshare_trees ^^ nat ((t - last_decay - 1) div half_life)) trees)"
proof (induction "nat (t - last_decay)" arbitrary: t trees rule: less_induct)
  case less
  show ?case
  proof (cases "t - last_decay > half_life")
    case True
    let ?n = "(t - last_decay - 1) div half_life"
    have e: "(t - half_life - last_decay - 1) div half_life = ?n - 1"
    proof -
      have "t - half_life - last_decay - 1 = (t - last_decay - 1) + (- 1) * half_life" by simp
      then show ?thesis using assms by (simp only: div_mult_self1)
    qed
    have "1 \<le> ?n" using True assms by (simp add: zdiv_mono1[of half_life "t - last_decay - 1" half_life, simplified])
    then have n: "nat ?n = Suc (nat (?n - 1))" by simp
    have "decay_loop half_life last_decay (t - half_life) (decay_fairshare_trees trees) =
        Some ((decay_fairshare_trees ^^ nat (?n - 1)) (decay_fairshare_trees trees))"
      using less[of "t - half_life" "decay_fairshare_trees trees"] True assms e by simp
    then show ?thesis using True n by (simp add: decay_loop.simps[of half_life last_decay t] funpow_swap1)
  next
    case False
    have "(t - last_decay - 1) div half_life \<le> 0"
    proof (cases "0 \<le> t - last_decay - 1")
      case True
      then show ?thesis using False by (simp add: div_pos_pos_trivial)
    next
      case neg: False
      then have "(t - last_decay - 1) div half_life < 0" using assms by (intro div_neg_pos_less0) simp_all
      then show ?thesis by simp
    qed
    then show ?thesis using False by (simp add: decay_loop.simps[of half_life last_decay t])
  qed
qed

lemma decay_loop_hangs:
  assumes "half_life \<le> 0" "t - last_decay > half_life"
  shows "decay_loop half_life last_decay t trees = None"
proof -
  have "\<not> (half_life \<le> 0 \<and> t - last_decay > half_life)" if "decay_loop half_life last_decay t trees = Some r" for r
    using that
  proof (rule decay_loop.raw_induct[where P = "\<lambda>h l t trees r. \<not> (h \<le> 0 \<and> t - l > h)", rotated])
    fix f and h l t :: int and trees r
    assume ih: "\<And>h l t trees y. f h l t trees = Some y \<Longrightarrow> \<not> (h \<le> 0 \<and> t - l > h)"
      and r: "(if t - l > h then f h l (t - h) (decay_fairshare_trees trees) else Some trees) = Some r"
    show "\<not> (h \<le> 0 \<and> t - l > h)"
    proof (cases "t - l > h")
      case True
      then have "f h l (t - h) (decay_fairshare_trees trees) = Some r" using r by simp
      from ih[OF this] True show ?thesis by auto
    qed simp
  qed
  then show ?thesis using assms by (cases "decay_loop half_life last_decay t trees") auto
qed

lemma pred_div:
  assumes "0 < (h :: int)" shows "(d - 1) div h = d div h - (if h dvd d then 1 else 0)"
proof -
  have d: "d = d div h * h + d mod h" by simp
  have m: "0 \<le> d mod h" "d mod h < h" using assms by simp_all
  show ?thesis
  proof (cases "h dvd d")
    case True
    then obtain k where k: "d = h * k" by (auto elim: dvdE)
    have "(h * k - 1) div h = k - 1" using assms by (intro int_div_pos_eq[of _ _ _ "h - 1"]) (simp_all add: algebra_simps)
    then show ?thesis using True k assms by simp
  next
    case False
    then have "0 < d mod h" using m(1) by (metis dvd_eq_mod_eq_0 order_le_less)
    then have "(d - 1) div h = d div h" using m d by (intro int_div_pos_eq[of _ _ _ "d mod h - 1"]) (simp_all add: mult.commute)
    then show ?thesis using False by simp
  qed
qed

lemma decay_usage_spec:
  assumes "us_last_decay u < now"
  shows "decay_usage conf now u =
     (if 0 < cf_half_life conf then
        Some (u\<lparr>us_trees := (decay_fairshare_trees ^^ nat ((now - us_last_decay u) div cf_half_life conf -
                   (if cf_half_life conf dvd now - us_last_decay u then 1 else 0))) (us_trees u),
              us_last_decay := (if now - us_last_decay u > cf_half_life conf
                then us_last_decay u + (now - us_last_decay u) div cf_half_life conf * cf_half_life conf else us_last_decay u)\<rparr>)
      else None)"
proof (cases "0 < cf_half_life conf")
  case True
  have "now - c_mod (now - us_last_decay u) (cf_half_life conf) =
      us_last_decay u + (now - us_last_decay u) div cf_half_life conf * cf_half_life conf"
    using assms by (simp add: c_mod_def c_div_def)
  then show ?thesis using True pred_div[OF True, of "now - us_last_decay u"] decay_loop_steps[OF True, of "us_last_decay u" now "us_trees u"]
    by (simp add: decay_usage_def)
next
  case False
  then show ?thesis using decay_loop_hangs[of "cf_half_life conf" now "us_last_decay u" "us_trees u"] assms
    by (simp add: decay_usage_def)
qed

section \<open>Preparing a cycle\<close>

text \<open>What a server needs so that a cycle may start.\<close>

definition ready :: "server_info \<Rightarrow> bool" where
  "ready s \<longleftrightarrow>
     cy_ok s \<and> distinct (concat (map qs_jobs (si_queues s))) \<and> distinct (si_jobs s) \<and> distinct (si_running_jobs s) \<and>
     (\<forall>j \<in> set (si_running_jobs s). ji_can_not_run (job_at s j))"

lemma distinct_concat_nth:
  assumes "\<And>k. k < length xss \<Longrightarrow> distinct (xss ! k) \<and> (\<forall>j \<in> set (xss ! k). f j = k)"
  shows "distinct (concat xss)"
  using assms
proof (induction xss rule: rev_induct)
  case (snoc xs xss)
  have o: "distinct (xss ! k) \<and> (\<forall>j \<in> set (xss ! k). f j = k)" if "k < length xss" for k
    using snoc.prems[of k] that by (simp add: nth_append)
  have n: "distinct xs" "\<forall>j \<in> set xs. f j = length xss" using snoc.prems[of "length xss"] by simp_all
  have "f j < length xss" if mem: "j \<in> set (concat xss)" for j
  proof -
    obtain ys where "ys \<in> set xss" "j \<in> set ys" using mem by auto
    then show ?thesis using o by (metis in_set_conv_nth)
  qed
  then show ?case using snoc.IH[OF o] n by fastforce
qed simp

lemma fresh_ready:
  assumes "fresh_server s" shows "ready (regenerate_jobs_by_owner s)"
proof -
  let ?s = "regenerate_jobs_by_owner s"
  have t: "fresh_tab s" using assms by (simp add: fresh_server_def)
  have q: "distinct (qs_jobs (queue_at s k)) \<and> fresh_queue s k" if "k < length (si_queues s)" for k using t that by (simp add: fresh_tab_def)
  have d: "distinct (concat (map qs_jobs (si_queues s)))"
    by (rule distinct_concat_nth[of _ "\<lambda>j. si_job_queue s ! j"]) (use q in \<open>auto simp: fresh_queue_def Let_def queue_at_def\<close>)
  have m: "mset (si_jobs s) = mset (concat (map qs_jobs (si_queues s)))" using assms by (simp add: fresh_server_def)
  have dj: "distinct (si_jobs s)" using d mset_eq_imp_distinct_iff[OF m] by simp
  have inq: "j < length (si_job_tab s)" if mem: "x \<in> set (si_queues s)" "j \<in> set (qs_jobs x)" for x j
  proof -
    obtain k where "k < length (si_queues s)" "x = queue_at s k" using mem(1) by (auto simp: in_set_conv_nth queue_at_def)
    then show ?thesis using q mem(2) by (auto simp: fresh_queue_def Let_def)
  qed
  have jobs: "j < length (si_job_tab s)" if mem: "j \<in> set (si_jobs s)" for j
  proof -
    have "j \<in> set (concat (map qs_jobs (si_queues s)))" using mem arg_cong[OF m, of set_mset] by simp
    then show ?thesis using inq by auto
  qed
  have own: "j < length (si_job_tab s)" if mem: "(o', js) \<in> set (si_jobs_by_owner ?s)" "j \<in> set js" for o' js j
  proof -
    have "mset (concat (map snd (si_jobs_by_owner ?s))) = mset (si_jobs s)" using jobs_by_owner_spec[of s] by simp
    from arg_cong[OF this, of set_mset] have "set (concat (map snd (si_jobs_by_owner ?s))) = set (si_jobs s)" by (simp only: set_mset_mset)
    moreover have "j \<in> set (concat (map snd (si_jobs_by_owner ?s)))" using mem by force
    ultimately show ?thesis using jobs by simp
  qed
  have run: "si_running_jobs s = filter (is_running s) (si_jobs s)" using assms by (simp add: fresh_server_def)
  have runq: "qs_running_jobs x = filter (is_running s) (qs_jobs x)" "queue_ok s x" if mem: "x \<in> set (si_queues s)" for x
  proof -
    obtain k where "k < length (si_queues s)" "x = queue_at s k" using mem by (auto simp: in_set_conv_nth queue_at_def)
    then show "qs_running_jobs x = filter (is_running s) (qs_jobs x)" "queue_ok s x"
      using q by (auto simp: fresh_queue_def Let_def queue_ok_def cache_ok_def)
  qed
  have "server_ok s"
    using assms runq(2) by (simp add: server_ok_def fresh_server_def cache_ok_def queue_at_def)
  moreover have "in_tab s" using jobs inq runq(1) run by (auto simp: in_tab_def)
  moreover have e: "si_job_queue ?s = si_job_queue s" "si_job_tab ?s = si_job_tab s" "si_jobs ?s = si_jobs s" "si_queues ?s = si_queues s"
    by (simp_all add: regenerate_jobs_by_owner_def)
  have "index_ok ?s" using t jobs inq own unfolding index_ok_def e fresh_tab_def by auto
  ultimately have "cy_ok ?s"
    by (simp add: cy_ok_def regenerate_jobs_by_owner_def server_ok_def queue_ok_def queue_at_def server_running_def queue_running_def
        job_at_fun in_tab_def)
  moreover have "ji_can_not_run (job_at s j)" if mem: "j \<in> set (si_running_jobs s)" for j
  proof -
    have "is_running s j" "j < length (si_job_tab s)" using mem run jobs by auto
    then show ?thesis using t by (auto simp: fresh_tab_def unmarked_queued_def is_running_def job_at_def)
  qed
  ultimately show ?thesis using d dj run by (simp add: ready_def regenerate_jobs_by_owner_def job_at_def)
qed

lemma place_less: "x \<in> set xs \<Longrightarrow> place xs x < length xs"
  by (induction xs) (auto simp: place_def)

lemma queue_running_place: "si_job_tab s' = si_job_tab s \<Longrightarrow> queue_running s' = queue_running s"
  by (rule ext) (simp add: queue_running_def job_at_fun)

lemma ready_sort_queues:
  assumes "ready s" shows "ready (sort_queues s)"
proof -
  define ord where "ord = sort_by (\<lambda>a b. qi_priority (qs_info (queue_at s a)) > qi_priority (qs_info (queue_at s b))) [0..<length (si_queues s)]"
  let ?s = "sort_queues s"
  have e: "?s = s\<lparr>si_queues := map (queue_at s) ord, si_job_queue := map (place ord) (si_job_queue s)\<rparr>"
    by (simp add: sort_queues_def ord_def Let_def)
  have so: "set ord = {0..<length (si_queues s)}" "length ord = length (si_queues s)" by (simp_all add: ord_def)
  have mq: "mset (map (queue_at s) ord) = mset (si_queues s)"
  proof -
    have "mset (map (queue_at s) ord) = image_mset (queue_at s) (mset [0..<length (si_queues s)])" by (simp add: ord_def)
    also have "\<dots> = mset (map ((!) (si_queues s)) [0..<length (si_queues s)])" by (simp add: queue_at_def[abs_def])
    finally show ?thesis by (simp only: map_nth)
  qed
  then have qs: "set (map (queue_at s) ord) = set (si_queues s)" by (metis set_mset_mset)
  have "mset (concat (map qs_jobs xs)) = \<Sum>\<^sub># (image_mset (\<lambda>q. mset (qs_jobs q)) (mset xs))" for xs :: "queue_state list"
    by (induction xs) simp_all
  then have "mset (concat (map qs_jobs (map (queue_at s) ord))) = mset (concat (map qs_jobs (si_queues s)))" by (simp only: mq)
  then have d: "distinct (concat (map qs_jobs (si_queues ?s)))"
    using assms mset_eq_imp_distinct_iff unfolding ready_def by (simp add: e) blast
  have "queue_ok ?s x = queue_ok s x" for x using queue_running_place[of ?s s] by (simp add: queue_ok_def e)
  moreover have "ord ! k < length (si_queues s)" if "k < length (si_queues s)" for k using so nth_mem[of k ord] that by auto
  ultimately have "server_ok ?s"
    using assms so
    by (auto simp: ready_def cy_ok_def server_ok_def e server_running_def job_at_fun queue_at_def)
  moreover have "in_tab ?s" using assms qs by (auto simp: ready_def cy_ok_def in_tab_def e simp del: set_map)
  moreover have "index_ok ?s" using assms qs so place_less[of _ ord]
    by (auto simp: ready_def cy_ok_def index_ok_def e simp del: set_map) (auto)
  ultimately show ?thesis using assms d by (simp add: ready_def cy_ok_def) (simp add: e job_at_def)
qed

lemma ready_sort_jobs:
  assumes "ready s" shows "ready (sort_jobs lt p s)"
proof (cases "po_by_queue p \<or> po_round_robin p")
  case True
  let ?f = "\<lambda>q. q\<lparr>qs_jobs := sort_by lt (qs_jobs q)\<rparr>" let ?s = "s\<lparr>si_queues := map ?f (si_queues s)\<rparr>"
  have "mset (concat (map qs_jobs (map ?f qs))) = mset (concat (map qs_jobs qs))" for qs by (induction qs) simp_all
  then have "distinct (concat (map qs_jobs (si_queues ?s)))"
    using assms mset_eq_imp_distinct_iff unfolding ready_def by simp blast
  moreover have "queue_ok ?s (?f q) = queue_ok s q" for q
    by (simp add: queue_ok_def queue_running_def job_at_fun)
  then have "server_ok ?s" using assms
    by (simp add: ready_def cy_ok_def server_ok_def server_running_def job_at_fun queue_at_def)
  ultimately show ?thesis using assms True
    by (simp add: sort_jobs_def ready_def cy_ok_def in_tab_def index_ok_def job_at_def)
next
  case False
  then show ?thesis using assms
    by (simp add: sort_jobs_def ready_def cy_ok_def server_ok_def queue_ok_def queue_running_def server_running_def in_tab_def index_ok_def
        job_at_fun queue_at_def)
qed

lemma ready_sorted: "ready s \<Longrightarrow> sort_server perc p s = Some s' \<Longrightarrow> ready s'"
  by (auto simp: sort_server_def Let_def split: if_splits intro: ready_sort_queues ready_sort_jobs)

text \<open>A prepared cycle satisfies the invariant.\<close>

lemma init_inv:
  assumes "ready (cy_server cy)" "init_scheduling_cycle ce perc last_running u cy = Some (u', cy')"
  shows "cy_inv (cs_policy (ce_status ce)) cy' \<and> settled_upto cy'"
proof -
  let ?p = "cs_policy (ce_status ce)"
  obtain s where s: "sort_server perc ?p (cy_server cy) = Some s"
    and n: "next_job_init ?p (cy\<lparr>cy_server := s, cy_trees := us_trees u'\<rparr>) = Some cy'"
    using assms(2) by (auto simp: init_scheduling_cycle_def split: option.splits)
  have r: "ready s" by (rule ready_sorted[OF assms(1) s])
  have c: "cy_server cy' = s" "cy_last_job cy' = - 1" "po_by_queue ?p \<longrightarrow> cy_last_queue cy' = 0"
    using n by (auto simp: next_job_init_def split: if_splits)
  have "distinct (job_seq ?p s)" using r by (simp add: ready_def job_seq_def)
  moreover have "pos_ok ?p s (cy_last_queue cy') (cy_last_job cy')" using c by (auto simp: pos_ok_def)
  moreover have "closed_job ?p cy' j" if "j \<in> set (si_running_jobs s)" for j using r that c(1) by (simp add: ready_def closed_job_def)
  ultimately show ?thesis using r c by (simp add: cy_inv_def ready_def settled_upto_def)
qed

section \<open>Fetching\<close>

lemma merge_jobs_fresh:
  assumes f: "fresh_server s" and k: "k < length (si_queues s)" and j: "\<forall>job \<in> set jobs. unmarked_queued job"
  shows "fresh_server (merge_jobs k jobs s) \<and> length (si_queues (merge_jobs k jobs s)) = length (si_queues s)"
proof (cases "jobs = []")
  case False
  let ?n = "length (si_job_tab s)" let ?new = "[?n..<?n + length jobs]" let ?t = "merge_jobs k jobs s"
  define s1 where "s1 = s\<lparr>si_job_tab := si_job_tab s @ jobs, si_job_queue := si_job_queue s @ replicate (length jobs) k\<rparr>"
  let ?q = "queue_at s k" let ?js = "qs_jobs ?q @ ?new"
  define q' where "q' = ?q\<lparr>qs_jobs := ?js, qs_sc := count_states (map (job_at s1) ?js) zero_state_count,
      qs_running_jobs := filter (is_running s1) ?js\<rparr>"
  have t: "fresh_tab s" using f by (simp add: fresh_server_def)
  have len: "length (si_job_queue s) = ?n" using t by (simp add: fresh_tab_def)
  have T: "si_job_tab ?t = si_job_tab s @ jobs" "si_job_queue ?t = si_job_queue s @ replicate (length jobs) k"
    "si_queues ?t = (si_queues s)[k := q']" "si_jobs ?t = si_jobs s @ ?new"
    "si_sc ?t = count_states (map (job_at s1) (si_jobs s @ ?new)) zero_state_count"
    "si_running_jobs ?t = filter (is_running s1) (si_jobs s @ ?new)"
    "si_jobs_by_user ?t = si_jobs_by_user s" "si_jobs_by_group ?t = si_jobs_by_group s"
    using False by (simp_all add: merge_jobs_def Let_def upd_queue_def q'_def s1_def queue_at_def)
  have rt: "is_running ?t = is_running s1" by (simp add: is_running_fun job_at_def T s1_def)
  have old: "is_running s1 i = is_running s i" "(si_job_queue s @ replicate (length jobs) k) ! i = si_job_queue s ! i" if "i < ?n" for i
    using that len by (simp_all add: is_running_def job_at_def s1_def nth_append)
  have qa: "queue_at ?t i = (if i = k then q' else queue_at s i)" for i using k by (simp add: queue_at_def T)
  have fq: "fresh_queue s i" "distinct (qs_jobs (queue_at s i))" if "i < length (si_queues s)" for i using t that by (simp_all add: fresh_tab_def)
  have bound: "j < ?n \<and> si_job_queue s ! j = i" if "i < length (si_queues s)" "j \<in> set (qs_jobs (queue_at s i))" for i j
    using fq(1)[OF that(1)] that(2) by (simp add: fresh_queue_def Let_def)
  have fresh: "fresh_queue ?t i \<and> distinct (qs_jobs (queue_at ?t i))" if i: "i < length (si_queues s)" for i
  proof (cases "i = k")
    case True
    have "\<forall>j \<in> set ?js. j < length (si_job_tab ?t) \<and> si_job_queue ?t ! j = k"
      using bound[OF k] old(2) len by (auto simp: T nth_append)
    moreover have "distinct ?js" using fq(2)[OF k] bound[OF k] by fastforce
    moreover have "sc_running (qs_sc q') = int (length (filter (is_running s1) ?js))"
      using count_states_running[of s1 ?js zero_state_count] by (simp add: q'_def zero_state_count_def)
    ultimately show ?thesis using True fq(1)[OF k] by (simp add: fresh_queue_def Let_def qa rt q'_def)
  next
    case other: False
    have "filter (is_running s1) (qs_jobs (queue_at s i)) = filter (is_running s) (qs_jobs (queue_at s i))"
      using bound[OF i] old(1) by (intro filter_cong) auto
    moreover have "\<forall>j \<in> set (qs_jobs (queue_at s i)). j < length (si_job_tab ?t) \<and> si_job_queue ?t ! j = i"
    proof
      fix j assume "j \<in> set (qs_jobs (queue_at s i))"
      from bound[OF i this] show "j < length (si_job_tab ?t) \<and> si_job_queue ?t ! j = i" using old(2) by (simp add: T)
    qed
    ultimately show ?thesis using other fq[OF i] by (simp add: fresh_queue_def Let_def qa rt)
  qed
  have "fresh_tab ?t" unfolding fresh_tab_def
    using t j k fresh by (auto simp: T fresh_tab_def)
  moreover have "mset (si_jobs ?t) = mset (concat (map qs_jobs (si_queues ?t)))"
  proof -
    have split: "si_queues s = take k (si_queues s) @ ?q # drop (Suc k) (si_queues s)" using k by (simp add: queue_at_def id_take_nth_drop)
    have "(si_queues s)[k := q'] = take k (si_queues s) @ q' # drop (Suc k) (si_queues s)" using k by (rule upd_conv_take_nth_drop)
    moreover have "mset (concat (map qs_jobs (si_queues s))) =
        mset (concat (map qs_jobs (take k (si_queues s)))) + mset (qs_jobs ?q) + mset (concat (map qs_jobs (drop (Suc k) (si_queues s))))"
      by (subst split) (simp del: mset_concat)
    ultimately show ?thesis using f by (simp add: T fresh_server_def q'_def del: mset_concat)
  qed
  ultimately show ?thesis
    using f rt count_states_running[of s1 "si_jobs s @ ?new" zero_state_count]
    by (simp add: fresh_server_def T zero_state_count_def)
qed (use f in \<open>simp add: merge_jobs_def\<close>)

lemma merge_slave_fresh:
  assumes "fresh_server s" "\<forall>k \<in> set ks. k < length (si_queues s)" "trees_ok trees" "builds_ok build"
    and "merge_slave build answer ks (s, trees) = (s', trees')"
  shows "fresh_server s' \<and> length (si_queues s') = length (si_queues s) \<and> trees_ok trees'"
  using assms(1,2,3,5)
proof (induction ks arbitrary: s trees)
  case (Cons k ks)
  show ?case
  proof (cases "qi_is_global (qs_info (queue_at s k))")
    case False
    then show ?thesis using Cons.IH[OF Cons.prems(1) _ Cons.prems(3)] Cons.prems by simp
  next
    case g: True
    show ?thesis
    proof (cases "answer (qi_name (qs_info (queue_at s k)))")
      case None
      then show ?thesis using Cons.prems g by simp
    next
      case (Some a)
      show ?thesis
      proof (cases "query_jobs build (qs_fairshare_tree (queue_at s k)) a trees")
        case (Inl e)
        then show ?thesis using Cons.prems g Some by simp
      next
        case (Inr r)
        obtain ok js ts where r: "r = (ok, js, ts)" by (metis surj_pair)
        have q: "trees_ok ts" "\<forall>job \<in> set js. unmarked_queued job"
          using query_jobs_spec[OF Cons.prems(3) assms(4)] Inr r by blast+
        define s1 where "s1 = (if ok then merge_jobs k js s else s)"
        have s1: "fresh_server s1" "length (si_queues s1) = length (si_queues s)"
          using merge_jobs_fresh[OF Cons.prems(1) _ q(2), of k] Cons.prems(1,2) by (simp_all add: s1_def)
        have "merge_slave build answer ks (s1, ts) = (s', trees')"
          using Cons.prems(4) g Some Inr r by (auto simp: s1_def split: if_splits)
        from Cons.IH[OF s1(1) _ q(1) this] show ?thesis using Cons.prems(2) s1(2) by simp
      qed
    qed
  qed
qed simp

lemma merge_slaves_fresh:
  assumes "fresh_server s" "trees_ok trees" "builds_ok build" "merge_slaves conf build remote (s, trees) = (s', trees')"
  shows "fresh_server s' \<and> trees_ok trees'"
proof -
  have "fresh_server (fst (fold (\<lambda>slave st. merge_slave build (remote slave) [0..<length (si_queues (fst st))] st) xs (s, trees))) \<and>
      trees_ok (snd (fold (\<lambda>slave st. merge_slave build (remote slave) [0..<length (si_queues (fst st))] st) xs (s, trees)))" for xs
    using assms(1,2)
  proof (induction xs arbitrary: s trees)
    case (Cons x xs)
    obtain s1 t1 where m: "merge_slave build (remote x) [0..<length (si_queues s)] (s, trees) = (s1, t1)" by fastforce
    have "fresh_server s1 \<and> length (si_queues s1) = length (si_queues s) \<and> trees_ok t1"
      by (rule merge_slave_fresh[OF Cons.prems(1) _ Cons.prems(2) assms(3) m]) simp
    then show ?case using Cons.IH[of s1 t1] m by simp
  qed simp
  from this[of "takeWhile (\<lambda>n. n \<noteq> []) (cf_slave_servers conf)"] show ?thesis using assms(4) by (simp add: merge_slaves_def)
qed

text \<open>The server before its queues are read.\<close>

definition blank_server :: "server_info \<Rightarrow> bool" where
  "blank_server s \<longleftrightarrow>
     si_job_tab s = [] \<and> si_job_queue s = [] \<and> si_queues s = [] \<and> si_jobs s = [] \<and> si_sc s = zero_state_count \<and>
     si_jobs_by_user s = (\<lambda>_. None) \<and> si_jobs_by_group s = (\<lambda>_. None)"

lemma blank_server_attr: "blank_server (sq_server q) \<Longrightarrow> server_attr a q = Some q' \<Longrightarrow> blank_server (sq_server q')"
  by (auto simp: server_attr_def Let_def on_sinfo_def blank_server_def split: if_splits)

lemma blank_query_info: "query_server_info b = Some q \<Longrightarrow> blank_server (sq_server q)"
proof -
  have "preserves (\<lambda>q. blank_server (sq_server q)) (each server_attr as)" for as
  proof (induction as)
    case (Cons a as)
    then show ?case by (auto simp: preserves_def split: option.splits dest: blank_server_attr)
  qed (simp add: preserves_def)
  moreover have "blank_server (sq_server (new_server_info n))" for n by (simp add: new_server_info_def blank_server_def)
  ultimately show "query_server_info b = Some q \<Longrightarrow> blank_server (sq_server q)"
    by (auto simp: query_server_info_def preserves_def)
qed

lemma query_server_fresh:
  assumes "trees_ok trees" "builds_ok build" "query_server ce build an trees = Inr f"
  shows "fresh_server (sq_server (ft_query f)) \<and> trees_ok (ft_trees f)"
proof -
  obtain b q nodes st where b: "query_server_info b = Some q" and rest: "query_rest ce build an trees q nodes st = Inr f"
    using assms(3) by (auto simp: query_server_def Let_def split: option.splits sum.splits)
  define c w2 where "c = ce\<lparr>ce_env := (ce_env ce)\<lparr>ev_db := qc_db st\<rparr>\<rparr>"
    and "w2 = fold (\<lambda>a. upd_node a (fetch_bootable_alternatives ((ce_env ce)\<lparr>ev_db := qc_db st\<rparr>) (w_heap (qc_world st)))) nodes (qc_world st)"
  obtain r where r: "query_queues c build an \<lparr>rd_server = (sq_server q)\<lparr>si_world := w2, si_nodes := nodes\<rparr>, rd_trees = trees, rd_sent = []\<rparr> = Inr r"
    and fr: "map_sum id (\<lambda>q'. \<lparr>ft_query = q', ft_reg = qc_reg st, ft_db = qc_db st, ft_trees = rd_trees r, ft_sent = rd_sent r\<rparr>)
      (finish_server (qc_db st) (q\<lparr>sq_server := rd_server r\<rparr>)) = Inr f"
    using rest unfolding query_rest_def Let_def c_def w2_def by (auto split: sum.splits)
  have fin: "finish_server (qc_db st) (q\<lparr>sq_server := rd_server r\<rparr>) = Inr (ft_query f)" and ts: "ft_trees f = rd_trees r"
    using fr by (cases "finish_server (qc_db st) (q\<lparr>sq_server := rd_server r\<rparr>)"; auto)+
  let ?r = "\<lparr>rd_server = (sq_server q)\<lparr>si_world := w2, si_nodes := nodes\<rparr>, rd_trees = trees, rd_sent = []\<rparr>"
  have bl: "blank_server (sq_server q)" by (rule blank_query_info[OF b])
  then have "fresh_tab (rd_server ?r)" by (simp add: fresh_tab_def blank_server_def)
  moreover obtain bs where "query_queue_list c build an bs ?r = Inr r" using r by (auto simp: query_queues_def split: option.splits)
  ultimately have q: "fresh_tab (rd_server r)" "trees_ok (rd_trees r)" "reading_frame (rd_server r) = reading_frame (rd_server ?r)"
    using query_queue_list_fresh[of ?r build c an bs r] assms(1,2) by simp_all
  have "fresh_server (sq_server (ft_query f))"
    by (rule finish_server_fresh[OF _ _ _ _ _ fin]) (use q bl in \<open>simp_all add: reading_frame_def blank_server_def\<close>)
  then show ?thesis using q ts by simp
qed

text \<open>From the replies of the servers to the invariant of the cycle.\<close>

lemma fetch_ready:
  assumes "trees_ok trees" "builds_ok build" "fetch_servers ce build an remote trees = Inr f"
  shows "ready (sq_server (ft_query f)) \<and> trees_ok (ft_trees f)"
proof -
  obtain g where g: "query_server ce build an trees = Inr g"
    and f: "f = (let (s, ts) = merge_slaves (ce_conf ce) build remote (sq_server (ft_query g), ft_trees g)
        in g\<lparr>ft_query := (ft_query g)\<lparr>sq_server := regenerate_jobs_by_owner s\<rparr>, ft_trees := ts\<rparr>)"
    using assms(3) by (cases "query_server ce build an trees") (auto simp: fetch_servers_def)
  obtain s ts where m: "merge_slaves (ce_conf ce) build remote (sq_server (ft_query g), ft_trees g) = (s, ts)" by fastforce
  have q: "fresh_server (sq_server (ft_query g))" "trees_ok (ft_trees g)" using query_server_fresh[OF assms(1,2) g] by simp_all
  show ?thesis using merge_slaves_fresh[OF q assms(2) m] fresh_ready by (simp add: f m)
qed

end
