(* ===== verification/CycleExamples.thy ===== *)
theory CycleExamples
  imports Examples CycleInit
begin

text \<open>
  A small server with one queue, one node and two jobs of the same user.  The theorems on scheduling cycles are
  applied to it: the first pass starts the first job.
\<close>

definition ex_queue_state :: queue_state where
  "ex_queue_state = \<lparr>qs_info = ex_queue, qs_sc = zero_state_count\<lparr>sc_queued := 2, sc_total := 2\<rparr>, qs_jobs = [0, 1],
     qs_running_jobs = [], qs_jobs_by_group = (\<lambda>_. None), qs_jobs_by_user = (\<lambda>_. None), qs_cores_by_group = (\<lambda>_. None),
     qs_cores_by_user = (\<lambda>_. None), qs_running_cores = None, qs_is_ok_to_run = True, qs_excl_nodes = [],
     qs_queue_cost = 1, qs_fairshare_tree = ''default'',
     qs_is_route = False, qs_required_property = None\<rparr>"

definition ex_server :: server_info where
  "ex_server = \<lparr>si_name = ''server'', si_world = ex_world, si_nodes = [0], si_non_dedicated_nodes = [0],
     si_job_tab = [ex_job, ex_job\<lparr>ji_job_id := ''2.server''\<rparr>], si_job_queue = [0, 0], si_queues = [ex_queue_state],
     si_jobs = [0, 1], si_running_jobs = [], si_sc = zero_state_count\<lparr>sc_queued := 2, sc_total := 2\<rparr>,
     si_max_run = 1, si_max_user_run = RESC_INFINITY, si_max_group_run = RESC_INFINITY, si_jobs_by_group = (\<lambda>_. None),
     si_jobs_by_user = (\<lambda>_. None), si_exec_count = (\<lambda>_. 0), si_jobs_by_owner = [(''alice'', [0, 1])]\<rparr>"

definition ex_cycle_env :: cycle_env where
  "ex_cycle_env = \<lparr>ce_env = ex_env, ce_conf = init_config\<lparr>cf_local_server := ''server''\<rparr>,
     ce_status = \<lparr>cs_policy = zero_policy, cs_is_prime = False, cs_is_ded_time = False, cs_current_time = 100\<rparr>,
     ce_reg = empty_registry, ce_cluster = (\<lambda>_. None), ce_getgrnam = (\<lambda>_. None), ce_in_group = (\<lambda>_ _. False)\<rparr>"

definition ex_cycle :: cycle where
  "ex_cycle = \<lparr>cy_server = ex_server, cy_reg = empty_registry, cy_trees = [], cy_last_queue = 0, cy_last_job = - 1,
     cy_sent = [], cy_active = False, cy_run_errors = 0\<rparr>"

definition ex_input :: step_input where
  "ex_input = \<lparr>in_time = 100, in_reply = 0, in_cache = (\<lambda>_. None)\<rparr>"

lemma ex_server_ok: "cy_ok ex_server"
  by (simp add: cy_ok_def server_ok_def queue_ok_def in_tab_def index_ok_def cache_ok_def ex_server_def ex_queue_state_def
      queue_at_def zero_state_count_def)

lemma ex_cycle_inv: "cy_inv (cs_policy (ce_status ex_cycle_env)) ex_cycle"
  using ex_server_ok
  by (simp add: cy_inv_def ex_cycle_def ex_cycle_env_def zero_policy_def job_seq_def pos_ok_def) (simp add: ex_server_def)

lemma ex_todo: "todo (cs_policy (ce_status ex_cycle_env)) ex_cycle = 2"
  by (simp add: todo_def ex_cycle_def ex_cycle_env_def zero_policy_def job_seq_def passed_def ex_server_def)

text \<open>The first job may run.\<close>

lemma ex_limits: "run_checks (limit_checks 0 ex_job @
    [proc_check (ex_cycle_env\<lparr>ce_reg := empty_registry\<rparr>) 0 0, ded_check (ex_cycle_env\<lparr>ce_reg := empty_registry\<rparr>) 0,
     cloud_step (ex_cycle_env\<lparr>ce_reg := empty_registry\<rparr>) 0, resource_check (ex_cycle_env\<lparr>ce_reg := empty_registry\<rparr>) 0]) ex_server =
  Some (0, ex_server)"
  by (simp add: limit_checks_def check_server_max_run_def check_server_max_user_run_def check_server_max_group_run_def
      check_queue_max_run_def check_queue_max_user_run_def check_queue_max_group_run_def proc_check_def
      check_queue_proc_limits_def ded_check_def check_ded_time_boundry_def cloud_step_def cloud_check_def resource_check_def
      check_dynamic_resources_def ex_cycle_env_def ex_server_def ex_queue_state_def queue_at_def job_at_def ex_env_def
      zero_state_count_def init_config_def MAX_DEDTIME_SIZE_def upd_job_def ex_queue_def Let_def code_defs)

lemma ex_ok_to_run:
  "is_ok_to_run_job (ex_cycle_env\<lparr>ce_reg := empty_registry\<rparr>) 0 ex_server =
     Some (SUCCESS, upd_job 0 (\<lambda>_. snd ex_found) (ex_server\<lparr>si_world := fst ex_found\<rparr>))"
proof -
  have n: "queue_nodes ex_server 0 = [0]"
    by (simp add: queue_nodes_def queue_of_def queue_at_def ex_server_def ex_queue_state_def ex_queue_def)
  have f: "qs_info (queue_of ex_server 0) = ex_queue" "si_world ex_server = ex_world" "job_at ex_server 0 = ex_job"
    "si_job_queue ex_server ! 0 = 0" "si_nodes ex_server = [0]" "si_exec_count ex_server = (\<lambda>_. 0)"
    by (simp_all add: queue_of_def queue_at_def job_at_def ex_server_def ex_queue_state_def)
  have c: "ce_env ex_cycle_env = ex_env" "cf_max_user_run (ce_conf ex_cycle_env) = 15" "cs_current_time (ce_status ex_cycle_env) = 100"
    by (simp_all add: ex_cycle_env_def init_config_def)
  show ?thesis
    using ex_limits ex_check
    by (simp add: is_ok_to_run_job_def then_search_def search_nodes_def n f c Let_def del: append.simps)
qed

text \<open>A positive answer of the server always leads to a started job.\<close>

lemma account_run_some:
  assumes "cy_ok s" "j < length (si_job_tab s)" shows "account_run ev j s \<noteq> None"
proof -
  let ?s = "update_on_job_run ev j s" and ?q = "si_job_queue s ! j"
  have "?q < length (si_queues s)" using assms by (auto simp: cy_ok_def index_ok_def)
  then have q: "?q < length (si_queues ?s)" by (simp add: update_on_job_run_frame)
  have "server_ok ?s" using assms(1) update_on_job_run_ok by (simp add: cy_ok_def)
  from update_queue_on_job_run_ok[OF this q] show ?thesis by (auto simp: account_run_def)
qed

lemma try_run_job_answered:
  assumes ok: "cy_ok (cy_server cy)" and j: "j < length (si_job_tab (cy_server cy))"
    and fs: "\<not> po_fair_share (cs_policy (ce_status ce))"
  shows "\<exists>cy'. try_run_job ce 0 j cy = Some (0, cy')"
proof -
  let ?s = "cy_server cy"
  obtain best booting minspec where p: "nodes_preassign_string (ce_env ce) (job_at ?s j) (si_nodes ?s) (si_world ?s) =
      (best, booting, minspec)" by (metis surj_pair)
  define cy1 where "cy1 = send (update_job_fairshare (minspec * qs_queue_cost (queue_of ?s j) *
      ji_calculated_fairshare (job_at ?s j)) (job_at ?s j)) cy"
  define cy2 where "cy2 = (if \<not> booting then send [start_request (ce_conf ce) (qs_info (queue_of ?s j)) (job_at ?s j) best] cy1
      else if \<not> is_remote (ce_conf ce) (job_at ?s j) then comment_job j COMMENT_NODE_STILL_BOOTING cy1 else cy1)"
  have s1: "cy_server cy1 = ?s" by (simp add: cy1_def send_def)
  have q2: "quiet ?s (cy_server cy2)" using quiet_comment[of cy1 j] s1 by (auto simp: cy2_def send_def)
  have ok2: "cy_ok (cy_server cy2)" "j < length (si_job_tab (cy_server cy2))" using quiet_ok[OF q2(1) ok] quietD(7)[OF q2(1)] j by simp_all
  obtain s where "account_run (ce_env ce) j (cy_server cy2) = Some s" using account_run_some[OF ok2] by blast
  then have "after_start ce booting j cy2 = Some (cy2\<lparr>cy_server := s\<rparr>)" using fs by (simp add: after_start_def)
  then show ?thesis unfolding try_run_job_def Let_def p case_prod_conv cy1_def[symmetric] cy2_def[symmetric] by simp
qed

lemma each_some: "\<forall>x \<in> set xs. \<forall>s. f x s \<noteq> None \<Longrightarrow> each f xs s \<noteq> None"
  by (induction xs arbitrary: s) (auto split: option.splits)

lemma refresh_no_cache: "refresh ce (\<lambda>_. None) cy \<noteq> None"
proof -
  have c: "cache_resources (\<lambda>_. None) nodes st \<noteq> None" for nodes st
    unfolding cache_resources_def by (rule each_some) (auto simp: metric_loop_def)
  have d: "each decode_node xs st \<noteq> None" for xs st by (rule each_some) (simp add: decode_node_def)
  show ?thesis unfolding refresh_def query_external_cache_def and_then_def Let_def
    using c d by (metis (no_types, lifting) option.case_eq_if option.distinct(1) option.map_disc_iff)
qed

lemma ex_next_job:
  "next_job (ce_conf ex_cycle_env) (cs_policy (ce_status ex_cycle_env)) ex_cycle = Some (Some 0, ex_cycle\<lparr>cy_last_job := 0\<rparr>)"
  by (simp add: next_job_def next_in_server_def ex_cycle_env_def zero_policy_def ex_cycle_def ex_server_def job_at_def
      ex_job_def init_job_info_def)

lemma ex_first_pass:
  "\<exists>cy. cycle_pass ex_cycle_env 100 ex_input ex_cycle = Some (True, cy) \<and> si_running_jobs (cy_server cy) = [0]"
proof -
  note n = ex_next_job
  let ?cy = "ex_cycle\<lparr>cy_last_job := 0\<rparr>"
  have t: "upd_job 0 (\<lambda>job. job\<lparr>ji_schedule := []\<rparr>) ex_server = ex_server"
    using ex_job_same by (simp add: upd_job_def ex_server_def)
  define s1 where "s1 = upd_job 0 (\<lambda>_. snd ex_found) (ex_server\<lparr>si_world := fst ex_found\<rparr>)"
  have r: "is_ok_to_run_job (ex_cycle_env\<lparr>ce_reg := cy_reg ?cy\<rparr>) 0 ex_server = Some (SUCCESS, s1)"
    using ex_ok_to_run by (simp add: s1_def ex_cycle_def)
  have sh: "same_shell ex_server s1"
    by (rule is_ok_to_run_job_spec[OF _ refl _ r, THEN conjunct1])
      (use ex_server_ok in \<open>simp_all add: cy_ok_def ex_server_def\<close>)
  have q1: "quiet ex_server s1" by (rule same_shell_quiet[OF sh])
  let ?cz = "on_server (count_exec 0) ((?cy\<lparr>cy_server := s1\<rparr>)\<lparr>cy_active := True\<rparr>)"
  have okz: "cy_ok (cy_server ?cz)" "0 < length (si_job_tab (cy_server ?cz))"
    using quiet_ok[OF q1 ex_server_ok] quietD(7)[OF q1] count_exec_frame(4-7)[of 0 s1]
    by (simp_all add: on_server_def cy_ok_def ex_server_def)
  obtain cy3 where t3: "try_run_job ex_cycle_env 0 0 ?cz = Some (0, cy3)"
    using try_run_job_answered[OF okz, of ex_cycle_env] by (auto simp: ex_cycle_env_def zero_policy_def)
  have run: "si_running_jobs (cy_server cy3) = [0]"
    using try_run_job_spec[OF okz t3] runs_queue(1)[OF quietD(2)[OF q1]] count_exec_frame(2)[of 0 s1]
    by (simp add: attempted_def started_job_def on_server_def runs_def ex_server_def)
  obtain cy4 where c4: "refresh ex_cycle_env (\<lambda>_. None) cy3 = Some cy4" using refresh_no_cache by blast
  have "si_running_jobs (cy_server cy4) = [0]" using runs_queue(1)[OF quietD(2)] refresh_quiet[OF c4] run by metis
  moreover have "handle_job ex_cycle_env ex_input 0 ?cy = Some cy4"
    using r t3 c4 by (simp add: handle_job_def on_server_def t run_job_def ex_input_def ex_cycle_def)
  then have "cycle_pass ex_cycle_env 100 ex_input ex_cycle = Some (True, cy4)"
    using n by (simp add: cycle_pass_def ex_cycle_def)
  ultimately show ?thesis by blast
qed

text \<open>The same server after both jobs have been refused.\<close>

definition ex_marked :: server_info where
  "ex_marked = mark_cannot_run 1 (mark_cannot_run 0 ex_server)"

lemma ex_marked_inv: "cy_inv (cs_policy (ce_status ex_cycle_env)) (ex_cycle\<lparr>cy_server := ex_marked\<rparr>)"
proof -
  have "quiet ex_server ex_marked" unfolding ex_marked_def by (rule quiet_trans[OF quiet_mark quiet_mark])
  from quiet_ok[OF this ex_server_ok] show ?thesis
    by (simp add: cy_inv_def ex_cycle_env_def zero_policy_def job_seq_def pos_ok_def ex_cycle_def)
      (simp add: ex_marked_def mark_cannot_run_def upd_job_def ex_server_def)
qed

lemma ex_plain: "\<not> po_fair_share (cs_policy (ce_status ex_cycle_env))" "\<not> po_by_queue (cs_policy (ce_status ex_cycle_env))"
  by (simp_all add: ex_cycle_env_def zero_policy_def)

lemma ex_marked_settled: "settled_upto (ex_cycle\<lparr>cy_server := ex_marked\<rparr>)"
  by (simp add: settled_upto_def ex_cycle_def)

lemma ex_marked_next:
  "next_job (ce_conf ex_cycle_env) (cs_policy (ce_status ex_cycle_env)) (ex_cycle\<lparr>cy_server := ex_marked\<rparr>) =
     Some (None, ex_cycle\<lparr>cy_server := ex_marked, cy_last_job := 2\<rparr>)"
  by (simp add: next_job_def next_in_server_def ex_cycle_env_def zero_policy_def ex_cycle_def ex_marked_def mark_cannot_run_def
      upd_job_def ex_server_def job_at_def)

text \<open>Replies with one node and one queue.\<close>

definition ex_answers :: answers where
  "ex_answers = \<lparr>an_server = Some \<lparr>bs_name = ''server'', bs_attribs = []\<rparr>, an_nodes = Some [\<lparr>bs_name = ''n1'', bs_attribs = []\<rparr>],
     an_queues = Some [\<lparr>bs_name = ''default'', bs_attribs = []\<rparr>], an_jobs = (\<lambda>_. Inr []), an_host = (\<lambda>_. None),
     an_cache = (\<lambda>_. None), an_raw = (\<lambda>_. ex_raw), an_raw_state = MagratheaStateNone\<rparr>"

definition ex_build :: "string \<Rightarrow> tree_error + group_info" where
  "ex_build = (\<lambda>_. Inr (init_fairshare_root 10))"

lemma ex_builds: "builds_ok ex_build" "trees_ok []"
  by (simp_all add: builds_ok_def ex_build_def trees_ok_def smap_find_def init_fairshare_root_def new_group_info_def group_core_def)

lemma ex_fetch: "\<exists>f. fetch_servers ex_cycle_env ex_build ex_answers (\<lambda>_ _. None) [] = Inr f"
proof -
  have "\<exists>g. query_server ex_cycle_env ex_build ex_answers [] = Inr g"
    by (simp add: query_server_def ex_answers_def query_server_info_def new_server_info_def query_nodes_def new_node_data_def
        link_host_def node_at_def init_node_data_def new_node_info_def node_data.defs query_external_cache_def and_then_def
        cache_resources_def static_metrics_def metric_loop_def dynamic_values_def decode_node_def process_magrathea_status_def
        process_machine_cluster_def upd_node_def on_world_def recount_installing_nodes_def ex_cycle_env_def ex_env_def
        nd_get_resource_def rs_lookup_def smap_find_def query_rest_def query_queues_def query_queue_def query_jobs_def
        fetch_bootable_alternatives_def finish_server_def query_queue_info_def new_queue_state_def ded_prefixed_def
        is_ok_to_run_queue_success update_jobs_cant_run_def cant_run_start_def add_queue_def queue_at_def count_queue_def upd_queue_def
        node_filter_def is_node_non_dedicated_def collect_running_def set_jobs_def total_queues_def node_cpus_def has_jobs_def
        server_running_def init_config_def Let_def)
  then show ?thesis by (auto simp: fetch_servers_def)
qed

definition ex_usage :: usage_state where
  "ex_usage = \<lparr>us_trees = [(''default'', init_fairshare_root 10)], us_last_decay = 0, us_last_sync = 0, us_written = None\<rparr>"

lemma ex_init:
  "\<exists>cy. init_scheduling_cycle ex_cycle_env (\<lambda>_. 0) [] ex_usage (ex_cycle\<lparr>cy_server := s\<rparr>) = Some (ex_usage, cy)"
  by (simp add: init_scheduling_cycle_def update_fairshare_def sort_server_def next_job_init_def ex_cycle_env_def zero_policy_def num_sorts_def
      sorting_info_def)

end
