(* ===== verification/PlanGaps.thy ===== *)
theory PlanGaps
  imports Planning Times
begin

text \<open>
  Gaps of the plan: \<open>src/plan_gaps_memory.cpp\<close> and \<open>src/plan_gaps.cpp\<close>, less \<open>find_first_gap\<close>.  A gap is a
  stretch of time in which some processors of some nodes are free.  The lists of gaps and jobs are sequences here:
  PlanList shows that the linked lists of the source implement sequences.  A node is its index in
  the world, a planned job is its reference number; \<open>following_job\<close> holds such a reference.  Memory
  allocation does not fail.  \<open>None\<close> is a division by zero or a reference to a job that is no longer in the list.

  The contract of a list of gaps is the number of processors it offers at a time on a node.
  Inserting a gap adds the processors of the new gap to it, at every time and on every node, and
  keeps the gaps ordered and disjoint.
\<close>

named_theorems gap_defs \<open>definitions of the operations on gaps\<close>

section \<open>Data\<close>

record plan_gap_mem =
  gm_ninfo :: nat
  gm_num_cpus :: int
  gm_available_mem :: int
  gm_available_scratch_local :: int
  gm_updated :: bool

record plan_gap =
  pg_start_time :: int
  pg_end_time :: int
  pg_duration :: int
  pg_usage :: int
  pg_nodes_memory :: "plan_gap_mem list"
  pg_following_job :: "nat option"

record plan_job =
  pj_ref :: nat
  pj_job_id :: int
  pj_jinfo :: nat
  pj_start_time :: int
  pj_completion_time :: int
  pj_estimated_processing :: int
  pj_due_date :: int
  pj_available_after :: int
  pj_run_me :: bool
  pj_usage :: int
  pj_req_ppn :: int
  pj_original_req_ppn :: int
  pj_req_num_nodes :: int
  pj_req_mem :: int
  pj_req_scratch_local :: int
  pj_req_gpu :: int
  pj_ninfo_arr :: "nat option list"
  pj_fixed_nname_arr :: "string option list"
  pj_fixed_nname_arr_backup :: "string option list option"
  pj_cpu_indexes :: "int list"
  pj_latest_ncpu_index :: "int list"
  pj_account_id :: int

record first_free_slot =
  fs_time :: int
  fs_ninfo :: nat
  fs_free_to_run :: bool
  fs_releated_cpus :: "nat list"
  fs_mem :: int
  fs_scratch_local :: int
  fs_available_mem :: int
  fs_available_scratch_local :: int
  fs_mem_used_per_cpu :: int
  fs_scratch_local_used_per_cpu :: int

record plan_cluster =
  pc_cluster_name :: string
  pc_properties :: "string set"
  pc_nodes :: "nat list"
  pc_nodes_name :: "string list"
  pc_num_cpus :: int
  pc_num_running_cpus :: int
  pc_num_queued_jobs :: int
  pc_available_ram :: int

section \<open>Memory of gaps\<close>

definition get_node_mem :: "world \<Rightarrow> nat \<Rightarrow> int" where
  "get_node_mem w a = (case node_resource w a ''mem'' of None \<Rightarrow> -1 | Some r \<Rightarrow> r_max r)"

definition get_node_scratch_local :: "world \<Rightarrow> nat \<Rightarrow> int" where
  "get_node_scratch_local w a = (case node_resource w a ''scratch_local'' of None \<Rightarrow> -1 | Some r \<Rightarrow> r_max r)"

text \<open>The test on nodes that every part of the plan repeats.\<close>

definition out_of_service :: "world \<Rightarrow> nat \<Rightarrow> bool" where
  "out_of_service w a = (ns_down (node_at w a) \<or> ns_offline (node_at w a) \<or> ni_notusable (node_at w a))"

text \<open>One processor is counted for its node: a known node gets one more, an unknown one a new entry.\<close>

definition bump_slot :: "first_free_slot \<Rightarrow> plan_gap_mem \<Rightarrow> plan_gap_mem" where
  "bump_slot s m =
     (if gm_ninfo m = fs_ninfo s
      then m\<lparr>gm_available_mem := fs_available_mem s, gm_available_scratch_local := fs_available_scratch_local s,
             gm_num_cpus := gm_num_cpus m + 1\<rparr>
      else m)"

definition count_slot :: "first_free_slot \<Rightarrow> plan_gap_mem list \<Rightarrow> plan_gap_mem list" where
  "count_slot s ms =
     (if \<exists>m \<in> set ms. gm_ninfo m = fs_ninfo s then map (bump_slot s) ms
      else ms @ [\<lparr>gm_ninfo = fs_ninfo s, gm_num_cpus = 1, gm_available_mem = fs_available_mem s,
             gm_available_scratch_local = fs_available_scratch_local s, gm_updated = False\<rparr>])"

definition gap_of_slots :: "first_free_slot list \<Rightarrow> plan_gap \<Rightarrow> plan_gap" where
  "gap_of_slots slots g = g\<lparr>pg_usage := int (length slots), pg_nodes_memory := fold count_slot slots []\<rparr>"

definition gap_memory_create :: "plan_gap \<Rightarrow> plan_job \<Rightarrow> first_free_slot list \<Rightarrow> plan_gap" where
  "gap_memory_create g job slots =
     gap_of_slots (filter (\<lambda>s. fs_time s < pg_end_time g)
       (map (\<lambda>i. slots ! nat i) (filter (\<lambda>i. 0 \<le> i) (take (nat (pj_usage job)) (pj_cpu_indexes job))))) g"

definition gap_memory_create_last :: "world \<Rightarrow> plan_gap \<Rightarrow> first_free_slot list \<Rightarrow> plan_gap" where
  "gap_memory_create_last w g slots =
     gap_of_slots (filter (\<lambda>s. fs_time s < pg_end_time g \<and> \<not> out_of_service w (fs_ninfo s)) slots) g"

text \<open>The entries of the source are added to the first entry of the same node, or appended.\<close>

fun add_mem :: "plan_gap_mem \<Rightarrow> plan_gap_mem list \<Rightarrow> plan_gap_mem list" where
  "add_mem e [] = [e\<lparr>gm_updated := False\<rparr>]"
| "add_mem e (m # ms) =
     (if gm_ninfo e = gm_ninfo m then m\<lparr>gm_num_cpus := gm_num_cpus m + gm_num_cpus e\<rparr> # ms else m # add_mem e ms)"

definition add_mem_gap_to_gap :: "plan_gap \<Rightarrow> plan_gap \<Rightarrow> plan_gap" where
  "add_mem_gap_to_gap t s =
     t\<lparr>pg_usage := pg_usage t + pg_usage s, pg_nodes_memory := fold add_mem (pg_nodes_memory s) (pg_nodes_memory t)\<rparr>"

text \<open>The jobs around a reference that start at the same time, from the first of them to the last.\<close>

definition neighbour_jobs :: "plan_job list \<Rightarrow> nat \<Rightarrow> plan_job list option" where
  "neighbour_jobs jobs ref =
     (case dropWhile (\<lambda>j. pj_ref j \<noteq> ref) jobs of
        [] \<Rightarrow> None
      | j # later \<Rightarrow>
          (let together = (\<lambda>x. pj_start_time x = pj_start_time j);
               earlier = takeWhile (\<lambda>j. pj_ref j \<noteq> ref) jobs
           in Some (rev (takeWhile together (rev earlier)) @ j # takeWhile together later)))"

definition charge_node :: "world \<Rightarrow> plan_job \<Rightarrow> nat option \<Rightarrow> plan_gap_mem \<Rightarrow> plan_gap_mem" where
  "charge_node w job node m =
     (if node = Some (gm_ninfo m)
      then (let m1 = (if gm_updated m then m
                      else m\<lparr>gm_available_mem := get_node_mem w (gm_ninfo m),
                             gm_available_scratch_local := get_node_scratch_local w (gm_ninfo m), gm_updated := True\<rparr>)
            in m1\<lparr>gm_available_mem := gm_available_mem m1 - pj_req_mem job\<rparr>)
      else m)"

definition charge_job :: "world \<Rightarrow> plan_job \<Rightarrow> plan_gap_mem list \<Rightarrow> plan_gap_mem list" where
  "charge_job w job = map (fold (charge_node w job) (take (nat (pj_req_num_nodes job)) (pj_ninfo_arr job)))"

definition adjust_gap_memory :: "world \<Rightarrow> plan_job list \<Rightarrow> plan_gap \<Rightarrow> plan_gap \<Rightarrow> plan_gap option" where
  "adjust_gap_memory w jobs new l =
     (case pg_following_job l of
        None \<Rightarrow> Some new
      | Some ref \<Rightarrow>
          map_option (\<lambda>ns. new\<lparr>pg_nodes_memory :=
              fold (charge_job w) ns (map (\<lambda>m. m\<lparr>gm_updated := False\<rparr>) (pg_nodes_memory new))\<rparr>)
            (neighbour_jobs jobs ref))"

section \<open>Construction of gaps\<close>

definition gap_fillin :: "int \<Rightarrow> int \<Rightarrow> int \<Rightarrow> int \<Rightarrow> nat option \<Rightarrow> plan_gap" where
  "gap_fillin start_time end_time duration usage following_job =
     \<lparr>pg_start_time = start_time, pg_end_time = end_time, pg_duration = duration, pg_usage = usage,
      pg_nodes_memory = [], pg_following_job = following_job\<rparr>"

text \<open>The scan for the earliest slot that is still available; the first of equal times wins.\<close>

fun smallest_loop :: "nat \<Rightarrow> first_free_slot list \<Rightarrow> bool list \<Rightarrow> int \<Rightarrow> nat option \<Rightarrow> nat option" where
  "smallest_loop i (s # ss) (taken # ts) m result =
     (if fs_time s < m \<and> \<not> taken then smallest_loop (Suc i) ss ts (fs_time s) (Some i)
      else smallest_loop (Suc i) ss ts m result)"
| "smallest_loop i _ _ m result = result"

definition gaps_ith_smallest :: "first_free_slot list \<Rightarrow> bool list \<Rightarrow> nat option \<times> bool list" where
  "gaps_ith_smallest slots taken =
     (case smallest_loop 0 slots taken LONG_MAX None of None \<Rightarrow> (None, taken) | Some r \<Rightarrow> (Some r, taken[r := True]))"

text \<open>One pass of the loop: \<open>gap_start\<close>, the slots taken so far and the gaps made so far.\<close>

definition next_gap :: "world \<Rightarrow> first_free_slot list \<Rightarrow> int \<Rightarrow> int \<times> bool list \<times> plan_gap list \<Rightarrow> int \<times> bool list \<times> plan_gap list" where
  "next_gap w slots max_completion = (\<lambda>(gap_start, taken, gaps).
     (case gaps_ith_smallest slots taken of
        (None, taken') \<Rightarrow> (gap_start, taken', gaps)
      | (Some i, taken') \<Rightarrow>
          (let t = fs_time (slots ! i); start = (if gap_start = -1 then t else gap_start)
           in if start = t then (start, taken', gaps)
              else (let gap_end = min t max_completion
                    in (t, taken', if start < gap_end
                          then gaps @ [gap_memory_create_last w (gap_fillin start gap_end (gap_end - start) 0 None) slots]
                          else gaps)))))"

definition gap_create_not_the_last :: "world \<Rightarrow> first_free_slot list \<Rightarrow> int \<Rightarrow> plan_gap list" where
  "gap_create_not_the_last w slots max_completion =
     snd (snd ((next_gap w slots max_completion ^^ length slots) (-1, map (\<lambda>s. fs_time s = -1) slots, [])))"

definition gap_create_last :: "world \<Rightarrow> int \<Rightarrow> plan_cluster option \<Rightarrow> plan_gap" where
  "gap_create_last w start_time cluster =
     (gap_fillin start_time LONG_MAX LONG_MAX 0 None)
       \<lparr>pg_usage := (case cluster of None \<Rightarrow> 0 | Some c \<Rightarrow> pc_num_running_cpus c),
        pg_nodes_memory := (case cluster of None \<Rightarrow> [] | Some c \<Rightarrow>
          map (\<lambda>a. \<lparr>gm_ninfo = a, gm_num_cpus = nd_core_total (node_at w a), gm_available_mem = get_node_mem w a,
                     gm_available_scratch_local = get_node_scratch_local w a, gm_updated = False\<rparr>)
            (filter (\<lambda>a. \<not> out_of_service w a) (pc_nodes c)))\<rparr>"

section \<open>Reading and filling gaps\<close>

text \<open>How many times a request fits on a node of a gap; \<open>None\<close> is the division by zero.\<close>

definition check_node_in_gap :: "plan_gap \<Rightarrow> nat \<Rightarrow> int \<Rightarrow> int \<Rightarrow> int \<Rightarrow> int option" where
  "check_node_in_gap g a req_usage req_mem req_scratch_local =
     (case find (\<lambda>m. gm_ninfo m = a) (pg_nodes_memory g) of
        None \<Rightarrow> Some 0
      | Some m \<Rightarrow>
          if req_usage = 0 then None
          else (let r1 = c_div (gm_num_cpus m) req_usage;
                    r2 = (if 0 < req_mem \<and> c_div (gm_available_mem m) req_mem < r1
                          then c_div (gm_available_mem m) req_mem else r1)
                in Some (if 0 < req_scratch_local \<and> c_div (gm_available_scratch_local m) req_scratch_local < r2
                         then c_div (gm_available_scratch_local m) req_scratch_local else r2)))"

text \<open>The new job goes in front of the job that follows the gap, or to the end; \<open>None\<close> when the gap is too small.\<close>

definition job_put_in_gap :: "plan_job list \<Rightarrow> plan_job \<Rightarrow> plan_gap \<Rightarrow> plan_job list option" where
  "job_put_in_gap jobs job g =
     (if pg_usage g < pj_req_ppn job then None
      else (let job1 = job\<lparr>pj_start_time := pg_start_time g,
                           pj_completion_time := pg_start_time g + pj_estimated_processing job\<rparr>
            in Some (case pg_following_job g of
                 None \<Rightarrow> jobs @ [job1]
               | Some ref \<Rightarrow> takeWhile (\<lambda>j. pj_ref j \<noteq> ref) jobs @ job1 # dropWhile (\<lambda>j. pj_ref j \<noteq> ref) jobs)))"

definition gap_duplicate :: "plan_gap \<Rightarrow> plan_gap" where
  "gap_duplicate g = g\<lparr>pg_nodes_memory := map (\<lambda>m. m\<lparr>gm_updated := False\<rparr>) (pg_nodes_memory g)\<rparr>"

definition set_start :: "int \<Rightarrow> plan_gap \<Rightarrow> plan_gap" where
  "set_start t g = g\<lparr>pg_start_time := t, pg_duration := pg_end_time g - t\<rparr>"

definition set_end :: "int \<Rightarrow> plan_gap \<Rightarrow> plan_gap" where
  "set_end t g = g\<lparr>pg_end_time := t, pg_duration := t - pg_start_time g\<rparr>"

text \<open>
  The loop of \<open>insert_new_gap\<close> that goes back from a gap to the first one that ends after a time.  A position
  in the list is the gaps before it, nearest first, the gap, and the gaps behind it.
\<close>

fun back_to :: "int \<Rightarrow> plan_gap list \<Rightarrow> plan_gap \<Rightarrow> plan_gap list \<Rightarrow> plan_gap list \<times> plan_gap \<times> plan_gap list" where
  "back_to t [] l as = ([], l, as)"
| "back_to t (p # bs) l as = (if pg_end_time p \<le> t then (p # bs, l, as) else back_to t bs p (l # as))"

text \<open>A new gap that starts after a gap \<open>l\<close> has ended goes to the end of the list.\<close>

definition append_gap :: "world \<Rightarrow> plan_job list \<Rightarrow> plan_gap \<Rightarrow> plan_gap list \<Rightarrow> plan_gap \<Rightarrow> plan_gap list option" where
  "append_gap w jobs l gaps new =
     map_option (\<lambda>n. gaps @ [gap_duplicate n])
       (if pg_end_time l = pg_start_time new then adjust_gap_memory w jobs new l else Some new)"

text \<open>
  The rest of \<open>insert_new_gap\<close> at a position.  When the new gap ends behind \<open>l\<close> the function calls itself on
  the successor; the gap in front of the successor ends where the new gap now starts, so the loop above stops at
  once there, and without a successor the last gap of the list is \<open>l\<close>.
\<close>

definition split_front :: "plan_gap list \<Rightarrow> plan_gap \<Rightarrow> plan_gap \<Rightarrow> plan_gap list \<times> plan_gap \<times> plan_gap" where
  "split_front bs l new =
     (if pg_start_time new < pg_start_time l
      then (set_end (pg_start_time l) (gap_duplicate new) # bs, l, set_start (pg_start_time l) new)
      else if pg_start_time l < pg_start_time new
      then (set_end (pg_start_time new) (gap_duplicate l) # bs, set_start (pg_start_time new) l, new)
      else (bs, l, new))"

fun place_gap :: "world \<Rightarrow> plan_job list \<Rightarrow> plan_gap list \<Rightarrow> plan_gap \<Rightarrow> plan_gap list \<Rightarrow> plan_gap \<Rightarrow> plan_gap list option" where
  "place_gap w jobs bs l as new =
     (if pg_end_time new \<le> pg_start_time l then Some (rev bs @ gap_duplicate new # l # as)
      else (case split_front bs l new of (bs1, l1, n1) \<Rightarrow>
        (if pg_end_time l1 = pg_end_time n1 then Some (rev bs1 @ add_mem_gap_to_gap l1 n1 # as)
         else if pg_end_time n1 < pg_end_time l1
         then Some (rev bs1 @ add_mem_gap_to_gap (set_end (pg_end_time n1) l1) n1 #
                      set_start (pg_end_time n1) (gap_duplicate l1) # as)
         else (let l2 = add_mem_gap_to_gap l1 n1
               in case adjust_gap_memory w jobs n1 l2 of
                    None \<Rightarrow> None
                  | Some n2 \<Rightarrow>
                      (let n3 = set_start (pg_end_time l2) n2
                       in case as of
                            [] \<Rightarrow> append_gap w jobs l2 (rev bs1 @ [l2]) n3
                          | l3 # as3 \<Rightarrow>
                              (if pg_end_time l3 \<le> pg_start_time n3
                               then append_gap w jobs l3 (rev bs1 @ l2 # as) n3
                               else place_gap w jobs (l2 # bs1) l3 as3 n3))))))"

text \<open>The plan always starts from the last gap of the list.\<close>

definition insert_new_gap :: "world \<Rightarrow> plan_job list \<Rightarrow> plan_gap list \<Rightarrow> plan_gap \<Rightarrow> plan_gap list option" where
  "insert_new_gap w jobs gaps new =
     (case rev gaps of
        [] \<Rightarrow> Some [gap_duplicate new]
      | l # bs \<Rightarrow>
          if pg_end_time l \<le> pg_start_time new then append_gap w jobs l gaps new
          else (case back_to (pg_start_time new) bs l [] of (bs1, l1, as1) \<Rightarrow> place_gap w jobs bs1 l1 as1 new))"

section \<open>Ordered gaps\<close>

definition gap_ok :: "plan_job list \<Rightarrow> plan_gap \<Rightarrow> bool" where
  "gap_ok jobs g \<longleftrightarrow> pg_start_time g < pg_end_time g \<and> pg_duration g = pg_end_time g - pg_start_time g \<and>
     (\<forall>ref. pg_following_job g = Some ref \<longrightarrow> ref \<in> pj_ref ` set jobs)"

definition gap_before :: "plan_gap \<Rightarrow> plan_gap \<Rightarrow> bool" where
  "gap_before g h \<longleftrightarrow> pg_end_time g \<le> pg_start_time h"

definition gaps_ok :: "plan_job list \<Rightarrow> plan_gap list \<Rightarrow> bool" where
  "gaps_ok jobs gs \<longleftrightarrow> (\<forall>g \<in> set gs. gap_ok jobs g) \<and> sorted_wrt gap_before gs"

lemma gap_times [simp]:
  "pg_start_time (gap_duplicate g) = pg_start_time g" "pg_end_time (gap_duplicate g) = pg_end_time g"
  "pg_duration (gap_duplicate g) = pg_duration g" "pg_following_job (gap_duplicate g) = pg_following_job g"
  "pg_start_time (set_start t g) = t" "pg_end_time (set_start t g) = pg_end_time g"
  "pg_duration (set_start t g) = pg_end_time g - t" "pg_following_job (set_start t g) = pg_following_job g"
  "pg_start_time (set_end t g) = pg_start_time g" "pg_end_time (set_end t g) = t"
  "pg_duration (set_end t g) = t - pg_start_time g" "pg_following_job (set_end t g) = pg_following_job g"
  "pg_start_time (add_mem_gap_to_gap g h) = pg_start_time g" "pg_end_time (add_mem_gap_to_gap g h) = pg_end_time g"
  "pg_duration (add_mem_gap_to_gap g h) = pg_duration g" "pg_following_job (add_mem_gap_to_gap g h) = pg_following_job g"
  by (simp_all add: gap_duplicate_def set_start_def set_end_def add_mem_gap_to_gap_def)

declare place_gap.simps [simp del]

lemma adjust_times:
  assumes "adjust_gap_memory w jobs new l = Some n"
  shows "pg_start_time n = pg_start_time new \<and> pg_end_time n = pg_end_time new \<and> pg_duration n = pg_duration new \<and>
     pg_following_job n = pg_following_job new \<and> pg_usage n = pg_usage new"
  using assms by (auto simp: adjust_gap_memory_def split: option.splits)

lemma neighbour_jobs_defined: "ref \<in> pj_ref ` set jobs \<Longrightarrow> \<exists>ns. neighbour_jobs jobs ref = Some ns"
proof -
  assume "ref \<in> pj_ref ` set jobs"
  then have "dropWhile (\<lambda>j. pj_ref j \<noteq> ref) jobs \<noteq> []" by (auto simp: dropWhile_eq_Nil_conv)
  then show ?thesis by (auto simp: neighbour_jobs_def Let_def split: list.splits)
qed

lemma adjust_defined: "gap_ok jobs l \<Longrightarrow> \<exists>n. adjust_gap_memory w jobs new l = Some n"
  by (auto simp: adjust_gap_memory_def gap_ok_def dest!: neighbour_jobs_defined split: option.splits)

lemma gap_ok_copies [simp]:
  "gap_ok jobs (gap_duplicate g) = gap_ok jobs g"
  "gap_ok jobs (add_mem_gap_to_gap g h) = gap_ok jobs g"
  by (simp_all add: gap_ok_def)

lemma gap_ok_cut:
  "gap_ok jobs g \<Longrightarrow> t < pg_end_time g \<Longrightarrow> gap_ok jobs (set_start t g)"
  "gap_ok jobs g \<Longrightarrow> pg_start_time g < t \<Longrightarrow> gap_ok jobs (set_end t g)"
  by (simp_all add: gap_ok_def)

lemma gap_ok_adjust: "adjust_gap_memory w jobs new l = Some n \<Longrightarrow> gap_ok jobs n = gap_ok jobs new"
  by (drule adjust_times) (simp add: gap_ok_def)

lemma gaps_ok_append:
  "gaps_ok jobs (xs @ ys) \<longleftrightarrow> gaps_ok jobs xs \<and> gaps_ok jobs ys \<and> (\<forall>x \<in> set xs. \<forall>y \<in> set ys. gap_before x y)"
  by (auto simp: gaps_ok_def sorted_wrt_append)

lemma gaps_ok_Cons:
  "gaps_ok jobs (g # gs) \<longleftrightarrow> gap_ok jobs g \<and> gaps_ok jobs gs \<and> (\<forall>y \<in> set gs. gap_before g y)"
  by (auto simp: gaps_ok_def)

lemma gaps_ok_Nil [simp]: "gaps_ok jobs []"
  by (simp add: gaps_ok_def)

section \<open>What a list of gaps offers\<close>

text \<open>
  A quantity of a gap that survives copying, cutting and the adjustment of memory, and that adds up when gaps are joined.
\<close>

locale gap_quantity =
  fixes q :: "plan_gap \<Rightarrow> int"
  assumes q_duplicate: "q (gap_duplicate g) = q g"
    and q_cut: "q (set_start t g) = q g" "q (set_end t g) = q g"
    and q_adjust: "adjust_gap_memory w jobs new l = Some n \<Longrightarrow> q n = q new"
    and q_add: "q (add_mem_gap_to_gap g h) = q g + q h"
begin

definition offer :: "plan_gap \<Rightarrow> int \<Rightarrow> int" where
  "offer g t = (if pg_start_time g \<le> t \<and> t < pg_end_time g then q g else 0)"

definition total :: "plan_gap list \<Rightarrow> int \<Rightarrow> int" where
  "total gs t = (\<Sum>g \<leftarrow> gs. offer g t)"

lemma total_simps [simp]:
  "total [] t = 0" "total (g # gs) t = offer g t + total gs t" "total (xs @ ys) t = total xs t + total ys t"
  "total (rev xs) t = total xs t"
  by (simp_all add: total_def rev_map[symmetric])

lemma offer_duplicate [simp]: "offer (gap_duplicate g) t = offer g t"
  by (simp add: offer_def q_duplicate)

lemma offer_adjust: "adjust_gap_memory w jobs new l = Some n \<Longrightarrow> offer n t = offer new t"
  using adjust_times[of w jobs new l n] q_adjust[of w jobs new l n] by (simp add: offer_def)

lemma offer_cut:
  "pg_start_time g \<le> m \<Longrightarrow> m \<le> pg_end_time g \<Longrightarrow> offer (set_end m g) t + offer (set_start m g) t = offer g t"
  by (auto simp: offer_def q_cut)

lemma offer_add:
  "pg_start_time g = pg_start_time h \<Longrightarrow> pg_end_time g = pg_end_time h \<Longrightarrow>
     offer (add_mem_gap_to_gap g h) t = offer g t + offer h t"
  by (simp add: offer_def q_add)

lemma append_gap_total:
  assumes "gaps_ok jobs gs" "gap_ok jobs new" "gap_ok jobs l" "\<forall>g \<in> set gs. pg_end_time g \<le> pg_start_time new"
  shows "\<exists>gs'. append_gap w jobs l gs new = Some gs' \<and> gaps_ok jobs gs' \<and> total gs' t = total gs t + offer new t"
proof -
  obtain a where a: "adjust_gap_memory w jobs new l = Some a" using adjust_defined[OF assms(3)] by blast
  define n where "n = (if pg_end_time l = pg_start_time new then a else new)"
  then have n: "append_gap w jobs l gs new = Some (gs @ [gap_duplicate n])"
    and e: "n = new \<or> adjust_gap_memory w jobs new l = Some n"
    using a by (auto simp: append_gap_def)
  then have "pg_start_time n = pg_start_time new" "gap_ok jobs n" "offer n t = offer new t"
    using assms(2) offer_adjust gap_ok_adjust adjust_times by blast+
  then show ?thesis using n assms(1,4) by (auto simp: gaps_ok_append gaps_ok_Cons gap_before_def)
qed

lemma split_front_total:
  assumes "split_front bs l new = (bs1, l1, n1)" "gaps_ok jobs (rev bs @ l # as)" "gap_ok jobs new"
    "\<forall>g \<in> set bs. pg_end_time g \<le> pg_start_time new" "pg_start_time new < pg_end_time l" "pg_start_time l < pg_end_time new"
  shows "pg_start_time l1 = pg_start_time n1 \<and> pg_end_time l1 = pg_end_time l \<and> pg_end_time n1 = pg_end_time new \<and>
     gap_ok jobs n1 \<and> gaps_ok jobs (rev bs1 @ l1 # as) \<and>
     total bs1 t + offer l1 t + offer n1 t = total bs t + offer l t + offer new t"
proof -
  note simps = gaps_ok_append gaps_ok_Cons gap_before_def gap_ok_cut
  have ok: "gap_ok jobs l" using assms(2) by (simp add: simps)
  consider "pg_start_time new < pg_start_time l" | "pg_start_time l < pg_start_time new" | "pg_start_time l = pg_start_time new"
    by linarith
  then show ?thesis
  proof cases
    case 1
    then show ?thesis
      using assms ok offer_cut[of "gap_duplicate new" "pg_start_time l" t] offer_cut[of new "pg_start_time l" t]
      by (auto simp: split_front_def simps) (auto simp: offer_def q_cut q_duplicate gap_ok_def)
  next
    case 2
    then show ?thesis
      using assms ok offer_cut[of l "pg_start_time new" t]
      by (auto simp: split_front_def simps) (auto simp: offer_def q_cut q_duplicate gap_ok_def)
  next
    case 3
    then show ?thesis using assms by (auto simp: split_front_def)
  qed
qed

lemma place_gap_total:
  assumes "gaps_ok jobs (rev bs @ l # as)" "gap_ok jobs new"
    "\<forall>g \<in> set bs. pg_end_time g \<le> pg_start_time new" "pg_start_time new < pg_end_time l"
  shows "\<exists>gs'. place_gap w jobs bs l as new = Some gs' \<and> gaps_ok jobs gs' \<and>
     total gs' t = total bs t + offer l t + total as t + offer new t"
  using assms
proof (induction w jobs bs l as new rule: place_gap.induct)
  case (1 w jobs bs l as new)
  note simps = gaps_ok_append gaps_ok_Cons gap_before_def
  show ?case
  proof (cases "pg_end_time new \<le> pg_start_time l")
    case True
    then show ?thesis using 1(2-5) by (auto simp: simps gap_ok_def place_gap.simps)
  next
    case False
    obtain bs1 l1 n1 where sp: "split_front bs l new = (bs1, l1, n1)" by (cases "split_front bs l new") auto
    have st: "pg_start_time l1 = pg_start_time n1" "pg_end_time l1 = pg_end_time l" "pg_end_time n1 = pg_end_time new"
      and ok: "gap_ok jobs n1" "gaps_ok jobs (rev bs1 @ l1 # as)"
      and tot: "total bs1 t + offer l1 t + offer n1 t = total bs t + offer l t + offer new t"
      using split_front_total[OF sp 1(2-5), of t] False by auto
    note p = place_gap.simps[of w jobs bs l as new] False sp
    consider "pg_end_time l1 = pg_end_time n1" | "pg_end_time n1 < pg_end_time l1" | "pg_end_time l1 < pg_end_time n1" by linarith
    then show ?thesis
    proof cases
      case 1
      then show ?thesis using ok tot st offer_add[of l1 n1 t] by (simp add: p) (auto simp: simps)
    next
      case 2
      have "offer (add_mem_gap_to_gap (set_end (pg_end_time n1) l1) n1) t + offer (set_start (pg_end_time n1) (gap_duplicate l1)) t =
          offer l1 t + offer n1 t"
        using 2 st ok(1) by (auto simp: offer_def q_add q_cut q_duplicate gap_ok_def)
      then show ?thesis using 2 ok tot st
        by (auto simp: p simps gap_ok_cut) (auto simp: gap_ok_def)
    next
      case 3
      let ?l = "add_mem_gap_to_gap l1 n1"
      have lok: "gap_ok jobs ?l" using ok(2) by (simp add: simps)
      obtain n2 where n2: "adjust_gap_memory w jobs n1 ?l = Some n2" using adjust_defined[OF lok] by blast
      let ?n = "set_start (pg_end_time ?l) n2"
      have nok: "gap_ok jobs ?n" using 3 ok(1) gap_ok_adjust[OF n2] adjust_times[OF n2] by (simp add: gap_ok_cut)
      have off: "offer ?l t + offer ?n t = offer l1 t + offer n1 t"
        using 3 st adjust_times[OF n2] q_adjust[OF n2] lok by (auto simp: offer_def q_add q_cut gap_ok_def)
      have gok: "gaps_ok jobs (rev (?l # bs1) @ as)" using ok(2) by (auto simp: simps)
      have bef: "\<forall>g \<in> set (?l # bs1). pg_end_time g \<le> pg_start_time ?n" using gok lok ok(2) by (auto simp: simps gap_ok_def)
      have eq: "place_gap w jobs bs l as new = (case as of [] \<Rightarrow> append_gap w jobs ?l (rev bs1 @ [?l]) ?n
          | l3 # as3 \<Rightarrow> (if pg_end_time l3 \<le> pg_start_time ?n then append_gap w jobs l3 (rev bs1 @ ?l # as) ?n
                         else place_gap w jobs (?l # bs1) l3 as3 ?n))"
        using 3 n2 by (simp add: p Let_def split: list.split)
      show ?thesis
      proof (cases as)
        case Nil
        have "\<exists>gs'. append_gap w jobs ?l (rev bs1 @ [?l]) ?n = Some gs' \<and> gaps_ok jobs gs' \<and>
            total gs' t = total (rev bs1 @ [?l]) t + offer ?n t"
          by (rule append_gap_total) (use gok nok lok bef Nil in auto)
        then show ?thesis using off tot Nil eq by auto
      next
        case (Cons l3 as3)
        then have "pg_start_time ?n \<le> pg_start_time l3" "gap_ok jobs l3" using ok(2) by (auto simp: simps)
        then have later: "pg_start_time ?n < pg_end_time l3" by (simp add: gap_ok_def)
        have "\<exists>gs'. place_gap w jobs (?l # bs1) l3 as3 ?n = Some gs' \<and> gaps_ok jobs gs' \<and>
            total gs' t = total (?l # bs1) t + offer l3 t + total as3 t + offer ?n t"
          by (rule "1.IH"[OF False sp[symmetric] refl _ _ refl n2 refl Cons]) (use gok bef nok later st 3 Cons in auto)
        then show ?thesis using off tot Cons eq later by auto
      qed
    qed
  qed
qed

lemma back_to_position:
  assumes "back_to t bs l as = (bs1, l1, as1)" "gaps_ok jobs (rev bs @ l # as)" "t < pg_end_time l"
  shows "rev bs1 @ l1 # as1 = rev bs @ l # as \<and> t < pg_end_time l1 \<and> (\<forall>g \<in> set bs1. pg_end_time g \<le> t)"
  using assms
proof (induction bs arbitrary: l as)
  case (Cons p bs)
  show ?case
  proof (cases "pg_end_time p \<le> t")
    case True
    have "pg_end_time g \<le> t" if g: "g \<in> set bs" for g
      using Cons.prems(2) True g by (fastforce simp: gaps_ok_append gaps_ok_Cons gap_before_def gap_ok_def)
    then show ?thesis using True Cons.prems by auto
  qed (use Cons in auto)
qed auto

theorem insert_total:
  assumes "gaps_ok jobs gaps" "gap_ok jobs new"
  shows "\<exists>gs'. insert_new_gap w jobs gaps new = Some gs' \<and> gaps_ok jobs gs' \<and> total gs' t = total gaps t + offer new t"
proof (cases "rev gaps")
  case Nil
  then show ?thesis using assms by (simp add: insert_new_gap_def gaps_ok_Cons)
next
  case (Cons l bs)
  then have g: "gaps = rev bs @ [l]" by (simp add: rev_eq_Cons_iff)
  show ?thesis
  proof (cases "pg_end_time l \<le> pg_start_time new")
    case True
    have "\<forall>g \<in> set gaps. pg_end_time g \<le> pg_start_time new"
      using assms(1) True unfolding g by (fastforce simp: gaps_ok_append gaps_ok_Cons gap_before_def gap_ok_def)
    then show ?thesis
      using append_gap_total[OF assms, of l w t] assms(1) True Cons by (simp add: insert_new_gap_def g gaps_ok_append gaps_ok_Cons)
  next
    case False
    obtain bs1 l1 as1 where b: "back_to (pg_start_time new) bs l [] = (bs1, l1, as1)"
      by (cases "back_to (pg_start_time new) bs l []") auto
    note pos = back_to_position[OF b, of jobs] assms(1) False
    have eq: "rev bs1 @ l1 # as1 = gaps" and p: "pg_start_time new < pg_end_time l1" "\<forall>g \<in> set bs1. pg_end_time g \<le> pg_start_time new"
      using pos unfolding g by auto
    have "total gaps t = total bs1 t + offer l1 t + total as1 t" unfolding eq[symmetric] by simp
    then show ?thesis
      using place_gap_total[of jobs bs1 l1 as1 new w t] assms eq p b Cons False by (auto simp: insert_new_gap_def)
  qed
qed

end

section \<open>Processors of a gap\<close>

definition gap_cpus :: "nat \<Rightarrow> plan_gap \<Rightarrow> int" where
  "gap_cpus a g = (\<Sum>m \<leftarrow> pg_nodes_memory g. if gm_ninfo m = a then gm_num_cpus m else 0)"

lemma add_mem_cpus:
  "(\<Sum>m \<leftarrow> add_mem e ms. if gm_ninfo m = a then gm_num_cpus m else 0) =
   (\<Sum>m \<leftarrow> ms. if gm_ninfo m = a then gm_num_cpus m else 0) + (if gm_ninfo e = a then gm_num_cpus e else 0)"
  by (induction ms) auto

lemma fold_add_mem_cpus:
  "(\<Sum>m \<leftarrow> fold add_mem es ms. if gm_ninfo m = a then gm_num_cpus m else 0) =
   (\<Sum>m \<leftarrow> ms. if gm_ninfo m = a then gm_num_cpus m else 0) + (\<Sum>m \<leftarrow> es. if gm_ninfo m = a then gm_num_cpus m else 0)"
  by (induction es arbitrary: ms) (simp_all add: add_mem_cpus)

lemma charge_keeps: "gm_ninfo (charge_node w job node m) = gm_ninfo m" "gm_num_cpus (charge_node w job node m) = gm_num_cpus m"
  by (simp_all add: charge_node_def Let_def)

lemma charge_nodes_keep:
  "gm_ninfo (fold (charge_node w job) ns m) = gm_ninfo m" "gm_num_cpus (fold (charge_node w job) ns m) = gm_num_cpus m"
  by (induction ns arbitrary: m) (simp_all add: charge_keeps)

lemma charge_jobs_keep:
  "map gm_ninfo (fold (charge_job w) js ms) = map gm_ninfo ms \<and> map gm_num_cpus (fold (charge_job w) js ms) = map gm_num_cpus ms"
  by (induction js arbitrary: ms) (simp_all add: charge_job_def charge_nodes_keep o_def)

text \<open>The processors of a node in a list of entries are a function of the nodes and the counts alone.\<close>

lemma cpus_cong:
  assumes "map gm_ninfo ms = map gm_ninfo ns" "map gm_num_cpus ms = map gm_num_cpus ns"
  shows "(\<Sum>m \<leftarrow> ms. if gm_ninfo m = a then gm_num_cpus m else 0) = (\<Sum>m \<leftarrow> ns. if gm_ninfo m = a then gm_num_cpus m else 0)"
  using assms
proof (induction ms arbitrary: ns)
  case (Cons m ms)
  then show ?case by (cases ns) simp_all
qed simp

lemma gap_cpus_duplicate [simp]: "gap_cpus a (gap_duplicate g) = gap_cpus a g"
  unfolding gap_cpus_def by (rule cpus_cong) (simp_all add: gap_duplicate_def o_def)

interpretation usage: gap_quantity pg_usage
  by unfold_locales (simp_all add: gap_duplicate_def set_start_def set_end_def add_mem_gap_to_gap_def adjust_times)

interpretation cpus: gap_quantity "gap_cpus a" for a
proof unfold_locales
  fix w jobs new l n
  assume "adjust_gap_memory w jobs new l = Some n"
  then have "n = new \<or> (\<exists>ns. n = new\<lparr>pg_nodes_memory :=
      fold (charge_job w) ns (map (\<lambda>m. m\<lparr>gm_updated := False\<rparr>) (pg_nodes_memory new))\<rparr>)"
    unfolding adjust_gap_memory_def by (cases "pg_following_job l") auto
  then have "map gm_ninfo (pg_nodes_memory n) = map gm_ninfo (pg_nodes_memory new) \<and>
      map gm_num_cpus (pg_nodes_memory n) = map gm_num_cpus (pg_nodes_memory new)"
    by (elim disjE exE) (simp_all add: charge_jobs_keep o_def)
  then show "gap_cpus a n = gap_cpus a new" unfolding gap_cpus_def by (intro cpus_cong) blast+
qed (simp_all, simp_all add: gap_cpus_def set_start_def set_end_def add_mem_gap_to_gap_def fold_add_mem_cpus)

text \<open>The contract of a list of gaps: the processors it offers at a time, all together and on a node.\<close>

definition offered :: "plan_gap list \<Rightarrow> int \<Rightarrow> int" where
  "offered gaps t = (\<Sum>g \<leftarrow> gaps. if pg_start_time g \<le> t \<and> t < pg_end_time g then pg_usage g else 0)"

definition offered_on :: "nat \<Rightarrow> plan_gap list \<Rightarrow> int \<Rightarrow> int" where
  "offered_on a gaps t = (\<Sum>g \<leftarrow> gaps. if pg_start_time g \<le> t \<and> t < pg_end_time g then gap_cpus a g else 0)"

lemma offered_total: "usage.total gaps t = offered gaps t" "cpus.total a gaps t = offered_on a gaps t"
  by (simp_all add: usage.total_def usage.offer_def offered_def cpus.total_def cpus.offer_def offered_on_def)

lemma offered_Nil [simp]: "offered [] t = 0" "offered_on a [] t = 0"
  by (simp_all add: offered_def offered_on_def)

lemma insert_offers:
  assumes "gaps_ok jobs gaps" "gap_ok jobs new"
  shows "\<exists>gaps'. insert_new_gap w jobs gaps new = Some gaps' \<and> gaps_ok jobs gaps' \<and>
    (\<forall>t. offered gaps' t = offered gaps t + offered [new] t) \<and>
    (\<forall>a t. offered_on a gaps' t = offered_on a gaps t + offered_on a [new] t)"
proof -
  obtain gaps' where i: "insert_new_gap w jobs gaps new = Some gaps'" "gaps_ok jobs gaps'"
    using usage.insert_total[OF assms] by blast
  have "offered gaps' t = offered gaps t + offered [new] t" for t
    using usage.insert_total[OF assms, of w t] i(1) usage.total_simps(2)[of new "[]" t] by (auto simp: offered_total)
  moreover have "offered_on a gaps' t = offered_on a gaps t + offered_on a [new] t" for a t
    using cpus.insert_total[OF assms, of w a t] i(1) cpus.total_simps(2)[of a new "[]" t] by (auto simp: offered_total)
  ultimately show ?thesis using i by blast
qed

text \<open>A gap made of slots counts every slot once, for its node.\<close>

lemma bump_slots_cpus:
  "distinct (map gm_ninfo ms) \<Longrightarrow>
     (\<Sum>m \<leftarrow> map (bump_slot s) ms. if gm_ninfo m = a then gm_num_cpus m else 0) =
     (\<Sum>m \<leftarrow> ms. if gm_ninfo m = a then gm_num_cpus m else 0) + (if fs_ninfo s = a \<and> a \<in> gm_ninfo ` set ms then 1 else 0)"
  by (induction ms) (auto simp: bump_slot_def)

lemma bump_slot_ninfo [simp]: "gm_ninfo (bump_slot s m) = gm_ninfo m"
  by (simp add: bump_slot_def)

lemma count_slot_cpus:
  assumes "distinct (map gm_ninfo ms)"
  shows "distinct (map gm_ninfo (count_slot s ms)) \<and>
     (\<Sum>m \<leftarrow> count_slot s ms. if gm_ninfo m = a then gm_num_cpus m else 0) =
     (\<Sum>m \<leftarrow> ms. if gm_ninfo m = a then gm_num_cpus m else 0) + (if fs_ninfo s = a then 1 else 0)"
proof (cases "\<exists>m \<in> set ms. gm_ninfo m = fs_ninfo s")
  case True
  then have "fs_ninfo s = a \<Longrightarrow> a \<in> gm_ninfo ` set ms" by force
  moreover have "count_slot s ms = map (bump_slot s) ms" "map gm_ninfo (map (bump_slot s) ms) = map gm_ninfo ms"
    using True by (simp_all add: count_slot_def o_def)
  ultimately show ?thesis using bump_slots_cpus[OF assms, of a s] assms by presburger
next
  case False
  then show ?thesis using assms by (auto simp: count_slot_def)
qed

lemma count_slots_cpus:
  assumes "distinct (map gm_ninfo ms)"
  shows "distinct (map gm_ninfo (fold count_slot slots ms)) \<and>
     (\<Sum>m \<leftarrow> fold count_slot slots ms. if gm_ninfo m = a then gm_num_cpus m else 0) =
     (\<Sum>m \<leftarrow> ms. if gm_ninfo m = a then gm_num_cpus m else 0) + int (length (filter (\<lambda>s. fs_ninfo s = a) slots))"
  using assms
proof (induction slots arbitrary: ms)
  case (Cons s slots)
  show ?case using Cons.IH[of "count_slot s ms"] count_slot_cpus[OF Cons.prems, of s a] by simp
qed simp

lemma gap_of_slots_cpus:
  "pg_usage (gap_of_slots slots g) = int (length slots) \<and>
   gap_cpus a (gap_of_slots slots g) = int (length (filter (\<lambda>s. fs_ninfo s = a) slots)) \<and>
   distinct (map gm_ninfo (pg_nodes_memory (gap_of_slots slots g)))"
  using count_slots_cpus[of "[]" slots a] by (simp add: gap_of_slots_def gap_cpus_def)

section \<open>How often a request fits\<close>

lemma c_div_fits:
  fixes a b k :: int
  assumes "0 < b" "1 \<le> k"
  shows "k \<le> c_div a b \<longleftrightarrow> k * b \<le> a"
proof (cases "0 \<le> a")
  case True
  have "k * b \<le> a" if "k \<le> a div b"
  proof -
    have "k * b \<le> a div b * b" using that assms(1) by (simp add: mult_right_mono)
    also have "\<dots> \<le> a" using assms(1) by (simp add: minus_mod_eq_div_mult[symmetric])
    finally show ?thesis .
  qed
  moreover have "k \<le> a div b" if "k * b \<le> a"
    using zdiv_mono1[OF that assms(1)] assms(1) by simp
  ultimately show ?thesis using True by (auto simp: c_div_def)
next
  case False
  then have "0 \<le> - a div b" using assms(1) by (simp add: pos_imp_zdiv_nonneg_iff)
  moreover have "0 < k * b" using assms by simp
  ultimately show ?thesis using False assms(2) by (simp add: c_div_def)
qed

text \<open>The number is the largest: a positive number of requests is within it just when processors, memory and scratch suffice.\<close>

lemma check_node_largest:
  assumes "find (\<lambda>m. gm_ninfo m = a) (pg_nodes_memory g) = Some m" "0 < req_usage"
  shows "\<exists>n. check_node_in_gap g a req_usage req_mem req_scratch = Some n \<and>
     (\<forall>k \<ge> 1. k \<le> n \<longleftrightarrow> k * req_usage \<le> gm_num_cpus m \<and> (0 < req_mem \<longrightarrow> k * req_mem \<le> gm_available_mem m) \<and>
        (0 < req_scratch \<longrightarrow> k * req_scratch \<le> gm_available_scratch_local m))"
proof -
  let ?u = "c_div (gm_num_cpus m) req_usage" and ?m = "c_div (gm_available_mem m) req_mem"
    and ?s = "c_div (gm_available_scratch_local m) req_scratch"
  obtain n where n: "check_node_in_gap g a req_usage req_mem req_scratch = Some n"
    and least: "k \<le> n \<longleftrightarrow> k \<le> ?u \<and> (0 < req_mem \<longrightarrow> k \<le> ?m) \<and> (0 < req_scratch \<longrightarrow> k \<le> ?s)" for k
    using assms by (simp add: check_node_in_gap_def Let_def) (smt (verit))
  have "k \<le> n \<longleftrightarrow> k * req_usage \<le> gm_num_cpus m \<and> (0 < req_mem \<longrightarrow> k * req_mem \<le> gm_available_mem m) \<and>
      (0 < req_scratch \<longrightarrow> k * req_scratch \<le> gm_available_scratch_local m)" if "1 \<le> k" for k
    unfolding least using c_div_fits[OF _ that] assms(2) by blast
  then show ?thesis using n by blast
qed

section \<open>The gaps behind the planned jobs\<close>

text \<open>What the scan knows after \<open>i\<close> slots.\<close>

definition scanned :: "first_free_slot list \<Rightarrow> bool list \<Rightarrow> nat \<Rightarrow> int \<Rightarrow> nat option \<Rightarrow> bool" where
  "scanned slots taken i m result \<longleftrightarrow> (\<forall>j < i. \<not> taken ! j \<longrightarrow> m \<le> fs_time (slots ! j)) \<and>
     (case result of None \<Rightarrow> m = LONG_MAX
      | Some k \<Rightarrow> k < i \<and> \<not> taken ! k \<and> fs_time (slots ! k) = m \<and> m < LONG_MAX)"

lemma smallest_loop_scans:
  assumes "length taken = length slots" "i \<le> length slots" "scanned slots taken i m result" "m \<le> LONG_MAX"
  shows "\<exists>m'. scanned slots taken (length slots) m' (smallest_loop i (drop i slots) (drop i taken) m result)"
  using assms
proof (induction "length slots - i" arbitrary: i m result)
  case 0
  then show ?case by auto
next
  case (Suc n)
  then have i: "i < length slots" by simp
  then have d: "drop i slots = slots ! i # drop (Suc i) slots" "drop i taken = taken ! i # drop (Suc i) taken"
    using assms(1) by (simp_all add: Cons_nth_drop_Suc)
  let ?b = "fs_time (slots ! i) < m \<and> \<not> taken ! i"
  have "scanned slots taken (Suc i) (if ?b then fs_time (slots ! i) else m) (if ?b then Some i else result)"
    using Suc.prems(3,4) by (auto simp: scanned_def less_Suc_eq split: option.splits)
  then have "\<exists>m'. scanned slots taken (length slots) m' (smallest_loop (Suc i) (drop (Suc i) slots) (drop (Suc i) taken)
      (if ?b then fs_time (slots ! i) else m) (if ?b then Some i else result))"
    using Suc.hyps i Suc.prems(1,4) by auto
  then show ?case unfolding d by (auto split: if_splits)
qed

lemma gaps_ith_smallest_spec:
  assumes "length taken = length slots"
  shows "(\<exists>r. gaps_ith_smallest slots taken = (Some r, taken[r := True]) \<and> r < length slots \<and> \<not> taken ! r \<and>
       (\<forall>j < length slots. \<not> taken ! j \<longrightarrow> fs_time (slots ! r) \<le> fs_time (slots ! j))) \<or>
     (gaps_ith_smallest slots taken = (None, taken) \<and> (\<forall>j < length slots. \<not> taken ! j \<longrightarrow> LONG_MAX \<le> fs_time (slots ! j)))"
proof -
  have "scanned slots taken 0 LONG_MAX None" by (simp add: scanned_def)
  then obtain m where "scanned slots taken (length slots) m (smallest_loop 0 slots taken LONG_MAX None)"
    using smallest_loop_scans[of taken slots 0 LONG_MAX None] assms by auto
  then show ?thesis
    by (cases "smallest_loop 0 slots taken LONG_MAX None") (auto simp: scanned_def gaps_ith_smallest_def)
qed

text \<open>
  A gap behind the jobs offers, on every node in service, the processors whose slot is free when the gap starts; a slot
  of time \<open>-1\<close> counts as free.
\<close>

definition free_at :: "world \<Rightarrow> first_free_slot list \<Rightarrow> int \<Rightarrow> nat \<Rightarrow> nat" where
  "free_at w slots t a = length (filter (\<lambda>s. fs_ninfo s = a \<and> fs_time s \<le> t \<and> \<not> out_of_service w a) slots)"

definition tail_inv :: "world \<Rightarrow> plan_job list \<Rightarrow> first_free_slot list \<Rightarrow> int \<Rightarrow> int \<times> bool list \<times> plan_gap list \<Rightarrow> bool" where
  "tail_inv w jobs slots max_completion = (\<lambda>(start, taken, gaps).
     length taken = length slots \<and> -1 \<le> start \<and>
     (\<forall>i < length slots. if taken ! i then fs_time (slots ! i) \<le> start else start \<le> fs_time (slots ! i) \<and> 0 \<le> fs_time (slots ! i)) \<and>
     gaps_ok jobs gaps \<and>
     (\<forall>g \<in> set gaps. -1 \<le> pg_start_time g \<and> pg_end_time g \<le> start \<and> pg_end_time g \<le> max_completion \<and>
        (\<forall>a. gap_cpus a g = int (free_at w slots (pg_start_time g) a))))"

lemma tail_gap:
  assumes inv: "tail_inv w jobs slots mc (start, taken, gaps)" and i: "i < length slots" "\<not> taken ! i"
    and least: "\<forall>j < length slots. \<not> taken ! j \<longrightarrow> fs_time (slots ! i) \<le> fs_time (slots ! j)"
    and e: "e = min (fs_time (slots ! i)) mc" "start < e"
    and g: "g = gap_memory_create_last w (gap_fillin start e (e - start) 0 None) slots"
  shows "gap_ok jobs g \<and> pg_start_time g = start \<and> pg_end_time g = e \<and> gap_cpus a g = int (free_at w slots start a)"
proof -
  have eq: "fs_time s < e \<longleftrightarrow> fs_time s \<le> start" if s: "s \<in> set slots" for s
  proof -
    obtain j where j: "j < length slots" "s = slots ! j" using s by (auto simp: in_set_conv_nth)
    then show ?thesis using inv least e by (cases "taken ! j") (force simp: tail_inv_def)+
  qed
  have "filter (\<lambda>s. fs_ninfo s = a) (filter (\<lambda>s. fs_time s < e \<and> \<not> out_of_service w (fs_ninfo s)) slots) =
      filter (\<lambda>s. fs_ninfo s = a \<and> fs_time s \<le> start \<and> \<not> out_of_service w a) slots"
    unfolding filter_filter by (rule filter_cong[OF refl]) (auto simp: eq)
  moreover have "pg_end_time (gap_fillin start e (e - start) 0 None) = e" by (simp add: gap_fillin_def)
  ultimately have "gap_cpus a g = int (free_at w slots start a)"
    unfolding g gap_memory_create_last_def by (simp only: gap_of_slots_cpus free_at_def)
  moreover have "gap_ok jobs g \<and> pg_start_time g = start \<and> pg_end_time g = e"
    using e(2) unfolding g gap_memory_create_last_def by (simp add: gap_ok_def gap_of_slots_def gap_fillin_def)
  ultimately show ?thesis by blast
qed

lemma next_gap_inv:
  assumes "tail_inv w jobs slots mc st"
  shows "tail_inv w jobs slots mc (next_gap w slots mc st)"
proof -
  obtain start taken gaps where st: "st = (start, taken, gaps)" by (cases st) auto
  note inv = assms[unfolded st]
  have len: "length taken = length slots" using inv by (simp add: tail_inv_def)
  consider r where "gaps_ith_smallest slots taken = (Some r, taken[r := True])" "r < length slots" "\<not> taken ! r"
      "\<forall>j < length slots. \<not> taken ! j \<longrightarrow> fs_time (slots ! r) \<le> fs_time (slots ! j)"
    | "gaps_ith_smallest slots taken = (None, taken)"
    using gaps_ith_smallest_spec[OF len] by blast
  then show ?thesis
  proof cases
    case 2
    then show ?thesis using inv by (simp add: next_gap_def st)
  next
    case 1
    let ?t = "fs_time (slots ! r)" and ?e = "min (fs_time (slots ! r)) mc"
    have t: "start \<le> ?t" "0 \<le> ?t" using inv 1 by (auto simp: tail_inv_def)
    have marks: "if taken[r := True] ! i then fs_time (slots ! i) \<le> ?t else ?t \<le> fs_time (slots ! i) \<and> 0 \<le> fs_time (slots ! i)"
      if i: "i < length slots" for i
    proof (cases "i = r")
      case False
      have "if taken ! i then fs_time (slots ! i) \<le> start else 0 \<le> fs_time (slots ! i)" using inv i by (simp add: tail_inv_def split: if_splits)
      then show ?thesis using 1(4) i t False by (auto split: if_splits)
    qed (use i len in simp)
    have "tail_inv w jobs slots mc (?t, taken[r := True], gaps)"
      using inv marks t len by (fastforce simp: tail_inv_def)
    moreover have "tail_inv w jobs slots mc (?t, taken[r := True], gaps @
        [gap_memory_create_last w (gap_fillin start ?e (?e - start) 0 None) slots])" if e: "start < ?e"
      using tail_gap[OF inv 1(2,3,4) refl e refl] inv marks t len
      by (fastforce simp: tail_inv_def gaps_ok_append gaps_ok_Cons gap_before_def)
    ultimately show ?thesis using 1 t by (auto simp: next_gap_def st Let_def)
  qed
qed

lemma gaps_behind_jobs:
  assumes "\<forall>s \<in> set slots. -1 \<le> fs_time s"
  shows "gaps_ok jobs (gap_create_not_the_last w slots mc) \<and>
    (\<forall>g \<in> set (gap_create_not_the_last w slots mc). -1 \<le> pg_start_time g \<and> pg_end_time g \<le> mc \<and>
       (\<forall>a. gap_cpus a g = int (free_at w slots (pg_start_time g) a)))"
proof -
  have "tail_inv w jobs slots mc ((next_gap w slots mc ^^ n) (-1, map (\<lambda>s. fs_time s = -1) slots, []))" for n
  proof (induction n)
    case 0
    have "-1 \<le> fs_time (slots ! i) \<and> (fs_time (slots ! i) \<noteq> -1 \<longrightarrow> 0 \<le> fs_time (slots ! i))" if i: "i < length slots" for i
    proof -
      have "-1 \<le> fs_time (slots ! i)" using assms i by auto
      then show ?thesis by presburger
    qed
    then show ?case by (auto simp: tail_inv_def)
  qed (simp add: next_gap_inv)
  from this[of "length slots"] show ?thesis unfolding gap_create_not_the_last_def
    by (cases "(next_gap w slots mc ^^ length slots) (-1, map (\<lambda>s. fs_time s = -1) slots, [])")
      (simp add: tail_inv_def)
qed

end
