(* ===== verification/PlanLimits.thy ===== *)
theory PlanLimits
  imports PlanGaps
begin

text \<open>
  Limits of the plan: \<open>src/plan_limits.cpp\<close>.  A list of limits is a step function of time: every entry holds, for
  the accounts that have jobs then, the processors in use per class of walltime, and is valid until the next entry.
  The lists are sequences, as PlanList justifies; the vectors \<open>limits_values\<close> and the table of accounts are
  arguments.  \<open>None\<close> is an access outside an array, a null pointer or an uninitialised pointer.

  The contract of a list of limits is the number of processors in use at a time.  Adding a job adds its
  processors between its start and its completion and nowhere else, which holds although the search for accounts may
  fail; the check of a gap and the adjustment of the start time keep the global limit at every time of the job.
\<close>

section \<open>Data\<close>

definition NUM_LIMITS :: nat where
  "NUM_LIMITS = 8"

record plan_limit_account =
  la_account_id :: int
  la_num_cpus :: "int list"

record plan_limit =
  lm_timestamp :: int
  lm_accounts :: "plan_limit_account list"

record limit_values =
  lv_values :: "int list"
  lv_values_global :: "int list"

section \<open>Accounts\<close>

definition set_and_get_account_id :: "string list \<Rightarrow> string \<Rightarrow> string list \<times> nat" where
  "set_and_get_account_id accounts account =
     (let i = length (takeWhile (\<lambda>a. a \<noteq> account) accounts)
      in if i < length accounts then (accounts, i) else (accounts @ [account], length accounts))"

definition limit_create :: "int \<Rightarrow> plan_limit" where
  "limit_create timestamp = \<lparr>lm_timestamp = timestamp, lm_accounts = []\<rparr>"

definition new_account :: "int \<Rightarrow> plan_limit_account" where
  "new_account account_id = \<lparr>la_account_id = account_id, la_num_cpus = replicate NUM_LIMITS 0\<rparr>"

text \<open>
  The loop shifts the accounts with a greater number while \<open>new_position - 1 > 0\<close>, so the first account is never moved.
\<close>

definition limit_add_account :: "plan_limit \<Rightarrow> int \<Rightarrow> plan_limit \<times> nat" where
  "limit_add_account l account_id =
     (case lm_accounts l of
        [] \<Rightarrow> (l\<lparr>lm_accounts := [new_account account_id]\<rparr>, 0)
      | a # as \<Rightarrow>
          (let n = length (dropWhile (\<lambda>x. account_id < la_account_id x) (rev as))
           in (l\<lparr>lm_accounts := a # take n as @ new_account account_id # drop n as\<rparr>, Suc n)))"

function bin_search_account :: "plan_limit_account list \<Rightarrow> int \<Rightarrow> int \<Rightarrow> int \<Rightarrow> int" where
  "bin_search_account accounts a b account_id =
     (if b < a then -1
      else (let middle = (a + b) div 2; m = la_account_id (accounts ! nat middle)
            in if m = account_id then middle
               else if a = b then -1
               else if m < account_id then bin_search_account accounts (middle + 1) b account_id
               else bin_search_account accounts a (middle - 1) account_id))"
  by pat_completeness auto

termination bin_search_account
  by (relation "measure (\<lambda>(as, a, b, i). nat (b - a + 1))") (auto simp: Let_def)

declare bin_search_account.simps [simp del]

definition limit_find_account :: "plan_limit \<Rightarrow> int \<Rightarrow> int" where
  "limit_find_account l account_id =
     (let as = lm_accounts l
      in if as = [] then -1
         else if account_id < la_account_id (hd as) \<or> la_account_id (last as) < account_id then -1
         else bin_search_account as 0 (int (length as) - 1) account_id)"

section \<open>Limits of a cluster\<close>

text \<open>The entry of the greatest number of processors the cluster reaches; \<open>None\<close> when the pointer stays uninitialised.\<close>

definition find_limits_for_cluster :: "config \<Rightarrow> string \<Rightarrow> int \<Rightarrow> cluster_limits option" where
  "find_limits_for_cluster conf cluster running_cpus =
     (case or_else (cf_limits_for_clusters conf cluster) (cf_limits_for_clusters conf []) of
        None \<Rightarrow> None
      | Some table \<Rightarrow> map_option snd (find (\<lambda>e. fst e \<le> running_cpus) (rev table)))"

definition cluster_limits_of :: "config \<Rightarrow> plan_cluster \<Rightarrow> cluster_limits option" where
  "cluster_limits_of conf cl = find_limits_for_cluster conf (pc_cluster_name cl) (pc_num_running_cpus cl)"

definition walltime_suits_to_limit :: "config \<Rightarrow> int \<Rightarrow> plan_cluster \<Rightarrow> nat option" where
  "walltime_suits_to_limit conf walltime cl =
     map_option (\<lambda>l. length (takeWhile (\<lambda>t. t < to_sint walltime) (cl_tresholds l))) (cluster_limits_of conf cl)"

definition to_int :: "rat \<Rightarrow> int" where
  "to_int x = (if 0 \<le> x then \<lfloor>x\<rfloor> else \<lceil>x\<rceil>)"

text \<open>Without thresholds the loop does not run and the values of the cluster before stay.\<close>

definition update_limits_values :: "config \<Rightarrow> plan_cluster \<Rightarrow> limit_values \<Rightarrow> limit_values option" where
  "update_limits_values conf cl v =
     (case cluster_limits_of conf cl of
        None \<Rightarrow> None
      | Some l \<Rightarrow>
          (let n = length (cl_tresholds l); part = (\<lambda>p. to_int (of_int (pc_num_running_cpus cl) * p))
           in if n = 0 then Some v
              else if length (cl_percentages l) < n \<or> length (cl_percentages_global l) < n then None
              else Some \<lparr>lv_values = map part (take n (cl_percentages l)),
                         lv_values_global = map part (take n (cl_percentages_global l))\<rparr>))"

section \<open>Adding jobs\<close>

definition add_cpus :: "nat \<Rightarrow> int \<Rightarrow> plan_limit_account \<Rightarrow> plan_limit_account" where
  "add_cpus c n a = a\<lparr>la_num_cpus := (la_num_cpus a)[c := la_num_cpus a ! c + n]\<rparr>"

text \<open>The account, found or added, and its class of walltime; a class outside the array is \<open>None\<close>.\<close>

definition add_limit_to_limit :: "config \<Rightarrow> plan_cluster \<Rightarrow> int \<Rightarrow> int \<Rightarrow> int \<Rightarrow> plan_limit \<Rightarrow> plan_limit option" where
  "add_limit_to_limit conf cl account_id walltime num_cpus l =
     (let i = limit_find_account l account_id;
          (l1, k) = (if i = -1 then limit_add_account l account_id else (l, nat i))
      in case walltime_suits_to_limit conf walltime cl of
           None \<Rightarrow> None
         | Some c \<Rightarrow> if NUM_LIMITS \<le> c then None
                     else Some (l1\<lparr>lm_accounts := (lm_accounts l1)[k := add_cpus c num_cpus (lm_accounts l1 ! k)]\<rparr>))"

definition clone_limit :: "plan_limit \<Rightarrow> int \<Rightarrow> plan_limit" where
  "clone_limit l new_timestamp = (limit_create new_timestamp)\<lparr>lm_accounts := lm_accounts l\<rparr>"

fun clone_limit_timestamp :: "plan_limit list \<Rightarrow> int \<Rightarrow> plan_limit list" where
  "clone_limit_timestamp [] t = []"
| "clone_limit_timestamp [l] t = (if lm_timestamp l < t then [l, limit_create t] else [l])"
| "clone_limit_timestamp (l # m # ls) t =
     (if lm_timestamp l = t then l # m # ls
      else if lm_timestamp l < t \<and> t < lm_timestamp m then l # clone_limit l t # m # ls
      else l # clone_limit_timestamp (m # ls) t)"

fun each_limit :: "(plan_limit \<Rightarrow> plan_limit option) \<Rightarrow> plan_limit list \<Rightarrow> plan_limit list option" where
  "each_limit f [] = Some []"
| "each_limit f (l # ls) =
     (case f l of None \<Rightarrow> None | Some l' \<Rightarrow> map_option (\<lambda>ls'. l' # ls') (each_limit f ls))"

definition job_cpus :: "plan_job \<Rightarrow> int" where
  "job_cpus job = pj_req_ppn job * pj_req_num_nodes job"

text \<open>The entries for the start and the completion of a job.\<close>

definition limit_times :: "plan_job \<Rightarrow> plan_limit list \<Rightarrow> plan_limit list" where
  "limit_times job limits =
     (let s = pj_start_time job; e = pj_completion_time job;
          l1 = (if limits = [] then [limit_create e] else limits);
          l2 = (if s < lm_timestamp (hd l1) then limit_create s # l1 else l1);
          l3 = (if s \<in> lm_timestamp ` set l2 then l2 else clone_limit_timestamp l2 s)
      in if e \<in> lm_timestamp ` set l2 then l3 else clone_limit_timestamp l3 e)"

definition add_job_to_limits :: "config \<Rightarrow> plan_cluster \<Rightarrow> plan_job \<Rightarrow> plan_limit list \<Rightarrow> plan_limit list option" where
  "add_job_to_limits conf cl job limits =
     each_limit (\<lambda>l. if pj_start_time job \<le> lm_timestamp l \<and> lm_timestamp l < pj_completion_time job
         then add_limit_to_limit conf cl (pj_account_id job) (pj_completion_time job - pj_start_time job) (job_cpus job) l
         else Some l)
       (limit_times job limits)"

section \<open>Checks\<close>

definition sum_limits_of_limit :: "plan_limit \<Rightarrow> nat \<Rightarrow> int" where
  "sum_limits_of_limit l c = (\<Sum>a \<leftarrow> lm_accounts l. la_num_cpus a ! c)"

text \<open>An entry concerns a gap when its time is in the gap, or the gap starts before the next entry.\<close>

definition concerns_gap :: "plan_gap \<Rightarrow> plan_limit \<Rightarrow> plan_limit list \<Rightarrow> bool" where
  "concerns_gap g l later \<longleftrightarrow>
     (pg_start_time g \<le> lm_timestamp l \<and> lm_timestamp l < pg_end_time g) \<or>
     (case later of [] \<Rightarrow> False
      | m # _ \<Rightarrow> lm_timestamp l < pg_start_time g \<and> pg_start_time g < lm_timestamp m)"

definition account_exceeds :: "limit_values \<Rightarrow> nat \<Rightarrow> int \<Rightarrow> int \<Rightarrow> plan_limit \<Rightarrow> bool" where
  "account_exceeds v c account_id n l =
     (let i = limit_find_account l account_id
      in i \<noteq> -1 \<and> lv_values v ! c < la_num_cpus (lm_accounts l ! nat i) ! c + n)"

text \<open>A walltime above the last threshold has a class outside the vectors, and an account has \<open>NUM_LIMITS\<close> counts only.\<close>

definition class_readable :: "limit_values \<Rightarrow> nat \<Rightarrow> plan_limit \<Rightarrow> bool" where
  "class_readable v c l \<longleftrightarrow>
     c < length (lv_values v) \<and> c < length (lv_values_global v) \<and> (lm_accounts l = [] \<or> c < NUM_LIMITS)"

fun gap_loop :: "limit_values \<Rightarrow> nat \<Rightarrow> int \<Rightarrow> int \<Rightarrow> plan_gap \<Rightarrow> plan_limit list \<Rightarrow> bool option" where
  "gap_loop v c account_id n g [] = Some True"
| "gap_loop v c account_id n g (l # ls) =
     (if concerns_gap g l ls \<and> \<not> class_readable v c l then None
      else if concerns_gap g l ls \<and> (lv_values_global v ! c < sum_limits_of_limit l c + n \<or> account_exceeds v c account_id n l)
      then Some False else gap_loop v c account_id n g ls)"

text \<open>\<open>None\<close>: no limits for the cluster, or a read outside an array.\<close>

definition limits_is_gap_ok :: "config \<Rightarrow> limit_values \<Rightarrow> job_info \<Rightarrow> plan_limit list \<Rightarrow> plan_job \<Rightarrow> plan_gap \<Rightarrow> plan_cluster \<Rightarrow> bool option" where
  "limits_is_gap_ok conf v jinfo limits job g cl =
     (case walltime_suits_to_limit conf (get_walltime jinfo) cl of
        None \<Rightarrow> None
      | Some c \<Rightarrow>
          if length (lv_values v) \<le> c then None
          else if lv_values v ! c < job_cpus job then Some False
          else gap_loop v c (pj_account_id job) (job_cpus job) g limits)"

text \<open>The start and the completion move to the next entry whenever an entry of their time has no room.\<close>

definition concerns_job :: "int \<Rightarrow> int \<Rightarrow> plan_limit \<Rightarrow> plan_limit list \<Rightarrow> bool" where
  "concerns_job s e l later \<longleftrightarrow>
     (case later of [] \<Rightarrow> False | m # _ \<Rightarrow> lm_timestamp l \<le> s \<and> s < lm_timestamp m) \<or>
     (s < lm_timestamp l \<and> lm_timestamp l < e)"

fun adjust_loop :: "limit_values \<Rightarrow> nat \<Rightarrow> int \<Rightarrow> int \<Rightarrow> int \<Rightarrow> plan_limit list \<Rightarrow> int \<times> int \<Rightarrow> (int \<times> int) option" where
  "adjust_loop v c account_id n processing [] (s, e) = Some (s, e)"
| "adjust_loop v c account_id n processing (l # ls) (s, e) =
     (if concerns_job s e l ls \<and> \<not> class_readable v c l then None
      else if concerns_job s e l ls \<and> (lv_values_global v ! c < sum_limits_of_limit l c + n \<or> account_exceeds v c account_id n l)
      then (case ls of [] \<Rightarrow> None
            | m # _ \<Rightarrow> adjust_loop v c account_id n processing ls (lm_timestamp m, lm_timestamp m + processing))
      else adjust_loop v c account_id n processing ls (s, e))"

definition adjust_job_starttime_according_to_limits ::
  "config \<Rightarrow> limit_values \<Rightarrow> plan_cluster \<Rightarrow> plan_limit list \<Rightarrow> plan_job \<Rightarrow> plan_job option" where
  "adjust_job_starttime_according_to_limits conf v cl limits job =
     (case walltime_suits_to_limit conf (pj_estimated_processing job) cl of
        None \<Rightarrow> None
      | Some c \<Rightarrow>
          map_option (\<lambda>(s, e). job\<lparr>pj_start_time := s, pj_completion_time := e\<rparr>)
            (adjust_loop v c (pj_account_id job) (job_cpus job) (pj_estimated_processing job) limits
               (pj_start_time job, pj_completion_time job)))"

section \<open>The search for accounts\<close>

lemma bin_search_sound:
  "bin_search_account as a b x \<noteq> -1 \<Longrightarrow>
     a \<le> bin_search_account as a b x \<and> bin_search_account as a b x \<le> b \<and>
     la_account_id (as ! nat (bin_search_account as a b x)) = x"
proof (induction as a b x rule: bin_search_account.induct)
  case (1 as a b x)
  let ?m = "(a + b) div 2"
  show ?case
  proof (cases "b < a \<or> la_account_id (as ! nat ?m) = x \<or> a = b")
    case True
    then show ?thesis using 1(3) by (auto simp: bin_search_account.simps[of as a b x] Let_def split: if_splits)
  next
    case False
    then have m: "a \<le> ?m" "?m \<le> b" by auto
    show ?thesis
    proof (cases "la_account_id (as ! nat ?m) < x")
      case True
      then have e: "bin_search_account as a b x = bin_search_account as (?m + 1) b x"
        using False by (simp add: bin_search_account.simps[of as a b x] Let_def)
      have "?m + 1 \<le> bin_search_account as (?m + 1) b x \<and> bin_search_account as (?m + 1) b x \<le> b \<and>
          la_account_id (as ! nat (bin_search_account as (?m + 1) b x)) = x"
        by (rule "1.IH"(1)[OF _ refl refl]) (use False True "1.prems" e in auto)
      then show ?thesis using m unfolding e by linarith
    next
      case lt: False
      then have e: "bin_search_account as a b x = bin_search_account as a (?m - 1) x"
        using False by (simp add: bin_search_account.simps[of as a b x] Let_def)
      have "a \<le> bin_search_account as a (?m - 1) x \<and> bin_search_account as a (?m - 1) x \<le> ?m - 1 \<and>
          la_account_id (as ! nat (bin_search_account as a (?m - 1) x)) = x"
        by (rule "1.IH"(2)[OF _ refl refl]) (use False lt "1.prems" e in auto)
      then show ?thesis using m unfolding e by linarith
    qed
  qed
qed

definition accounts_sorted :: "plan_limit \<Rightarrow> bool" where
  "accounts_sorted l = sorted_wrt (<) (map la_account_id (lm_accounts l))"

lemma bin_search_complete:
  "sorted_wrt (<) (map la_account_id as) \<Longrightarrow> 0 \<le> a \<Longrightarrow> b < int (length as) \<Longrightarrow> a \<le> int k \<Longrightarrow> int k \<le> b \<Longrightarrow>
     la_account_id (as ! k) = x \<Longrightarrow> bin_search_account as a b x = int k"
proof (induction as a b x rule: bin_search_account.induct)
  case (1 as a b x)
  let ?m = "(a + b) div 2"
  have m: "a \<le> ?m" "?m \<le> b" "0 \<le> ?m" "nat ?m < length as" using 1(4-7) by auto
  have lt: "la_account_id (as ! i) < la_account_id (as ! j)" if "i < j" "j < length as" for i j
    using 1(3) that by (simp add: sorted_wrt_iff_nth_less)
  consider "k = nat ?m" | "k < nat ?m" | "nat ?m < k" by linarith
  then show ?case
  proof cases
    case 1
    then show ?thesis using m "1.prems" by (simp add: bin_search_account.simps[of as a b x] Let_def)
  next
    case 2
    then have "x < la_account_id (as ! nat ?m)" using lt[OF 2] m "1.prems" by simp
    moreover have "bin_search_account as a (?m - 1) x = int k"
      by (rule "1.IH"(2)[OF _ refl refl]) (use "1.prems" 2 m calculation in auto)
    ultimately show ?thesis using 2 m "1.prems" by (auto simp: bin_search_account.simps[of as a b x] Let_def)
  next
    case 3
    then have "la_account_id (as ! nat ?m) < x" using lt[OF 3] m "1.prems" by simp
    moreover have "bin_search_account as (?m + 1) b x = int k"
      by (rule "1.IH"(1)[OF _ refl refl]) (use "1.prems" 3 m calculation in auto)
    ultimately show ?thesis using 3 m "1.prems" by (auto simp: bin_search_account.simps[of as a b x] Let_def)
  qed
qed

lemma limit_find_sound:
  assumes "limit_find_account l x \<noteq> -1"
  shows "0 \<le> limit_find_account l x \<and> nat (limit_find_account l x) < length (lm_accounts l) \<and>
    la_account_id (lm_accounts l ! nat (limit_find_account l x)) = x"
  using assms bin_search_sound[of "lm_accounts l" 0 "int (length (lm_accounts l)) - 1" x]
  by (auto simp: limit_find_account_def Let_def split: if_splits)

lemma limit_find_iff:
  assumes "accounts_sorted l"
  shows "limit_find_account l x \<noteq> -1 \<longleftrightarrow> x \<in> la_account_id ` set (lm_accounts l)"
proof
  assume "limit_find_account l x \<noteq> -1"
  then show "x \<in> la_account_id ` set (lm_accounts l)" using limit_find_sound by (metis image_eqI nth_mem)
next
  assume "x \<in> la_account_id ` set (lm_accounts l)"
  then obtain k where k: "k < length (lm_accounts l)" "la_account_id (lm_accounts l ! k) = x" by (auto simp: in_set_conv_nth)
  have le: "la_account_id (lm_accounts l ! i) \<le> la_account_id (lm_accounts l ! j)" if "i \<le> j" "j < length (lm_accounts l)" for i j
    using assms that by (cases "i = j") (auto simp: accounts_sorted_def sorted_wrt_iff_nth_less intro: less_imp_le)
  have "la_account_id (hd (lm_accounts l)) \<le> x" "x \<le> la_account_id (last (lm_accounts l))"
    using k le[of 0 k] le[of k "length (lm_accounts l) - 1"] by (cases "lm_accounts l"; auto simp: hd_conv_nth last_conv_nth)+
  moreover have "bin_search_account (lm_accounts l) 0 (int (length (lm_accounts l)) - 1) x = int k"
    by (rule bin_search_complete) (use assms k in \<open>auto simp: accounts_sorted_def\<close>)
  ultimately show "limit_find_account l x \<noteq> -1" using k by (auto simp: limit_find_account_def Let_def)
qed

text \<open>Of two accounts added in descending order the second is never found.\<close>

lemma second_account_lost:
  assumes "b < a"
  shows "limit_find_account (fst (limit_add_account (fst (limit_add_account (limit_create t) a)) b)) b = -1"
  using assms by (simp add: limit_add_account_def limit_create_def limit_find_account_def new_account_def)

section \<open>Processors in use\<close>

definition in_use :: "(int \<Rightarrow> bool) \<Rightarrow> plan_limit \<Rightarrow> nat \<Rightarrow> int" where
  "in_use P l c = (\<Sum>a \<leftarrow> lm_accounts l. if P (la_account_id a) then la_num_cpus a ! c else 0)"

definition limit_ok :: "plan_limit \<Rightarrow> bool" where
  "limit_ok l = (\<forall>a \<in> set (lm_accounts l). length (la_num_cpus a) = NUM_LIMITS)"

lemma sum_limits_in_use: "sum_limits_of_limit l c = in_use (\<lambda>_. True) l c"
  by (simp add: sum_limits_of_limit_def in_use_def)

lemma sum_list_take_drop:
  fixes f :: "'a \<Rightarrow> int"
  shows "(\<Sum>x \<leftarrow> take n xs. f x) + (\<Sum>x \<leftarrow> drop n xs. f x) = (\<Sum>x \<leftarrow> xs. f x)"
  unfolding sum_list_append[symmetric] map_append[symmetric] append_take_drop_id ..

lemma limit_add_account_use:
  assumes "limit_add_account l x = (l', k)" "limit_ok l" "c < NUM_LIMITS"
  shows "k < length (lm_accounts l') \<and> la_account_id (lm_accounts l' ! k) = x \<and> limit_ok l' \<and>
    lm_timestamp l' = lm_timestamp l \<and> in_use P l' c = in_use P l c"
proof (cases "lm_accounts l")
  case Nil
  then show ?thesis using assms by (auto simp: limit_add_account_def new_account_def limit_ok_def in_use_def)
next
  case (Cons a as)
  let ?n = "length (dropWhile (\<lambda>x'. x < la_account_id x') (rev as))"
  have n: "?n \<le> length as" by (metis length_dropWhile_le length_rev)
  have l': "l' = l\<lparr>lm_accounts := a # take ?n as @ new_account x # drop ?n as\<rparr>" "k = Suc ?n"
    using assms(1) Cons by (auto simp: limit_add_account_def Let_def)
  have "(\<Sum>a \<leftarrow> take ?n as. if P (la_account_id a) then la_num_cpus a ! c else 0) +
      (\<Sum>a \<leftarrow> drop ?n as. if P (la_account_id a) then la_num_cpus a ! c else 0) =
      (\<Sum>a \<leftarrow> as. if P (la_account_id a) then la_num_cpus a ! c else 0)"
    by (rule sum_list_take_drop)
  then have "in_use P l' c = in_use P l c" using assms(3) Cons by (simp add: l' new_account_def in_use_def)
  moreover have "limit_ok l'" using assms(2) Cons
    by (auto simp: l' new_account_def limit_ok_def dest: in_set_takeD in_set_dropD)
  moreover have "lm_accounts l' ! k = new_account x" using n by (simp add: l' nth_append)
  ultimately show ?thesis using n by (simp add: l' new_account_def)
qed

lemma sum_list_update_one:
  fixes f :: "'a \<Rightarrow> int"
  shows "k < length xs \<Longrightarrow> (\<Sum>x \<leftarrow> xs[k := y]. f x) = (\<Sum>x \<leftarrow> xs. f x) + f y - f (xs ! k)"
  by (induction xs arbitrary: k) (auto split: nat.splits)

lemma add_limit_use:
  assumes "limit_ok l" "walltime_suits_to_limit conf walltime cl = Some c" "c < NUM_LIMITS"
  shows "\<exists>l'. add_limit_to_limit conf cl x walltime n l = Some l' \<and> limit_ok l' \<and> lm_timestamp l' = lm_timestamp l \<and>
    (\<forall>d < NUM_LIMITS. in_use P l' d = in_use P l d + (if P x \<and> d = c then n else 0))"
proof -
  let ?i = "limit_find_account l x"
  define l1 k where "l1 = fst (if ?i = -1 then limit_add_account l x else (l, nat ?i))"
    and "k = snd (if ?i = -1 then limit_add_account l x else (l, nat ?i))"
  have ok: "k < length (lm_accounts l1) \<and> la_account_id (lm_accounts l1 ! k) = x \<and> limit_ok l1 \<and>
      lm_timestamp l1 = lm_timestamp l \<and> in_use P l1 d = in_use P l d" if d: "d < NUM_LIMITS" for d
  proof (cases "?i = -1")
    case True
    then have "limit_add_account l x = (l1, k)" by (simp add: l1_def k_def)
    then show ?thesis using limit_add_account_use assms(1) d by blast
  next
    case False
    then show ?thesis using limit_find_sound[OF False] assms(1) by (simp add: l1_def k_def)
  qed
  let ?a = "lm_accounts l1 ! k"
  have len: "length (la_num_cpus ?a) = NUM_LIMITS" using ok[OF assms(3)] by (simp add: limit_ok_def)
  have use: "in_use P (l1\<lparr>lm_accounts := (lm_accounts l1)[k := add_cpus c n ?a]\<rparr>) d =
      in_use P l d + (if P x \<and> d = c then n else 0)" if d: "d < NUM_LIMITS" for d
    using ok[OF d] len d by (auto simp: in_use_def sum_list_update_one add_cpus_def)
  have "add_limit_to_limit conf cl x walltime n l = Some (l1\<lparr>lm_accounts := (lm_accounts l1)[k := add_cpus c n ?a]\<rparr>)"
    using assms(2,3) by (simp add: add_limit_to_limit_def Let_def l1_def k_def split_beta)
  moreover have "limit_ok (l1\<lparr>lm_accounts := (lm_accounts l1)[k := add_cpus c n ?a]\<rparr>)"
    using ok[OF assms(3)] len by (auto simp: limit_ok_def add_cpus_def dest!: set_update_subset_insert[THEN subsetD])
  ultimately show ?thesis using ok[OF assms(3)] use by auto
qed

section \<open>Limits as a step function\<close>

fun entry_at :: "plan_limit list \<Rightarrow> int \<Rightarrow> plan_limit option" where
  "entry_at [] t = None"
| "entry_at (l # ls) t = (if t < lm_timestamp l then None else or_else (entry_at ls t) (Some l))"

definition used_at :: "(int \<Rightarrow> bool) \<Rightarrow> plan_limit list \<Rightarrow> int \<Rightarrow> nat \<Rightarrow> int" where
  "used_at P limits t c = (case entry_at limits t of None \<Rightarrow> 0 | Some l \<Rightarrow> in_use P l c)"

definition limits_ok :: "plan_limit list \<Rightarrow> bool" where
  "limits_ok limits \<longleftrightarrow> sorted_wrt (\<lambda>l m. lm_timestamp l < lm_timestamp m) limits \<and> (\<forall>l \<in> set limits. limit_ok l) \<and>
     (limits \<noteq> [] \<longrightarrow> lm_accounts (last limits) = [])"

lemma entry_at_None: "entry_at ls t = None \<longleftrightarrow> ls = [] \<or> t < lm_timestamp (hd ls)"
  by (cases ls) auto

lemma entry_at_Some:
  assumes "entry_at ls t = Some l" "sorted_wrt (\<lambda>l m. lm_timestamp l < lm_timestamp m) ls"
  shows "l \<in> set ls \<and> lm_timestamp l \<le> t \<and> (\<forall>m \<in> set ls. lm_timestamp m \<le> t \<longrightarrow> lm_timestamp m \<le> lm_timestamp l)"
  using assms
proof (induction ls)
  case (Cons x ls)
  show ?case
  proof (cases "entry_at ls t")
    case None
    then have "ls = [] \<or> t < lm_timestamp (hd ls)" by (simp only: entry_at_None)
    then have "\<forall>m \<in> set ls. t < lm_timestamp m" using Cons.prems(2) by (cases ls) auto
    then show ?thesis using Cons.prems(1) None by (auto split: if_splits)
  next
    case (Some y)
    then have "y = l" "lm_timestamp x \<le> t" using Cons.prems(1) by (auto split: if_splits)
    then show ?thesis using Cons Some by fastforce
  qed
qed simp

lemma in_use_empty: "lm_accounts l = [] \<Longrightarrow> in_use P l c = 0"
  by (simp add: in_use_def)

lemma limits_ok_tl: "limits_ok (l # m # ls) \<longleftrightarrow> lm_timestamp l < lm_timestamp m \<and> limit_ok l \<and> limits_ok (m # ls)"
  by (auto simp: limits_ok_def)

lemma used_at_Cons2:
  "used_at P (l # m # ls) t c =
     (if t < lm_timestamp l then 0 else if t < lm_timestamp m then in_use P l c else used_at P (m # ls) t c)"
proof (cases "entry_at (m # ls) t")
  case None
  then show ?thesis by (simp add: used_at_def entry_at_None del: entry_at.simps(2)) (simp add: entry_at_None)
next
  case (Some x)
  then have "\<not> t < lm_timestamp m" by (auto split: if_splits)
  then show ?thesis using Some by (auto simp: used_at_def)
qed

lemma used_at_single: "lm_accounts l = [] \<Longrightarrow> used_at P [l] t c = 0"
  by (simp add: used_at_def in_use_empty)

lemma limit_ok_create [simp]: "limit_ok (limit_create t)" "lm_timestamp (limit_create t) = t" "lm_accounts (limit_create t) = []"
  by (simp_all add: limit_ok_def limit_create_def)

lemma clone_limit_simps [simp]:
  "limit_ok (clone_limit l t) = limit_ok l" "lm_timestamp (clone_limit l t) = t" "in_use P (clone_limit l t) c = in_use P l c"
  by (simp_all add: clone_limit_def limit_ok_def limit_create_def in_use_def)

text \<open>A new entry between others does not change what is in use at any time.\<close>

lemma clone_timestamp_keeps:
  assumes "limits_ok limits" "limits \<noteq> []" "lm_timestamp (hd limits) \<le> t"
  shows "limits_ok (clone_limit_timestamp limits t) \<and> t \<in> lm_timestamp ` set (clone_limit_timestamp limits t) \<and>
    lm_timestamp ` set limits \<subseteq> lm_timestamp ` set (clone_limit_timestamp limits t) \<and>
    hd (clone_limit_timestamp limits t) = hd limits \<and>
    (\<forall>u. used_at P (clone_limit_timestamp limits t) u c = used_at P limits u c)"
  using assms
proof (induction limits t rule: clone_limit_timestamp.induct)
  case (2 l t)
  then show ?case by (auto simp: limits_ok_def used_at_def in_use_empty)
next
  case (3 l m ls t)
  consider "lm_timestamp l = t" | "lm_timestamp l < t" "t < lm_timestamp m" | "lm_timestamp l < t" "lm_timestamp m \<le> t"
    using 3(4) by force
  then show ?case
  proof cases
    case 1
    then show ?thesis using 3(2) by auto
  next
    case 2
    then show ?thesis using 3(2) by (auto simp: limits_ok_tl used_at_Cons2)
  next
    case a: 3
    have IH: "limits_ok (clone_limit_timestamp (m # ls) t)" "t \<in> lm_timestamp ` set (clone_limit_timestamp (m # ls) t)"
      "lm_timestamp ` set (m # ls) \<subseteq> lm_timestamp ` set (clone_limit_timestamp (m # ls) t)"
      "hd (clone_limit_timestamp (m # ls) t) = m"
      "used_at P (clone_limit_timestamp (m # ls) t) u c = used_at P (m # ls) u c" for u
      using "3.IH" "3.prems"(1) a by (auto simp: limits_ok_tl)
    obtain rest where r: "clone_limit_timestamp (m # ls) t = m # rest"
      using IH(4,2) by (cases "clone_limit_timestamp (m # ls) t") auto
    then have e: "clone_limit_timestamp (l # m # ls) t = l # m # rest" using a by simp
    show ?thesis using IH "3.prems"(1) unfolding e r by (auto simp: limits_ok_tl used_at_Cons2)
  qed
qed simp

lemma front_entry:
  assumes "limits_ok ls" "ls \<noteq> []" "s < lm_timestamp (hd ls)"
  shows "limits_ok (limit_create s # ls) \<and> used_at P (limit_create s # ls) u c = used_at P ls u c"
proof -
  obtain m rest where ls: "ls = m # rest" using assms(2) by (cases ls) auto
  have "u < lm_timestamp m \<Longrightarrow> used_at P ls u c = 0" by (simp add: used_at_def ls)
  then show ?thesis using assms unfolding ls by (simp add: limits_ok_tl used_at_Cons2 in_use_empty)
qed

lemma limit_times_keeps:
  assumes "limits_ok limits" "pj_start_time job < pj_completion_time job"
  shows "limits_ok (limit_times job limits) \<and> pj_start_time job \<in> lm_timestamp ` set (limit_times job limits) \<and>
    pj_completion_time job \<in> lm_timestamp ` set (limit_times job limits) \<and>
    used_at P (limit_times job limits) u c = used_at P limits u c"
proof -
  let ?s = "pj_start_time job" and ?e = "pj_completion_time job"
  define l1 where "l1 = (if limits = [] then [limit_create ?e] else limits)"
  define l2 where "l2 = (if ?s < lm_timestamp (hd l1) then limit_create ?s # l1 else l1)"
  define l3 where "l3 = (if ?s \<in> lm_timestamp ` set l2 then l2 else clone_limit_timestamp l2 ?s)"
  have 1: "limits_ok l1" "l1 \<noteq> []" "used_at P l1 u c = used_at P limits u c"
    using assms(1) by (auto simp: l1_def limits_ok_def used_at_single used_at_def in_use_empty)
  have 2: "limits_ok l2" "l2 \<noteq> []" "lm_timestamp (hd l2) \<le> ?s" "used_at P l2 u c = used_at P l1 u c"
    using 1 front_entry[OF 1(1,2), of ?s P u c] unfolding l2_def by (auto split: if_splits)
  have 3: "limits_ok l3" "l3 \<noteq> []" "hd l3 = hd l2" "?s \<in> lm_timestamp ` set l3" "used_at P l3 u c = used_at P l2 u c"
    "lm_timestamp ` set l2 \<subseteq> lm_timestamp ` set l3"
    using clone_timestamp_keeps[OF 2(1,2,3), of P c] 2 by (auto simp: l3_def)
  have e: "limit_times job limits = (if ?e \<in> lm_timestamp ` set l2 then l3 else clone_limit_timestamp l3 ?e)"
    by (simp add: limit_times_def Let_def l1_def l2_def l3_def)
  show ?thesis
  proof (cases "?e \<in> lm_timestamp ` set l2")
    case True
    then show ?thesis unfolding e using 1 2 3 by auto
  next
    case False
    have "lm_timestamp (hd l3) \<le> ?e" using 2 3 assms(2) by simp
    from clone_timestamp_keeps[OF 3(1,2) this, of P c] show ?thesis unfolding e using False 1 2 3 by auto
  qed
qed

lemma each_limit_Some:
  assumes "\<And>l. l \<in> set ls \<Longrightarrow> f l = Some (g l)"
  shows "each_limit f ls = Some (map g ls)"
  using assms by (induction ls) auto

lemma entry_at_map:
  "(\<And>l. lm_timestamp (g l) = lm_timestamp l) \<Longrightarrow> entry_at (map g ls) t = map_option g (entry_at ls t)"
  by (induction ls) (auto simp: map_option_or_else)

lemma last_latest:
  "sorted_wrt (\<lambda>l m. lm_timestamp l < lm_timestamp m) ls \<Longrightarrow> m \<in> set ls \<Longrightarrow> lm_timestamp m \<le> lm_timestamp (last ls)"
proof (induction ls)
  case (Cons l ls)
  then show ?case using last_in_set[of ls] by (cases "ls = []") (auto intro: less_imp_le)
qed simp

text \<open>Adding a job raises the use between its start and its completion, for its account and its class only.\<close>

lemma add_job_to_limits_use:
  assumes "limits_ok limits" "pj_start_time job < pj_completion_time job"
    "walltime_suits_to_limit conf (pj_completion_time job - pj_start_time job) cl = Some c" "c < NUM_LIMITS"
  shows "\<exists>limits'. add_job_to_limits conf cl job limits = Some limits' \<and> limits_ok limits' \<and>
    (\<forall>P t. \<forall>d < NUM_LIMITS. used_at P limits' t d = used_at P limits t d +
       (if P (pj_account_id job) \<and> d = c \<and> pj_start_time job \<le> t \<and> t < pj_completion_time job then job_cpus job else 0))"
proof -
  let ?s = "pj_start_time job" and ?e = "pj_completion_time job" and ?x = "pj_account_id job"
  let ?in = "\<lambda>l. ?s \<le> lm_timestamp l \<and> lm_timestamp l < ?e"
  define f where "f l = add_limit_to_limit conf cl ?x (?e - ?s) (job_cpus job) l" for l
  define g where "g l = (if ?in l \<and> limit_ok l then the (f l) else l)" for l
  define ls where "ls = limit_times job limits"
  have ls: "limits_ok ls" "?s \<in> lm_timestamp ` set ls" "?e \<in> lm_timestamp ` set ls"
    and same: "used_at P ls t d = used_at P limits t d" for P t d
    using limit_times_keeps[OF assms(1,2)] by (auto simp: ls_def)
  have add: "f l = Some (the (f l)) \<and> limit_ok (the (f l)) \<and> lm_timestamp (the (f l)) = lm_timestamp l \<and>
      (\<forall>P. \<forall>d < NUM_LIMITS. in_use P (the (f l)) d = in_use P l d + (if P ?x \<and> d = c then job_cpus job else 0))"
    if l: "limit_ok l" for l
    using add_limit_use[OF l assms(3,4), of ?x "job_cpus job"] unfolding f_def by (metis option.sel)
  have g_ts: "lm_timestamp (g l) = lm_timestamp l" for l using add[of l] by (auto simp: g_def)
  have g_ok: "limit_ok l \<Longrightarrow> limit_ok (g l)" for l using add[of l] by (auto simp: g_def)
  have ok: "\<forall>l \<in> set ls. limit_ok l" and srt: "sorted_wrt (\<lambda>l m. lm_timestamp l < lm_timestamp m) ls"
    using ls(1) by (auto simp: limits_ok_def)
  have run: "add_job_to_limits conf cl job limits = Some (map g ls)"
    unfolding add_job_to_limits_def ls_def[symmetric]
    by (rule each_limit_Some) (use ok add in \<open>auto simp: g_def f_def\<close>)
  have ne: "ls \<noteq> []" using ls(2) by auto
  moreover from this have "?e \<le> lm_timestamp (last ls)" using ls(3) last_latest[OF srt] by auto
  ultimately have last: "g (last ls) = last ls" by (simp add: g_def)
  have ok': "limits_ok (map g ls)"
    using ls(1) g_ok last ne by (auto simp: limits_ok_def sorted_wrt_map g_ts last_map)
  have "used_at P (map g ls) t d = used_at P ls t d +
      (if P ?x \<and> d = c \<and> ?s \<le> t \<and> t < ?e then job_cpus job else 0)" if d: "d < NUM_LIMITS" for P t d
  proof (cases "entry_at ls t")
    case None
    then have "ls = [] \<or> t < lm_timestamp (hd ls)" by (simp only: entry_at_None)
    then have "t < ?s" using ls(2) srt by (cases ls) auto
    then show ?thesis using None by (simp add: used_at_def entry_at_map[OF g_ts])
  next
    case (Some l)
    note l = entry_at_Some[OF Some srt]
    then have "?in l \<longleftrightarrow> ?s \<le> t \<and> t < ?e" using ls(2,3) by fastforce
    moreover have "limit_ok l" using l ok by blast
    ultimately show ?thesis using Some d add[of l] by (auto simp: used_at_def entry_at_map[OF g_ts] g_def)
  qed
  then show ?thesis using run ok' same by auto
qed

section \<open>The global limit is kept\<close>

lemma gap_loop_room:
  assumes "gap_loop v c x n g limits = Some True" "sorted_wrt (\<lambda>l m. lm_timestamp l < lm_timestamp m) limits"
    "entry_at limits t = Some l" "pg_start_time g \<le> t" "t < pg_end_time g" "t < lm_timestamp (last limits)"
  shows "sum_limits_of_limit l c + n \<le> lv_values_global v ! c"
  using assms
proof (induction limits)
  case (Cons k ls)
  show ?case
  proof (cases "entry_at ls t")
    case None
    then have k: "l = k" "lm_timestamp k \<le> t" using Cons.prems(3) by (auto split: if_splits)
    have ne: "ls \<noteq> []" using k Cons.prems(6) by auto
    then have "t < lm_timestamp (hd ls)" using None by (simp add: entry_at_None)
    then have "concerns_gap g k ls" using k ne Cons.prems(4,5) by (cases ls) (auto simp: concerns_gap_def)
    then show ?thesis using Cons.prems(1) k by (auto split: if_splits)
  next
    case (Some y)
    then have "l = y" "ls \<noteq> []" using Cons.prems(3) by (auto split: if_splits)
    then show ?thesis using Cons Some by (auto split: if_splits)
  qed
qed simp

lemma adjust_loop_full:
  assumes "adjust_loop v c x n p (k # ls) (s, e) = Some r"
    "concerns_job s e k ls \<and> (lv_values_global v ! c < sum_limits_of_limit k c + n \<or> account_exceeds v c x n k)"
  obtains m rest where "ls = m # rest" "adjust_loop v c x n p ls (lm_timestamp m, lm_timestamp m + p) = Some r"
proof (cases ls)
  case Nil
  then show ?thesis using assms by (auto split: if_splits)
next
  case (Cons m rest)
  have "class_readable v c k" using assms by (auto split: if_splits)
  then have "adjust_loop v c x n p ls (lm_timestamp m, lm_timestamp m + p) = Some r"
    using assms unfolding Cons by (subst (asm) adjust_loop.simps(2)) (simp del: adjust_loop.simps)
  then show ?thesis using that Cons by blast
qed

lemma adjust_loop_free:
  assumes "adjust_loop v c x n p (k # ls) (s, e) = Some r"
    "\<not> (concerns_job s e k ls \<and> (lv_values_global v ! c < sum_limits_of_limit k c + n \<or> account_exceeds v c x n k))"
  shows "adjust_loop v c x n p ls (s, e) = Some r"
  using assms by (auto split: if_splits)

lemma adjust_loop_moves:
  "adjust_loop v c x n p ls (s, e) = Some (s', e') \<Longrightarrow> s' = s \<and> e' = e \<or> s' \<in> lm_timestamp ` set ls"
proof (induction ls arbitrary: s e)
  case (Cons k ls)
  show ?case
  proof (cases "concerns_job s e k ls \<and> (lv_values_global v ! c < sum_limits_of_limit k c + n \<or> account_exceeds v c x n k)")
    case True
    from adjust_loop_full[OF Cons.prems this] obtain m rest
      where ls: "ls = m # rest" and run: "adjust_loop v c x n p ls (lm_timestamp m, lm_timestamp m + p) = Some (s', e')" .
    from Cons.IH[OF run] show ?thesis by (auto simp: ls)
  next
    case False
    from Cons.IH[OF adjust_loop_free[OF Cons.prems this]] show ?thesis by auto
  qed
qed simp

text \<open>
  The loop goes on from the entry a job was moved to, so an entry it has passed is before the job or has room.
\<close>

lemma adjust_loop_room:
  assumes "adjust_loop v c x n p limits (s, e) = Some (s', e')" "sorted_wrt (\<lambda>l m. lm_timestamp l < lm_timestamp m) limits"
  shows "s \<le> s' \<and> (s' = s \<and> e' = e \<or> e' = s' + p) \<and>
    (\<forall>t l. entry_at limits t = Some l \<longrightarrow> s' \<le> t \<longrightarrow> t < e' \<longrightarrow> t < lm_timestamp (last limits) \<longrightarrow>
       sum_limits_of_limit l c + n \<le> lv_values_global v ! c)"
  using assms
proof (induction limits arbitrary: s e)
  case (Cons k ls)
  let ?full = "lv_values_global v ! c < sum_limits_of_limit k c + n \<or> account_exceeds v c x n k"
  have room: "sum_limits_of_limit l c + n \<le> lv_values_global v ! c"
    if rest: "\<forall>t l. entry_at ls t = Some l \<longrightarrow> s' \<le> t \<longrightarrow> t < e' \<longrightarrow> t < lm_timestamp (last ls) \<longrightarrow>
        sum_limits_of_limit l c + n \<le> lv_values_global v ! c"
      and first: "\<And>t. entry_at ls t = None \<Longrightarrow> ls \<noteq> [] \<Longrightarrow> lm_timestamp k \<le> t \<Longrightarrow> s' \<le> t \<Longrightarrow> t < e' \<Longrightarrow>
        sum_limits_of_limit k c + n \<le> lv_values_global v ! c"
      and t: "entry_at (k # ls) t = Some l" "s' \<le> t" "t < e'" "t < lm_timestamp (last (k # ls))" for t l
  proof (cases "entry_at ls t")
    case None
    then have "l = k" "lm_timestamp k \<le> t" "ls \<noteq> []" using t(1,4) by (auto split: if_splits)
    then show ?thesis using first[OF None] t(2,3) by blast
  next
    case (Some y)
    then have "l = y" "ls \<noteq> []" using t(1) by (auto split: if_splits)
    then show ?thesis using rest Some t(2-4) by auto
  qed
  show ?case
  proof (cases "concerns_job s e k ls \<and> ?full")
    case True
    from adjust_loop_full[OF Cons.prems(1) this] obtain m rest
      where ls: "ls = m # rest" and run: "adjust_loop v c x n p ls (lm_timestamp m, lm_timestamp m + p) = Some (s', e')" .
    have srt: "sorted_wrt (\<lambda>l m. lm_timestamp l < lm_timestamp m) ls" "lm_timestamp k < lm_timestamp m" using Cons.prems(2) ls by auto
    note IH = Cons.IH[OF run srt(1)]
    have "s \<le> lm_timestamp m" using True ls srt(2) by (auto simp: concerns_job_def)
    moreover have "False" if "entry_at ls t = None" "s' \<le> t" for t
      using that IH by (auto simp: entry_at_None ls)
    ultimately show ?thesis using IH room by fastforce
  next
    case False
    note run = adjust_loop_free[OF Cons.prems(1) this]
    have srt: "sorted_wrt (\<lambda>l m. lm_timestamp l < lm_timestamp m) ls" using Cons.prems(2) by simp
    note IH = Cons.IH[OF run srt]
    have "sum_limits_of_limit k c + n \<le> lv_values_global v ! c"
      if t: "entry_at ls t = None" "ls \<noteq> []" "lm_timestamp k \<le> t" "s' \<le> t" "t < e'" for t
    proof -
      have "t < lm_timestamp (hd ls)" using t(1,2) by (simp add: entry_at_None)
      then have later: "\<forall>m \<in> set ls. t < lm_timestamp m" using srt by (cases ls) auto
      have "s' = s \<and> e' = e"
      proof (rule ccontr)
        assume "\<not> ?thesis"
        then have "s' \<in> lm_timestamp ` set ls" using adjust_loop_moves[OF run] by blast
        then show False using later t(4) by auto
      qed
      then have "concerns_job s e k ls" using t later IH by (cases ls) (auto simp: concerns_job_def)
      then show ?thesis using False by auto
    qed
    then show ?thesis using IH room by blast
  qed
qed simp

end
