(* ===== verification/PlanSchedule.thy ===== *)
theory PlanSchedule
  imports PlanLimits ServerQuery
begin

text \<open>
  Clusters of the plan: \<open>src/plan_schedule.cpp\<close> and the construction of planned jobs in \<open>src/plan_jobs.cpp\<close>.  A
  cluster is a set of nodes of one name and one set of properties; nodes are indices into the world of
  the server, \<open>names\<close> gives the cluster name the site cache has set for a node, and the parser of node
  specifications comes with the environment.  The pointers from a cluster and its lists to the server are left out:
  there is one server.  \<open>None\<close> is a null pointer, a read behind the end of a string or the freeing of a string literal.
\<close>

section \<open>Times in properties\<close>

text \<open>
  \<open>decode_time\<close>.  A time with units: the digits in front of the first letter of each unit.  The walk back stops at the first character
  of the text without looking at it.
\<close>

definition unit_digits :: "string \<Rightarrow> string" where
  "unit_digits before =
     (let n = length (takeWhile isdigit (rev (tl before)))
      in if n = length (tl before) then before else drop (length before - n) before)"

definition unit_part :: "string \<Rightarrow> string \<Rightarrow> int \<Rightarrow> int" where
  "unit_part val unit factor =
     (let before = takeWhile (\<lambda>c. c \<notin> set unit) val
      in if before = [] \<or> length before = length val then 0
         else to_sint (atoi (unit_digits before @ drop (length before) val) * factor))"

definition decode_units :: "string \<Rightarrow> int" where
  "decode_units val =
     unit_part val ''sS'' 1 + unit_part val ''mM'' 60 + unit_part val ''hH'' 3600 +
     unit_part val ''dD'' 86400 + unit_part val ''wW'' 604800"

text \<open>
  A time with colons: at most three of them, the first part of four is days, digits only, and an optional fraction.
  \<open>clock_parts\<close> walks over the text with the digits read since the last colon.
\<close>

fun clock_parts :: "bool \<Rightarrow> int \<Rightarrow> int \<Rightarrow> string \<Rightarrow> string \<Rightarrow> (int \<times> int \<times> string \<times> string) option" where
  "clock_parts use_days days rv work [] = Some (days, rv, work, [])"
| "clock_parts use_days days rv work (c # cs) =
     (if c = CHR '':''
      then (if use_days then clock_parts False (atoi work) rv [] cs
            else clock_parts False days (rv * 60 + atoi work) [] cs)
      else if c = CHR ''.'' then Some (days, rv, work, take 3 cs)
      else if \<not> isdigit c then None
      else clock_parts use_days days rv (work @ [c]) cs)"

definition PBS_MAX_TIME :: int where
  "PBS_MAX_TIME = LONG_MAX - 1"

definition decode_clock :: "int \<Rightarrow> string \<Rightarrow> int" where
  "decode_clock badatval val =
     (let colons = count_list val (CHR '':'')
      in if 3 < colons then badatval
         else case clock_parts (2 < colons) 0 0 [] val of
                None \<Rightarrow> badatval
              | Some (days, rv, work, ms) \<Rightarrow>
                  (let rv1 = rv * 60 + atoi work;
                       rv2 = (if 0 < days then rv1 + to_sint (days * 24 * 3600) else rv1);
                       msec = atoi (ms @ replicate (3 - length ms) (CHR ''0''))
                   in if PBS_MAX_TIME < rv2 then badatval else if 500 \<le> msec then rv2 + 1 else rv2))"

definition decode_time :: "int \<Rightarrow> string \<Rightarrow> int" where
  "decode_time badatval val =
     (if val = [] then 0
      else if \<exists>c \<in> set val. c \<in> set ''sSmMhHdDwW'' then decode_units val
      else decode_clock badatval val)"

text \<open>The comparison stops at the end of the shorter text, so a prefix is accepted on either side.\<close>

fun prefix_either :: "string \<Rightarrow> string \<Rightarrow> bool" where
  "prefix_either (x # xs) (y # ys) = (x = y \<and> prefix_either xs ys)"
| "prefix_either _ _ = True"

definition is_limit_property :: "string \<Rightarrow> bool" where
  "is_limit_property p \<longleftrightarrow> prefix_either p ''min_'' \<or> prefix_either p ''max_''"

definition filter_exclude :: "string set \<Rightarrow> bool \<Rightarrow> string set" where
  "filter_exclude strings select_exclude = {p \<in> strings. is_limit_property p = select_exclude}"

text \<open>The last property in the order of the set decides; a property shorter than four characters is read behind its end.\<close>

definition walltime_limit :: "string \<Rightarrow> int \<Rightarrow> string set \<Rightarrow> int option" where
  "walltime_limit prefix badatval properties =
     (let ps = filter (\<lambda>p. prefix_either p prefix) (sorted_list_of_set (filter_exclude properties True))
      in if \<exists>p \<in> set ps. length p < 4 then None
         else Some (if ps = [] then 0 else decode_time badatval (drop 4 (last ps))))"

definition get_walltime_limit_min :: "int \<Rightarrow> string set \<Rightarrow> int option" where
  "get_walltime_limit_min = walltime_limit ''min_''"

definition get_walltime_limit_max :: "int \<Rightarrow> string set \<Rightarrow> int option" where
  "get_walltime_limit_max = walltime_limit ''max_''"

section \<open>Clusters\<close>

record sched =
  sc_clusters :: "plan_cluster list"
  sc_jobs_list :: "plan_job list list"
  sc_gaps_list :: "plan_gap list list"
  sc_limits_list :: "plan_limit list list"
  sc_updated :: "bool list"

definition schedule_create :: sched where
  "schedule_create = \<lparr>sc_clusters = [], sc_jobs_list = [], sc_gaps_list = [], sc_limits_list = [], sc_updated = []\<rparr>"

definition cluster_create :: "string \<Rightarrow> string set \<Rightarrow> plan_cluster" where
  "cluster_create name properties =
     \<lparr>pc_cluster_name = name, pc_properties = filter_exclude properties False, pc_nodes = [], pc_nodes_name = [],
      pc_num_cpus = 0, pc_num_running_cpus = 0, pc_num_queued_jobs = 0, pc_available_ram = 0\<rparr>"

definition schedule_add_cluster :: "string \<Rightarrow> string set \<Rightarrow> sched \<Rightarrow> sched" where
  "schedule_add_cluster name properties s =
     s\<lparr>sc_clusters := sc_clusters s @ [cluster_create name properties], sc_jobs_list := sc_jobs_list s @ [[]],
       sc_gaps_list := sc_gaps_list s @ [[]], sc_limits_list := sc_limits_list s @ [[]], sc_updated := sc_updated s @ [False]\<rparr>"

definition cluster_check_fit :: "world \<Rightarrow> plan_cluster \<Rightarrow> nat \<Rightarrow> bool" where
  "cluster_check_fit w cl a \<longleftrightarrow> pc_properties cl = filter_exclude (nd_phys_props (node_at w a)) False"

definition cluster_add_node :: "world \<Rightarrow> nat \<Rightarrow> plan_cluster \<Rightarrow> plan_cluster" where
  "cluster_add_node w a cl =
     (let n = node_at w a;
          c = cl\<lparr>pc_nodes := pc_nodes cl @ [a], pc_nodes_name := pc_nodes_name cl @ [nd_name n],
                 pc_num_cpus := pc_num_cpus cl + nd_core_total n\<rparr>
      in if out_of_service w a then c
         else c\<lparr>pc_num_running_cpus := pc_num_running_cpus c + nd_core_free n,
                pc_available_ram := pc_available_ram c + get_node_mem w a\<rparr>)"

definition node_cluster_name :: "(nat \<Rightarrow> string option) \<Rightarrow> nat \<Rightarrow> string" where
  "node_cluster_name names a = (case names a of None \<Rightarrow> [] | Some n \<Rightarrow> n)"

text \<open>
  The first cluster of the name of the node that knows the node, whose node is replaced, or that has the properties of the node,
  to which the node is added; otherwise a new cluster.
\<close>

definition replace_node :: "world \<Rightarrow> nat \<Rightarrow> plan_cluster \<Rightarrow> plan_cluster" where
  "replace_node w a cl =
     cl\<lparr>pc_nodes := (pc_nodes cl)[length (takeWhile (\<lambda>n. n \<noteq> nd_name (node_at w a)) (pc_nodes_name cl)) := a]\<rparr>"

fun find_cluster :: "world \<Rightarrow> string \<Rightarrow> nat \<Rightarrow> plan_cluster list \<Rightarrow> plan_cluster list option" where
  "find_cluster w name a [] = None"
| "find_cluster w name a (cl # cls) =
     (if pc_cluster_name cl = name
      then (if nd_name (node_at w a) \<in> set (pc_nodes_name cl) then Some (replace_node w a cl # cls)
            else if cluster_check_fit w cl a then Some (cluster_add_node w a cl # cls)
            else map_option (\<lambda>r. cl # r) (find_cluster w name a cls))
      else map_option (\<lambda>r. cl # r) (find_cluster w name a cls))"

definition plan_find_cluster_for_node :: "world \<Rightarrow> (nat \<Rightarrow> string option) \<Rightarrow> nat \<Rightarrow> sched \<Rightarrow> sched" where
  "plan_find_cluster_for_node w names a s =
     (case find_cluster w (node_cluster_name names a) a (sc_clusters s) of
        Some cls \<Rightarrow> s\<lparr>sc_clusters := cls\<rparr>
      | None \<Rightarrow>
          (let s1 = schedule_add_cluster (node_cluster_name names a) (nd_phys_props (node_at w a)) s; k = length (sc_clusters s)
           in s1\<lparr>sc_clusters := (sc_clusters s1)[k := cluster_add_node w a (sc_clusters s1 ! k)]\<rparr>))"

definition plan_update_clusters :: "world \<Rightarrow> (nat \<Rightarrow> string option) \<Rightarrow> nat list \<Rightarrow> sched \<Rightarrow> sched" where
  "plan_update_clusters w names nodes = fold (plan_find_cluster_for_node w names) nodes"

section \<open>Planned jobs\<close>

definition DEFAULT_WALLTIME :: int where
  "DEFAULT_WALLTIME = 86400"

text \<open>The scratch of the first part of the specification, \<open>-2\<close> for the types the plan does not support.\<close>

definition job_get_scratch_local :: "env \<Rightarrow> job_info \<Rightarrow> int option" where
  "job_get_scratch_local ev job =
     (if ji_nodespec job = [] then None
      else case sp_nodes (ev_parse_nodespec ev (ji_nodespec job)) of
             [] \<Rightarrow> None
           | n # _ \<Rightarrow> Some (if ps_scratch_type n = ScratchSSD \<or> ps_scratch_type n = ScratchShared then -2
                             else to_sll (int (ps_scratch n))))"

definition job_create :: "nat \<Rightarrow> plan_job" where
  "job_create ref =
     \<lparr>pj_ref = ref, pj_job_id = 0, pj_jinfo = 0, pj_start_time = 0, pj_completion_time = 0, pj_estimated_processing = 0,
      pj_due_date = 0, pj_available_after = 0, pj_run_me = False, pj_usage = 0, pj_req_ppn = 0, pj_original_req_ppn = 0,
      pj_req_num_nodes = 0, pj_req_mem = 0, pj_req_scratch_local = 0, pj_req_gpu = 0, pj_ninfo_arr = [],
      pj_fixed_nname_arr = [], pj_fixed_nname_arr_backup = None, pj_cpu_indexes = [], pj_latest_ncpu_index = [],
      pj_account_id = -1\<rparr>"

definition estimated_processing :: "job_info \<Rightarrow> int" where
  "estimated_processing job =
     (case find_resource_req (ji_resreq job) ''walltime'' of None \<Rightarrow> DEFAULT_WALLTIME | Some r \<Rightarrow> rq_amount r)"

definition req_amount :: "job_info \<Rightarrow> string \<Rightarrow> int option" where
  "req_amount job name = map_option rq_amount (find_resource_req (ji_resreq job) name)"

text \<open>The arrays of indices are allocated uninitialised; every user fills them before it reads them.\<close>

definition job_fillin :: "env \<Rightarrow> job_info list \<Rightarrow> nat \<Rightarrow> int \<Rightarrow> int \<Rightarrow> plan_job \<Rightarrow> plan_job option" where
  "job_fillin ev tab j start_time due_date p =
     (let job = tab ! j
      in case (req_amount job ''procs'', req_amount job ''nodect'', req_amount job ''mem'', job_get_scratch_local ev job) of
           (Some procs, Some nodect, Some mem, Some scratch) \<Rightarrow>
             if to_sint nodect = 0 then None
             else
               (let usage = to_sint procs; nodes = to_sint nodect; est = estimated_processing job
                in Some (p\<lparr>pj_jinfo := j, pj_job_id := parse_head_number (ji_job_id job), pj_usage := usage,
                   pj_req_num_nodes := nodes,
                   pj_req_gpu := (case req_amount job ''gpu'' of None \<Rightarrow> pj_req_gpu p | Some g \<Rightarrow> to_sint g),
                   pj_req_ppn := max 1 (c_div usage nodes), pj_original_req_ppn := 0, pj_req_mem := c_div mem nodes,
                   pj_req_scratch_local := scratch, pj_estimated_processing := est,
                   pj_start_time := start_time, pj_completion_time := (if start_time = -1 then -1 else start_time + est),
                   pj_due_date := due_date, pj_ninfo_arr := replicate (nat nodes) None,
                   pj_fixed_nname_arr := replicate (nat nodes) None, pj_cpu_indexes := replicate (nat usage) 0,
                   pj_latest_ncpu_index := replicate (nat nodes) 0\<rparr>))
         | _ \<Rightarrow> None)"

text \<open>
  Whether a job may go to a cluster.  Dedicated clusters are those whose properties include the property a queue
  requires.  The branch on the placement of the job is never taken, as no text is both empty and starts with a caret.
\<close>

definition dedicated_to_other :: "queue_state list \<Rightarrow> plan_cluster \<Rightarrow> string \<Rightarrow> bool" where
  "dedicated_to_other queues cl name \<longleftrightarrow>
     (\<exists>q \<in> set queues. case qs_required_property q of None \<Rightarrow> False
        | Some p \<Rightarrow> p \<noteq> [] \<and> \<not> prefix_either p ''q_'' \<and> p \<in> pc_properties cl \<and> qi_name (qs_info q) \<noteq> name)"

definition queue_refuses :: "config \<Rightarrow> queue_state list \<Rightarrow> plan_cluster \<Rightarrow> queue_state \<Rightarrow> bool" where
  "queue_refuses conf queues cl q \<longleftrightarrow>
     (let name = qi_name (qs_info q)
      in \<not> (prefix_either name ''backfill'' \<and> ''q_backfill'' \<in> pc_properties cl) \<and>
         ((case qs_required_property q of None \<Rightarrow> False | Some p \<Rightarrow> \<not> prefix_either p ''q_'' \<and> p \<notin> pc_properties cl) \<or>
          (name = cf_default_queue conf \<or> prefix_either name ''q_'' \<or> prefix_either name ''backfill'') \<and>
            dedicated_to_other queues cl name))"

definition property_refuses :: "plan_cluster \<Rightarrow> pars_prop \<Rightarrow> bool" where
  "property_refuses cl p \<longleftrightarrow> pp_value p = None \<and>
     (if pp_name p \<noteq> [] \<and> hd (pp_name p) = CHR ''^'' then tl (pp_name p) \<in> pc_properties cl
      else pp_name p \<notin> pc_properties cl)"

definition nodes_missing :: "world \<Rightarrow> plan_cluster \<Rightarrow> plan_job \<Rightarrow> int" where
  "nodes_missing w cl job =
     pj_req_num_nodes job - (\<Sum>a \<leftarrow> filter (\<lambda>a. pj_req_ppn job \<le> nd_core_total (node_at w a)) (pc_nodes cl).
        c_div (nd_core_total (node_at w a)) (pj_req_ppn job))"

definition has_gpus :: "world \<Rightarrow> plan_cluster \<Rightarrow> int \<Rightarrow> bool" where
  "has_gpus w cl n \<longleftrightarrow> (\<exists>a \<in> set (pc_nodes cl). case node_resource w a ''gpu'' of None \<Rightarrow> False | Some r \<Rightarrow> n \<le> r_max r)"

definition check_cluster_suitable ::
  "env \<Rightarrow> config \<Rightarrow> server_info \<Rightarrow> plan_cluster \<Rightarrow> plan_job \<Rightarrow> int option" where
  "check_cluster_suitable ev conf s cl job =
     (let jinfo = job_at s (pj_jinfo job); w = si_world s
      in if pj_req_scratch_local job = -2 then Some 1
         else if queue_refuses conf (si_queues s) cl (queue_of s (pj_jinfo job)) then Some 1
         else if ji_nodespec jinfo = [] then None
         else case sp_nodes (ev_parse_nodespec ev (ji_nodespec jinfo)) of
                [] \<Rightarrow> None
              | n # _ \<Rightarrow>
                  if \<exists>p \<in> set (ps_properties n). property_refuses cl p then Some 1
                  else if nodes_missing w cl job \<le> 0 then Some 0
                  else if 0 < pj_req_gpu job then (if has_gpus w cl (pj_req_gpu job) then Some 1 else Some 0)
                  else Some 1)"

end
