(* ===== verification/PlanSlots.thy ===== *)
theory PlanSlots
  imports PlanSchedule
begin

text \<open>
  First free slots: \<open>src/plan_first_free_slot.cpp\<close>.  There is one slot for every processor of a cluster, in the order of
  its nodes; it holds the time the processor is free and the memory the node has then.  \<open>cpus\<close> gives the jobs on
  the processors of a node (\<open>jobs_on_cpu\<close>).  The field \<open>updated\<close> of the source is a mark that is set and read within one
  node, and the walltime limits the initialisation copies into the nodes are computed where they are read.
\<close>

section \<open>Creation\<close>

definition node_cores :: "world \<Rightarrow> nat \<Rightarrow> nat" where
  "node_cores w a = nat (nd_core_total (node_at w a))"

definition new_slot :: "world \<Rightarrow> nat \<Rightarrow> nat list \<Rightarrow> first_free_slot" where
  "new_slot w a related =
     \<lparr>fs_time = -1, fs_ninfo = a, fs_free_to_run = False, fs_releated_cpus = related, fs_mem = get_node_mem w a,
      fs_scratch_local = get_node_scratch_local w a, fs_available_mem = get_node_mem w a,
      fs_available_scratch_local = get_node_scratch_local w a, fs_mem_used_per_cpu = 0, fs_scratch_local_used_per_cpu = 0\<rparr>"

text \<open>
  \<open>None\<close> when the nodes do not have the number of processors the cluster was counted with: a slot outside the array is
  written, or slots stay without a node.
\<close>

fun node_slots :: "world \<Rightarrow> nat \<Rightarrow> nat \<Rightarrow> nat list \<Rightarrow> first_free_slot list option" where
  "node_slots w n counter [] = (if counter = n then Some [] else None)"
| "node_slots w n counter (a # as) =
     (if n \<le> counter then None
      else (let k = node_cores w a
            in map_option (\<lambda>rest. replicate k (new_slot w a [counter..<counter + k]) @ rest) (node_slots w n (counter + k) as)))"

definition first_free_slots_create :: "world \<Rightarrow> plan_cluster \<Rightarrow> first_free_slot list option" where
  "first_free_slots_create w cl = node_slots w (nat (pc_num_cpus cl)) 0 (pc_nodes cl)"

section \<open>Initialisation\<close>

definition slots_unusable :: "world \<Rightarrow> nat \<Rightarrow> bool" where
  "slots_unusable w a \<longleftrightarrow> out_of_service w a \<or> ns_unknown (node_at w a) \<or> ns_reserved (node_at w a) \<or> ns_busy (node_at w a)"

definition free_slot :: "int \<Rightarrow> first_free_slot \<Rightarrow> first_free_slot" where
  "free_slot now s = s\<lparr>fs_time := now, fs_free_to_run := True, fs_mem_used_per_cpu := 0, fs_scratch_local_used_per_cpu := 0\<rparr>"

definition unusable_slot :: "first_free_slot \<Rightarrow> first_free_slot" where
  "unusable_slot s = s\<lparr>fs_time := -1, fs_free_to_run := False, fs_mem_used_per_cpu := 0, fs_scratch_local_used_per_cpu := 0\<rparr>"

text \<open>A slot in use is free when the job ends, or in a second; a request that is missing is a null pointer.\<close>

definition used_slot :: "env \<Rightarrow> job_info \<Rightarrow> int \<Rightarrow> first_free_slot \<Rightarrow> first_free_slot option" where
  "used_slot ev job now s =
     (case (req_amount job ''walltime'', req_amount job ''mem'', req_amount job ''procs'', job_get_scratch_local ev job) of
        (Some walltime, Some mem, Some procs, Some scratch) \<Rightarrow>
          if to_sint procs = 0 then None
          else (let e = ji_stime job + walltime
                in Some (s\<lparr>fs_time := (if e \<le> now then now + 1 else e), fs_free_to_run := False,
                           fs_mem_used_per_cpu := c_div mem (to_sint procs),
                           fs_scratch_local_used_per_cpu := c_div scratch (to_sint procs)\<rparr>))
      | _ \<Rightarrow> None)"

definition cpu_slot :: "env \<Rightarrow> job_info list \<Rightarrow> int \<Rightarrow> first_free_slot \<times> nat option \<Rightarrow> first_free_slot option" where
  "cpu_slot ev tab now = (\<lambda>(s, j). case j of None \<Rightarrow> Some (free_slot now s) | Some k \<Rightarrow> used_slot ev (tab ! k) now s)"

text \<open>What is left of the memory of a node when a slot is free: the slots that are free later still use theirs.\<close>

definition available_when :: "first_free_slot list \<Rightarrow> first_free_slot \<Rightarrow> first_free_slot" where
  "available_when slots s =
     (let later = filter (\<lambda>k. fs_time s < fs_time k) slots
      in s\<lparr>fs_available_mem := fs_mem s - (\<Sum>k \<leftarrow> later. fs_mem_used_per_cpu k),
           fs_available_scratch_local := fs_scratch_local s - (\<Sum>k \<leftarrow> later. fs_scratch_local_used_per_cpu k)\<rparr>)"

definition node_initialize :: "env \<Rightarrow> world \<Rightarrow> job_info list \<Rightarrow> nat option list option \<Rightarrow> int \<Rightarrow> nat \<Rightarrow> first_free_slot list \<Rightarrow> first_free_slot list option" where
  "node_initialize ev w tab jobs_on_cpu now a slots =
     (if slots_unusable w a then Some (map unusable_slot slots)
      else case jobs_on_cpu of
             None \<Rightarrow> Some (map (free_slot now) slots)
           | Some cpus \<Rightarrow>
               map_option (\<lambda>ss. map (available_when ss) ss) (those (map (cpu_slot ev tab now) (zip slots cpus))))"

fun slots_initialize :: "env \<Rightarrow> world \<Rightarrow> job_info list \<Rightarrow> (nat \<Rightarrow> nat option list option) \<Rightarrow> int \<Rightarrow> nat list \<Rightarrow> first_free_slot list \<Rightarrow> first_free_slot list option" where
  "slots_initialize ev w tab cpus now [] slots = Some slots"
| "slots_initialize ev w tab cpus now (a # as) slots =
     (case node_initialize ev w tab (cpus a) now a (take (node_cores w a) slots) of
        None \<Rightarrow> None
      | Some ss \<Rightarrow> map_option (\<lambda>rest. ss @ rest) (slots_initialize ev w tab cpus now as (drop (node_cores w a) slots)))"

definition running_cpus :: "world \<Rightarrow> plan_cluster \<Rightarrow> int" where
  "running_cpus w cl = pc_num_cpus cl - (\<Sum>a \<leftarrow> filter (slots_unusable w) (pc_nodes cl). nd_core_total (node_at w a))"

text \<open>The walltime limits of a node, which the initialisation decodes for every slot.\<close>

definition limits_readable :: "int \<Rightarrow> world \<Rightarrow> nat \<Rightarrow> bool" where
  "limits_readable badatval w a \<longleftrightarrow> 0 < node_cores w a \<longrightarrow>
     get_walltime_limit_min badatval (nd_phys_props (node_at w a)) \<noteq> None \<and>
     get_walltime_limit_max badatval (nd_phys_props (node_at w a)) \<noteq> None"

definition first_free_slots_initialize ::
  "env \<Rightarrow> int \<Rightarrow> world \<Rightarrow> job_info list \<Rightarrow> (nat \<Rightarrow> nat option list option) \<Rightarrow> int \<Rightarrow> plan_cluster \<Rightarrow> first_free_slot list \<Rightarrow>
    (plan_cluster \<times> first_free_slot list) option" where
  "first_free_slots_initialize ev badatval w tab cpus now cl slots =
     (if list_all (limits_readable badatval w) (pc_nodes cl)
      then map_option (\<lambda>ss. (cl\<lparr>pc_num_running_cpus := running_cpus w cl\<rparr>, ss)) (slots_initialize ev w tab cpus now (pc_nodes cl) slots)
      else None)"

section \<open>Update by a planned job\<close>

datatype slot_mark = OfJob | Before | During | Together | After

definition mark_slot :: "plan_job \<Rightarrow> nat set \<Rightarrow> first_free_slot list \<Rightarrow> nat \<Rightarrow> slot_mark" where
  "mark_slot job own slots i =
     (let t = fs_time (slots ! i)
      in if i \<in> own then OfJob
         else if pj_completion_time job < t then After
         else if t = pj_completion_time job then Together
         else if pj_start_time job \<le> t then During
         else Before)"

definition set_times :: "plan_job \<Rightarrow> nat set \<Rightarrow> first_free_slot list \<Rightarrow> first_free_slot list" where
  "set_times job own slots =
     map (\<lambda>(i, s). if i \<in> own then s\<lparr>fs_time := pj_completion_time job\<rparr> else s) (enumerate 0 slots)"

text \<open>
  One node of the job, given by one of its slots.  The slots that become free during the job lose its memory; the slots
  of the job and those that become free together with it get what the later slots leave.
\<close>

definition update_node :: "plan_job \<Rightarrow> nat set \<Rightarrow> nat \<Rightarrow> first_free_slot list \<Rightarrow> first_free_slot list" where
  "update_node job own first slots0 =
     (let slots = set_times job own slots0; related = fs_releated_cpus (slots ! first);
          mark = mark_slot job own slots;
          later = filter (\<lambda>i. mark i = After) related;
          new_mem = fs_mem (slots ! first) - (\<Sum>i \<leftarrow> later. fs_mem_used_per_cpu (slots ! i));
          new_scratch = fs_scratch_local (slots ! first) - (\<Sum>i \<leftarrow> later. fs_scratch_local_used_per_cpu (slots ! i))
      in map (\<lambda>(i, s).
            if i \<notin> set related then s
            else if mark i = During then s\<lparr>fs_available_mem := fs_available_mem s - pj_req_mem job\<rparr>
            else if mark i = OfJob \<or> mark i = Together
            then s\<lparr>fs_available_mem := new_mem, fs_available_scratch_local := new_scratch,
                   fs_mem_used_per_cpu := c_div (pj_req_mem job) (pj_req_ppn job),
                   fs_scratch_local_used_per_cpu := c_div (pj_req_scratch_local job) (pj_req_ppn job)\<rparr>
            else s) (enumerate 0 slots))"

definition job_cpus_set :: "plan_job \<Rightarrow> nat set" where
  "job_cpus_set job = nat ` set (take (nat (pj_usage job)) (pj_cpu_indexes job))"

text \<open>A job with fewer processors than nodes leaves an index of \<open>-1\<close> behind, which is outside the array.\<close>

definition first_free_slots_update :: "plan_job \<Rightarrow> first_free_slot list \<Rightarrow> first_free_slot list option" where
  "first_free_slots_update job slots =
     (let firsts = take (nat (pj_req_num_nodes job)) (pj_latest_ncpu_index job)
      in if \<exists>i \<in> set firsts. i < 0 \<or> int (length slots) \<le> i then None
         else Some (fold (\<lambda>i. update_node job (job_cpus_set job) (nat i)) firsts slots))"

definition slots_of_nodes :: "nat option list \<Rightarrow> first_free_slot list \<Rightarrow> nat set" where
  "slots_of_nodes nodes slots = {i. i < length slots \<and> Some (fs_ninfo (slots ! i)) \<in> set nodes}"

definition slot_of_node :: "first_free_slot list \<Rightarrow> nat option \<Rightarrow> nat option" where
  "slot_of_node slots node = find (\<lambda>i. Some (fs_ninfo (slots ! i)) = node) [0..<length slots]"

text \<open>A node without a slot leaves the index of the node before, or none at all.\<close>

fun firsts_of :: "first_free_slot list \<Rightarrow> nat option \<Rightarrow> nat option list \<Rightarrow> nat list option" where
  "firsts_of slots previous [] = Some []"
| "firsts_of slots previous (n # ns) =
     (case or_else (slot_of_node slots n) previous of
        None \<Rightarrow> None | Some i \<Rightarrow> map_option (\<lambda>is. i # is) (firsts_of slots (Some i) ns))"

definition first_free_slots_update_exclusive :: "plan_job \<Rightarrow> first_free_slot list \<Rightarrow> first_free_slot list option" where
  "first_free_slots_update_exclusive job slots =
     (let nodes = take (nat (pj_req_num_nodes job)) (pj_ninfo_arr job)
      in map_option (\<lambda>firsts. fold (update_node job (slots_of_nodes nodes slots)) firsts slots) (firsts_of slots None nodes))"

section \<open>What the slots say\<close>

lemma node_slots_nodes:
  "node_slots w n c as = Some slots \<Longrightarrow>
     length slots = n - c \<and> c \<le> n \<and> map fs_ninfo slots = concat (map (\<lambda>a. replicate (node_cores w a) a) as) \<and>
     (\<forall>s \<in> set slots. fs_time s = -1)"
proof (induction as arbitrary: c slots)
  case (Cons a as)
  then obtain rest where r: "node_slots w n (c + node_cores w a) as = Some rest"
    "slots = replicate (node_cores w a) (new_slot w a [c..<c + node_cores w a]) @ rest"
    by (auto simp: Let_def split: if_splits)
  then show ?case using Cons.IH[OF r(1)] by (auto simp: new_slot_def map_replicate_const)
qed (auto split: if_splits)

lemma cpu_slot_result:
  "cpu_slot ev tab now (s, j) = Some s' \<Longrightarrow> fs_ninfo s' = fs_ninfo s \<and> now \<le> fs_time s'"
  by (auto simp: cpu_slot_def free_slot_def used_slot_def Let_def split: option.splits if_splits)

lemma cpu_slots_result:
  "those (map (cpu_slot ev tab now) (zip slots js)) = Some ss \<Longrightarrow> length js = length slots \<Longrightarrow>
     map fs_ninfo ss = map fs_ninfo slots \<and> (\<forall>s \<in> set ss. now \<le> fs_time s)"
proof (induction slots arbitrary: js ss)
  case (Cons s slots)
  then obtain j js' where js: "js = j # js'" by (cases js) auto
  then obtain s' ss' where r: "cpu_slot ev tab now (s, j) = Some s'" "ss = s' # ss'"
    "those (map (cpu_slot ev tab now) (zip slots js')) = Some ss'"
    using Cons.prems(1) by (auto split: option.splits)
  then show ?case using cpu_slot_result[OF r(1)] Cons.IH[OF r(3)] Cons.prems(2) js by simp
qed simp

definition slot_fits :: "world \<Rightarrow> int \<Rightarrow> first_free_slot \<Rightarrow> bool" where
  "slot_fits w now s \<longleftrightarrow> (if slots_unusable w (fs_ninfo s) then fs_time s = -1 else now \<le> fs_time s)"

lemma node_initialize_result:
  assumes "node_initialize ev w tab js now a slots = Some ss" "map fs_ninfo slots = replicate k a"
    "\<And>cs. js = Some cs \<Longrightarrow> length cs = k"
  shows "map fs_ninfo ss = replicate k a \<and> (\<forall>s \<in> set ss. slot_fits w now s)"
proof -
  have k: "length slots = k" using assms(2) by (metis length_map length_replicate)
  have node: "fs_ninfo s = a" if s: "s \<in> set slots" for s
    using assms(2) s by (metis image_eqI in_set_replicate list.set_map)
  consider "slots_unusable w a" "ss = map unusable_slot slots"
    | "\<not> slots_unusable w a" "ss = map (free_slot now) slots"
    | cs xs where "\<not> slots_unusable w a" "js = Some cs" "ss = map (available_when xs) xs"
        "those (map (cpu_slot ev tab now) (zip slots cs)) = Some xs"
    using assms(1) by (auto simp: node_initialize_def split: if_splits option.splits)
  then show ?thesis
  proof cases
    case 1
    then show ?thesis using assms(2) node by (auto simp: unusable_slot_def slot_fits_def o_def)
  next
    case 2
    then show ?thesis using assms(2) node by (auto simp: free_slot_def slot_fits_def o_def)
  next
    case 3
    have x: "map fs_ninfo xs = replicate k a" "\<forall>s \<in> set xs. now \<le> fs_time s"
      using cpu_slots_result[OF 3(4)] assms(2,3) 3(2) k by auto
    then have "\<forall>s \<in> set xs. fs_ninfo s = a" by (metis image_eqI in_set_replicate list.set_map)
    then show ?thesis using x 3(1,3) by (auto simp: available_when_def Let_def slot_fits_def o_def)
  qed
qed

text \<open>After the initialisation a slot has time \<open>-1\<close> just when its node is not usable, and is not free in the past otherwise.\<close>

lemma slots_initialize_result:
  assumes "slots_initialize ev w tab cpus now as slots = Some ss"
    "map fs_ninfo slots = concat (map (\<lambda>a. replicate (node_cores w a) a) as)"
    "\<And>a cs. cpus a = Some cs \<Longrightarrow> length cs = node_cores w a"
  shows "map fs_ninfo ss = map fs_ninfo slots \<and> (\<forall>s \<in> set ss. slot_fits w now s)"
  using assms(1,2)
proof (induction as arbitrary: slots ss)
  case (Cons a as)
  let ?k = "node_cores w a"
  have split: "map fs_ninfo (take ?k slots) = replicate ?k a"
    "map fs_ninfo (drop ?k slots) = concat (map (\<lambda>a. replicate (node_cores w a) a) as)"
    using Cons.prems(2) by (simp_all add: take_map[symmetric] drop_map[symmetric])
  obtain xs rest where r: "node_initialize ev w tab (cpus a) now a (take ?k slots) = Some xs"
    "slots_initialize ev w tab cpus now as (drop ?k slots) = Some rest" "ss = xs @ rest"
    using Cons.prems(1) by (auto split: option.splits)
  show ?case
    using node_initialize_result[OF r(1) split(1) assms(3)] Cons.IH[OF r(2) split(2)] Cons.prems(2) split(2) r(3) by auto
qed simp

lemma free_at_unusable:
  assumes "map fs_ninfo slots = concat (map (\<lambda>a. replicate (node_cores w a) a) as)" "distinct as" "a \<in> set as"
    "\<forall>s \<in> set slots. slot_fits w now s" "slots_unusable w a" "\<not> out_of_service w a" "-1 \<le> t"
  shows "free_at w slots t a = node_cores w a"
proof -
  have "filter (\<lambda>s. fs_ninfo s = a \<and> fs_time s \<le> t \<and> \<not> out_of_service w a) slots = filter (\<lambda>s. fs_ninfo s = a) slots"
    by (rule filter_cong[OF refl]) (use assms(4-7) in \<open>auto simp: slot_fits_def\<close>)
  moreover have "length (filter (\<lambda>s. fs_ninfo s = a) slots) = count_list (map fs_ninfo slots) a" by (induction slots) auto
  ultimately have "free_at w slots t a = count_list (map fs_ninfo slots) a" by (simp add: free_at_def)
  also have "\<dots> = node_cores w a"
    unfolding assms(1) using assms(2,3)
  proof (induction as)
    case (Cons b bs)
    have "count_list (concat (map (\<lambda>a. replicate (node_cores w a) a) bs)) a = 0" if "a \<notin> set bs"
      using that by (intro count_notin) auto
    moreover have "count_list (replicate k b) a = (if a = b then k else 0)" for k by (induction k) auto
    ultimately show ?case using Cons by auto
  qed simp
  finally show ?thesis .
qed

text \<open>
  The gaps behind the planned jobs offer the processors of nodes that are busy, reserved or of unknown state, whose
  slots the initialisation has taken out with the time \<open>-1\<close>.
\<close>

lemma unusable_nodes_offered:
  assumes "first_free_slots_create w cl = Some slots"
    "first_free_slots_initialize ev badatval w tab cpus now cl slots = Some (cl', ss)"
    "\<And>a cs. cpus a = Some cs \<Longrightarrow> length cs = node_cores w a" "0 \<le> now" "distinct (pc_nodes cl)"
    "a \<in> set (pc_nodes cl)" "slots_unusable w a" "\<not> out_of_service w a" "g \<in> set (gap_create_not_the_last w ss mc)"
  shows "gap_cpus a g = int (node_cores w a)"
proof -
  have c: "map fs_ninfo slots = concat (map (\<lambda>a. replicate (node_cores w a) a) (pc_nodes cl))"
    using node_slots_nodes assms(1) by (auto simp: first_free_slots_create_def)
  have i: "slots_initialize ev w tab cpus now (pc_nodes cl) slots = Some ss"
    using assms(2) by (auto simp: first_free_slots_initialize_def split: if_splits)
  note r = slots_initialize_result[OF i c assms(3)]
  have "\<forall>s \<in> set ss. -1 \<le> fs_time s" using r assms(4) by (fastforce simp: slot_fits_def split: if_splits)
  then show ?thesis using gaps_behind_jobs[of ss "[]" w mc] free_at_unusable[of ss w "pc_nodes cl" a now] r c assms(5-9) by simp
qed

end
