(* ===== verification/PlanOperations.thy ===== *)
theory PlanOperations
  imports PlanSlots
begin

text \<open>
  The plan of a cluster: \<open>src/plan_operations.cpp\<close> without its messages to the server.  \<open>update_job\<close> finds processors for a
  planned job, earliest first, and returns the gaps that wait in front of it; \<open>update_sched\<close> rebuilds the slots, limits and gaps
  of a cluster from its list of jobs.  Arrays that are filled from the left are lists of their filled part.
  \<open>plan_env\<close> collects what is outside: the environment, the configuration, the jobs on the processors and the error
  code of the Torque library for a bad attribute value.
\<close>

section \<open>Data\<close>

record plan_env =
  pe_env :: env
  pe_conf :: config
  pe_cpus :: "nat \<Rightarrow> nat option list option"
  pe_badatval :: int

definition node_walltime_min :: "plan_env \<Rightarrow> world \<Rightarrow> nat \<Rightarrow> int" where
  "node_walltime_min pe w a =
     (case get_walltime_limit_min (pe_badatval pe) (nd_phys_props (node_at w a)) of None \<Rightarrow> 0 | Some t \<Rightarrow> t)"

definition node_walltime_max :: "plan_env \<Rightarrow> world \<Rightarrow> nat \<Rightarrow> int" where
  "node_walltime_max pe w a =
     (case get_walltime_limit_max (pe_badatval pe) (nd_phys_props (node_at w a)) of None \<Rightarrow> 0 | Some t \<Rightarrow> t)"

definition lacks_gpu :: "world \<Rightarrow> nat \<Rightarrow> plan_job \<Rightarrow> bool" where
  "lacks_gpu w a job \<longleftrightarrow> 0 < pj_req_gpu job \<and>
     (case node_resource w a ''gpu'' of None \<Rightarrow> True | Some r \<Rightarrow> r_max r < pj_req_gpu job)"

definition fixed_names :: "plan_job \<Rightarrow> string option list" where
  "fixed_names job = take (nat (pj_req_num_nodes job)) (pj_fixed_nname_arr job)"

definition wipe_fixed_nodes :: "plan_job \<Rightarrow> bool" where
  "wipe_fixed_nodes job \<longleftrightarrow> None \<in> set (fixed_names job)"

text \<open>The availability of a slot for a job: 0, or the reason why it is not available.\<close>

definition slot_availability :: "plan_env \<Rightarrow> world \<Rightarrow> bool \<Rightarrow> plan_job \<Rightarrow> first_free_slot \<Rightarrow> int" where
  "slot_availability pe w exclusive job s =
     (let a = fs_ninfo s; n = node_at w a; est = pj_estimated_processing job;
          lmin = node_walltime_min pe w a; lmax = node_walltime_max pe w a
      in if fs_time s = -1 then -1
         else if nd_avail_before n \<noteq> 0 \<and> nd_avail_before n < pj_completion_time job then -8
         else if lmin \<noteq> 0 \<and> est < lmin then -9
         else if lmax \<noteq> 0 \<and> lmax < est then -9
         else if lacks_gpu w a job then -9
         else if \<not> exclusive \<and> \<not> wipe_fixed_nodes job \<and> Some (nd_name n) \<notin> set (fixed_names job) then -7
         else if nd_core_total n < pj_req_ppn job then -2
         else if fs_mem s < pj_req_mem job \<or> fs_scratch_local s < pj_req_scratch_local job then -3
         else if fs_available_mem s < pj_req_mem job \<or> fs_available_scratch_local s < pj_req_scratch_local job then -4
         else 0)"

section \<open>The next processor\<close>

record search =
  se_avail :: "int list"
  se_attempt :: nat
  se_considered :: "nat option"
  se_cpus :: "nat list"
  se_tmp :: "nat list"
  se_node_latest :: "nat option"
  se_total_latest :: "nat option"
  se_ninfo :: "nat list"
  se_latest :: "nat list"
  se_start :: int
  se_fixed :: "string list"
  se_ppn_free :: "bool list"

text \<open>\<open>attempt_count\<close> of the source starts at one.\<close>

definition attempt_count :: "search \<Rightarrow> int" where
  "attempt_count st = int (se_attempt st) + 1"

definition slot_time :: "first_free_slot list \<Rightarrow> nat \<Rightarrow> int" where
  "slot_time slots i = fs_time (slots ! i)"

text \<open>A slot without enough memory is admitted when a later slot was already taken, on its node or, for a new node, at all.\<close>

definition exempt :: "first_free_slot list \<Rightarrow> search \<Rightarrow> nat \<Rightarrow> bool" where
  "exempt slots st i \<longleftrightarrow>
     (case se_node_latest st of
        Some l \<Rightarrow> Some (fs_ninfo (slots ! i)) = se_considered st \<and> fs_ninfo (slots ! l) = fs_ninfo (slots ! i) \<and>
                  slot_time slots i < slot_time slots l
      | None \<Rightarrow> (case se_total_latest st of None \<Rightarrow> False | Some l \<Rightarrow> slot_time slots i < slot_time slots l))"

definition candidate :: "first_free_slot list \<Rightarrow> search \<Rightarrow> nat \<Rightarrow> bool" where
  "candidate slots st i \<longleftrightarrow>
     (let v = se_avail st ! i
      in v = 0 \<or> v = -4 \<and> exempt slots st i \<or>
         0 < v \<and> v < attempt_count st \<and> Some (fs_ninfo (slots ! i)) = se_considered st)"

text \<open>The time is stored in an \<open>int\<close> before it is compared.\<close>

definition narrow_time :: "first_free_slot \<Rightarrow> first_free_slot" where
  "narrow_time s = s\<lparr>fs_time := to_sint (fs_time s)\<rparr>"

definition ith_smallest :: "first_free_slot list \<Rightarrow> search \<Rightarrow> nat option" where
  "ith_smallest slots st =
     smallest_loop 0 (map narrow_time slots) (map (\<lambda>i. \<not> candidate slots st i) [0..<length slots]) LONG_MAX None"

text \<open>Insertion into the processors of the job, in the order of their times.\<close>

definition insert_cpu :: "first_free_slot list \<Rightarrow> nat \<Rightarrow> nat list \<Rightarrow> nat list" where
  "insert_cpu slots i cpus =
     (let n = length (dropWhile (\<lambda>k. slot_time slots i < slot_time slots k) (rev cpus))
      in take n cpus @ i # drop n cpus)"

definition later_of :: "first_free_slot list \<Rightarrow> nat option \<Rightarrow> nat \<Rightarrow> nat option" where
  "later_of slots l i = (case l of None \<Rightarrow> Some i | Some k \<Rightarrow> if slot_time slots k \<le> slot_time slots i then Some i else Some k)"

text \<open>
  The processors of one node are complete.  Without fixed nodes the name is noted; with fixed nodes one of the places of this
  name is used up, and after the last one the other processors of the node are prohibited.
\<close>

definition finish_node :: "world \<Rightarrow> first_free_slot list \<Rightarrow> plan_job \<Rightarrow> search \<Rightarrow> search" where
  "finish_node w slots job st =
     (case se_considered st of None \<Rightarrow> st | Some a \<Rightarrow>
       (let name = nd_name (node_at w a);
            avail = fold (\<lambda>i v. v[i := -6]) (se_tmp st) (se_avail st);
            places = filter (\<lambda>k. se_ppn_free st ! k \<and> fixed_names job ! k = Some name) [0..<length (se_ppn_free st)];
            st1 = st\<lparr>se_start := slot_time slots (last (se_cpus st)), se_ninfo := se_ninfo st @ [a],
                     se_latest := se_latest st @ (case se_node_latest st of None \<Rightarrow> [] | Some l \<Rightarrow> [l]),
                     se_considered := None, se_node_latest := None, se_tmp := []\<rparr>
        in if wipe_fixed_nodes job then st1\<lparr>se_avail := avail, se_fixed := se_fixed st @ [name]\<rparr>
           else st1\<lparr>se_avail := (if length places = 1
                      then map (\<lambda>(i, v). if fs_ninfo (slots ! i) = a \<and> v \<noteq> -6 then -7 else v) (enumerate 0 avail) else avail),
                    se_ppn_free := (case places of [] \<Rightarrow> se_ppn_free st | k # _ \<Rightarrow> (se_ppn_free st)[k := False])\<rparr>))"

text \<open>A processor of another node starts the node anew and drops the processors of the node before.\<close>

definition take_cpu :: "world \<Rightarrow> first_free_slot list \<Rightarrow> plan_job \<Rightarrow> search \<Rightarrow> nat \<Rightarrow> search" where
  "take_cpu w slots job st i =
     (let a = fs_ninfo (slots ! i);
          switched = (se_considered st \<noteq> None \<and> se_considered st \<noteq> Some a);
          attempt = (if switched then Suc (se_attempt st) else se_attempt st);
          ppn = nat (pj_req_ppn job);
          cpus = (if switched then take (length (se_ninfo st) * ppn) (se_cpus st) else se_cpus st);
          st1 = st\<lparr>se_avail := (se_avail st)[i := int attempt + 1], se_attempt := attempt, se_considered := Some a,
                   se_cpus := insert_cpu slots i cpus, se_tmp := (if switched then [] else se_tmp st) @ [i],
                   se_node_latest := later_of slots (se_node_latest st) i,
                   se_total_latest := later_of slots (se_total_latest st) i\<rparr>
      in if length (se_cpus st1) = (length (se_ninfo st1) + 1) * ppn then finish_node w slots job st1 else st1)"

section \<open>The search ends\<close>

definition open_slots :: "search \<Rightarrow> nat" where
  "open_slots st = length (filter (\<lambda>v. v = 0 \<or> v = -4) (se_avail st))"

definition retry_slots :: "search \<Rightarrow> nat" where
  "retry_slots st = length (filter (\<lambda>v. 0 < v \<and> v < attempt_count st) (se_avail st))"

definition search_order :: "(search \<times> search) set" where
  "search_order = inv_image (less_than <*lex*> less_than) (\<lambda>st. (open_slots st, retry_slots st))"

lemma filter_update_less:
  "i < length xs \<Longrightarrow> P (xs ! i) \<Longrightarrow> \<not> P y \<Longrightarrow> length (filter P (xs[i := y])) < length (filter P xs)"
proof (induction xs arbitrary: i)
  case (Cons x xs)
  then show ?case by (cases i) auto
qed simp

lemma filter_update_le: "\<not> P y \<Longrightarrow> length (filter P (xs[i := y])) \<le> length (filter P xs)"
proof (induction xs arbitrary: i)
  case (Cons x xs)
  then show ?case by (cases i) (auto simp: le_SucI)
qed simp

lemma filter_fold_update_le:
  "\<not> P y \<Longrightarrow> length (filter P (fold (\<lambda>i v. v[i := y]) is xs)) \<le> length (filter P xs)"
proof (induction "is" arbitrary: xs)
  case (Cons i "is")
  have "length (filter P (fold (\<lambda>i v. v[i := y]) is (xs[i := y]))) \<le> length (filter P xs)"
    by (rule order_trans[OF Cons.IH[OF Cons.prems] filter_update_le]) (rule Cons.prems)
  then show ?case by simp
qed simp

lemma filter_prohibit_le:
  "\<not> P y \<Longrightarrow> length (filter P (map (\<lambda>(i, v). if Q i v then y else v) (enumerate n xs))) \<le> length (filter P xs)"
  by (induction xs arbitrary: n) (auto simp: le_SucI)

lemma finish_node_le:
  "open_slots (finish_node w slots job st) \<le> open_slots st \<and> retry_slots (finish_node w slots job st) \<le> retry_slots st"
proof -
  have le: "length (filter P (se_avail (finish_node w slots job st))) \<le> length (filter P (se_avail st))"
    if P: "\<not> P (-6)" "\<not> P (-7)" for P :: "int \<Rightarrow> bool"
    using filter_fold_update_le[of P "-6" "se_tmp st" "se_avail st", OF P(1)]
      filter_prohibit_le[of P "-7" "\<lambda>i v. fs_ninfo (slots ! i) = the (se_considered st) \<and> v \<noteq> -6" 0
        "fold (\<lambda>i v. v[i := -6]) (se_tmp st) (se_avail st)", OF P(2)]
    by (auto simp: finish_node_def Let_def split: option.splits)
  have "se_attempt (finish_node w slots job st) = se_attempt st"
    by (simp add: finish_node_def Let_def split: option.splits)
  then show ?thesis unfolding open_slots_def retry_slots_def attempt_count_def by (auto intro!: le)
qed

lemma take_cpu_decreases:
  assumes "candidate slots st i" "i < length (se_avail st)"
  shows "(take_cpu w slots job st i, st) \<in> search_order"
proof -
  let ?a = "fs_ninfo (slots ! i)"
  let ?sw = "se_considered st \<noteq> None \<and> se_considered st \<noteq> Some ?a"
  define attempt where "attempt = (if ?sw then Suc (se_attempt st) else se_attempt st)"
  have "\<exists>st1. (take_cpu w slots job st i = st1 \<or> take_cpu w slots job st i = finish_node w slots job st1) \<and>
      se_avail st1 = (se_avail st)[i := int attempt + 1] \<and> se_attempt st1 = attempt"
    unfolding take_cpu_def attempt_def Let_def by (auto simp del: not_None_eq)
  then obtain st1 where st1: "se_avail st1 = (se_avail st)[i := int attempt + 1]" "se_attempt st1 = attempt"
    and le: "open_slots (take_cpu w slots job st i) \<le> open_slots st1" "retry_slots (take_cpu w slots job st i) \<le> retry_slots st1"
    using finish_node_le by (metis order_refl)
  let ?v = "se_avail st ! i"
  consider "?v = 0 \<or> ?v = -4" | "0 < ?v" "?v < attempt_count st" "Some ?a = se_considered st"
    using assms(1) by (auto simp: candidate_def Let_def)
  then have "open_slots st1 < open_slots st \<or> open_slots st1 \<le> open_slots st \<and> retry_slots st1 < retry_slots st"
  proof cases
    case 1
    then have "open_slots st1 < open_slots st" unfolding open_slots_def st1(1) by (intro filter_update_less assms(2)) auto
    then show ?thesis by simp
  next
    case 2
    then have same: "attempt = se_attempt st" by (auto simp: attempt_def)
    have "retry_slots st1 < retry_slots st" using 2(1,2)
      unfolding retry_slots_def attempt_count_def st1 same by (intro filter_update_less assms(2)) auto
    moreover have "open_slots st1 \<le> open_slots st" unfolding open_slots_def st1(1) by (rule filter_update_le) auto
    ultimately show ?thesis by simp
  qed
  then show ?thesis using le by (auto simp: search_order_def)
qed

lemma ith_smallest_candidate:
  assumes "ith_smallest slots st = Some i"
  shows "i < length slots \<and> candidate slots st i \<and>
    (\<forall>k < length slots. candidate slots st k \<longrightarrow> to_sint (slot_time slots i) \<le> to_sint (slot_time slots k))"
proof -
  let ?s = "map narrow_time slots" and ?t = "map (\<lambda>i. \<not> candidate slots st i) [0..<length slots]"
  have "scanned ?s ?t 0 LONG_MAX None" by (simp add: scanned_def)
  then obtain m where "scanned ?s ?t (length ?s) m (smallest_loop 0 ?s ?t LONG_MAX None)"
    using smallest_loop_scans[of ?t ?s 0 LONG_MAX None] by auto
  then show ?thesis using assms by (auto simp: scanned_def ith_smallest_def narrow_time_def slot_time_def)
qed

text \<open>
  The loop over the processors of a job that does not need whole nodes; \<open>None\<close> when no processor is left.  The array of
  availabilities has an entry for every slot.
\<close>

function search_loop :: "world \<Rightarrow> first_free_slot list \<Rightarrow> plan_job \<Rightarrow> search \<Rightarrow> search option" where
  "search_loop w slots job st =
     (if int (length (se_cpus st)) < pj_usage job \<and> length (se_avail st) = length slots
      then (case ith_smallest slots st of
              None \<Rightarrow> None
            | Some i \<Rightarrow> search_loop w slots job (take_cpu w slots job st i))
      else Some st)"
  by pat_completeness auto

termination search_loop
proof (relation "inv_image search_order (\<lambda>(w, slots, job, st). st)", goal_cases)
  case 1
  have "wf search_order" by (auto simp: search_order_def)
  then show ?case by (rule wf_inv_image)
next
  case (2 w slots job st i)
  then show ?case using take_cpu_decreases[of slots st i w job] ith_smallest_candidate[of slots st i] by simp
qed

declare search_loop.simps [simp del]

section \<open>Whole nodes\<close>

definition NO_NODE_TIME :: int where
  "NO_NODE_TIME = 7226578800"

text \<open>
  One slot in the scan for the node that is free first: the best node, the node the scan is in with its latest time, and the
  earliest time so far.  The first slot of a node after another one only closes that other node.
\<close>

definition earliest_step ::
  "world \<Rightarrow> first_free_slot list \<Rightarrow> int list \<Rightarrow> plan_job \<Rightarrow> nat option list \<Rightarrow> nat \<Rightarrow>
    nat option \<times> nat option \<times> int \<times> int \<Rightarrow> nat option \<times> nat option \<times> int \<times> int" where
  "earliest_step w slots avail job chosen i = (\<lambda>(best, node, latest, overall).
     (let a = fs_ninfo (slots ! i)
      in if nd_core_total (node_at w a) < pj_req_ppn job \<or> out_of_service w a \<or> avail ! i \<in> {-3, -8, -9} \<or> Some a \<in> set chosen
         then (best, node, latest, overall)
         else
           (let best1 = or_else best (Some a); node1 = or_else node (Some a);
                latest1 = (if node1 = Some a \<and> latest < slot_time slots i then slot_time slots i else latest)
            in if node1 \<noteq> Some a \<or> Suc i = length slots
               then (if latest1 \<le> overall then (node1, Some a, 0, latest1) else (best1, Some a, 0, overall))
               else (best1, node1, latest1, overall))))"

definition find_earliest_node :: "world \<Rightarrow> first_free_slot list \<Rightarrow> int list \<Rightarrow> plan_job \<Rightarrow> nat option list \<Rightarrow> nat option \<times> int" where
  "find_earliest_node w slots avail job chosen =
     (let (best, _, _, overall) = fold (earliest_step w slots avail job chosen) [0..<length slots] (None, None, 0, NO_NODE_TIME)
      in (best, overall))"

definition exclusive_nodes :: "world \<Rightarrow> first_free_slot list \<Rightarrow> int list \<Rightarrow> plan_job \<Rightarrow> nat option list \<times> int" where
  "exclusive_nodes w slots avail job =
     fold (\<lambda>_ (chosen, _). let (best, t) = find_earliest_node w slots avail job chosen in (chosen @ [best], t))
       [0..<nat (pj_req_num_nodes job)] ([], -1)"

definition lower_times :: "nat set \<Rightarrow> int \<Rightarrow> first_free_slot list \<Rightarrow> first_free_slot list" where
  "lower_times own t slots = map (\<lambda>(i, s). if i \<in> own \<and> t < fs_time s then s\<lparr>fs_time := t\<rparr> else s) (enumerate 0 slots)"

section \<open>Planning of a job\<close>

text \<open>The gaps between the times the processors of the job become free.\<close>

fun gap_walk :: "plan_job \<Rightarrow> first_free_slot list \<Rightarrow> int \<Rightarrow> nat list \<Rightarrow> plan_gap list" where
  "gap_walk job slots gap_start [] = []"
| "gap_walk job slots gap_start (i # is) =
     (let t = slot_time slots i; s = (if gap_start = -1 then t else gap_start)
      in if s \<noteq> t then gap_memory_create (gap_fillin s t (t - s) 0 (Some (pj_ref job))) job slots # gap_walk job slots t is
         else gap_walk job slots s is)"

definition not_free_to_run :: "nat list \<Rightarrow> first_free_slot list \<Rightarrow> first_free_slot list" where
  "not_free_to_run cpus slots = map (\<lambda>(i, s). if i \<in> set cpus then s\<lparr>fs_free_to_run := False\<rparr> else s) (enumerate 0 slots)"

datatype job_result = Failed | Updated plan_job "first_free_slot list" "plan_gap list"

text \<open>A processor found twice is not free to run the second time.\<close>

definition finish_update ::
  "bool \<Rightarrow> plan_job \<Rightarrow> nat list \<Rightarrow> first_free_slot list \<Rightarrow> job_result option" where
  "finish_update exclusive job0 cpus slots =
     (let job = job0\<lparr>pj_cpu_indexes := map int cpus, pj_usage := (if exclusive then int (length cpus) else pj_usage job0),
                     pj_run_me := list_all (\<lambda>i. fs_free_to_run (slots ! i)) cpus \<and> distinct cpus\<rparr>;
          gaps = gap_walk job slots (-1) cpus; slots1 = not_free_to_run cpus slots
      in map_option (\<lambda>s. Updated job s gaps)
           (if exclusive then first_free_slots_update_exclusive job slots1 else first_free_slots_update job slots1))"

definition start_search :: "plan_job \<Rightarrow> int list \<Rightarrow> search" where
  "start_search job avail =
     \<lparr>se_avail = avail, se_attempt = 0, se_considered = None, se_cpus = [], se_tmp = [], se_node_latest = None,
      se_total_latest = None, se_ninfo = [], se_latest = [], se_start = -1, se_fixed = [],
      se_ppn_free = replicate (nat (pj_req_num_nodes job)) True\<rparr>"

definition fill_up :: "nat \<Rightarrow> 'a \<Rightarrow> 'a list \<Rightarrow> 'a list" where
  "fill_up n x xs = xs @ replicate (n - length xs) x"

text \<open>The job after the search; more nodes than the job has room for are written outside its arrays.\<close>

definition searched_job :: "plan_job \<Rightarrow> search \<Rightarrow> plan_job option" where
  "searched_job job st =
     (let n = nat (pj_req_num_nodes job)
      in if n < length (se_ninfo st) then None
         else Some (job\<lparr>pj_start_time := se_start st,
                pj_completion_time := (if se_ninfo st = [] then -1 else se_start st + pj_estimated_processing job),
                pj_ninfo_arr := map Some (se_ninfo st) @ drop (length (se_ninfo st)) (pj_ninfo_arr job),
                pj_latest_ncpu_index := fill_up n (-1) (map int (se_latest st)),
                pj_fixed_nname_arr := (if wipe_fixed_nodes job then fill_up n None (map Some (se_fixed st)) else pj_fixed_nname_arr job)\<rparr>))"

definition update_shared :: "config \<Rightarrow> world \<Rightarrow> limit_values \<Rightarrow> plan_cluster \<Rightarrow> plan_limit list \<Rightarrow> first_free_slot list \<Rightarrow> int list \<Rightarrow> plan_job \<Rightarrow> job_result option" where
  "update_shared conf w v cl limits slots avail job =
     (case search_loop w slots job (start_search job avail) of
        None \<Rightarrow> Some Failed
      | Some st \<Rightarrow>
          (case searched_job job st of None \<Rightarrow> None | Some job1 \<Rightarrow>
             (case adjust_job_starttime_according_to_limits conf v cl limits job1 of None \<Rightarrow> None
              | Some job2 \<Rightarrow> finish_update False job2 (se_cpus st) slots)))"

definition update_exclusive :: "config \<Rightarrow> world \<Rightarrow> limit_values \<Rightarrow> plan_cluster \<Rightarrow> plan_limit list \<Rightarrow> first_free_slot list \<Rightarrow> int list \<Rightarrow> plan_job \<Rightarrow> job_result option" where
  "update_exclusive conf w v cl limits slots avail job =
     (let (nodes, t) = exclusive_nodes w slots avail job
      in if t = NO_NODE_TIME then Some Failed
         else
           (let own = slots_of_nodes nodes slots; slots1 = lower_times own t slots;
                cpus = fold (insert_cpu slots1) (filter (\<lambda>i. i \<in> own) [0..<length slots]) [];
                n = nat (pj_req_num_nodes job);
                job1 = job\<lparr>pj_ninfo_arr := nodes, pj_start_time := t, pj_completion_time := t + pj_estimated_processing job,
                         pj_latest_ncpu_index := replicate n (-1),
                         pj_fixed_nname_arr := (if wipe_fixed_nodes job then replicate n None else pj_fixed_nname_arr job)\<rparr>
            in case adjust_job_starttime_according_to_limits conf v cl limits job1 of
                 None \<Rightarrow> None
               | Some job2 \<Rightarrow> finish_update True job2 cpus slots1))"

definition update_job :: "plan_env \<Rightarrow> world \<Rightarrow> job_info list \<Rightarrow> limit_values \<Rightarrow> plan_cluster \<Rightarrow> plan_limit list \<Rightarrow> first_free_slot list \<Rightarrow> plan_job \<Rightarrow> job_result option" where
  "update_job pe w tab v cl limits slots job =
     (let exclusive = is_exclusive (ev_parse_nodespec (pe_env pe)) (tab ! pj_jinfo job);
          avail = map (slot_availability pe w exclusive job) slots
      in if exclusive then update_exclusive (pe_conf pe) w v cl limits slots avail job
         else update_shared (pe_conf pe) w v cl limits slots avail job)"

section \<open>Jobs of priority\<close>

text \<open>
  The first loop of \<open>update_sched\<close> moves jobs of priority to the front.  The move leaves \<open>current\<close> on the moved job, so
  the loop goes on with the second job of the list and looks at the jobs it has passed once more.
\<close>

definition wants_front :: "int \<Rightarrow> job_info list \<Rightarrow> plan_job \<Rightarrow> bool" where
  "wants_front now tab job \<longleftrightarrow> pj_available_after job \<le> now \<and> pj_jinfo job < length tab \<and>
     (let j = tab ! pj_jinfo job
      in ji_state j = JobQueued \<and> ji_priority j \<noteq> 56 \<and>
         (ji_account j = ''galaxyelixir'' \<or> ji_priority j = 42 \<or> 0 < pj_req_gpu job))"

definition set_priority :: "nat \<Rightarrow> int \<Rightarrow> job_info list \<Rightarrow> job_info list" where
  "set_priority k p tab = tab[k := (tab ! k)\<lparr>ji_priority := p\<rparr>]"

lemma filter_same_length: "(\<And>x. x \<in> set xs \<Longrightarrow> Q x \<Longrightarrow> P x) \<Longrightarrow> length (filter Q xs) \<le> length (filter P xs)"
  by (induction xs) (auto simp: le_SucI)

lemma moved_wants_less:
  assumes "p < length jobs" "wants_front now tab (jobs ! p)"
  shows "length (filter (wants_front now (set_priority (pj_jinfo (jobs ! p)) 56 tab))
        (jobs ! p # take p jobs @ drop (Suc p) jobs)) < length (filter (wants_front now tab) jobs)"
proof -
  let ?t = "set_priority (pj_jinfo (jobs ! p)) 56 tab"
  have mono: "wants_front now tab x" if x: "wants_front now ?t x" for x
    using x by (cases "pj_jinfo x = pj_jinfo (jobs ! p)") (auto simp: wants_front_def set_priority_def Let_def)
  have gone: "\<not> wants_front now ?t (jobs ! p)" using assms(2) by (auto simp: wants_front_def set_priority_def Let_def)
  have "length (filter (wants_front now ?t) (take p jobs @ drop (Suc p) jobs)) \<le>
      length (filter (wants_front now tab) (take p jobs @ drop (Suc p) jobs))"
    by (rule filter_same_length) (rule mono)
  moreover have "filter (wants_front now tab) jobs =
      filter (wants_front now tab) (take p jobs) @ jobs ! p # filter (wants_front now tab) (drop (Suc p) jobs)"
    using assms by (subst id_take_nth_drop[OF assms(1)]) simp
  ultimately show ?thesis using gone by simp
qed

function front_jobs :: "int \<Rightarrow> nat \<Rightarrow> plan_job list \<Rightarrow> job_info list \<Rightarrow> plan_job list \<times> job_info list" where
  "front_jobs now p jobs tab =
     (if p < length jobs
      then (if wants_front now tab (jobs ! p)
            then front_jobs now 1 (jobs ! p # take p jobs @ drop (Suc p) jobs) (set_priority (pj_jinfo (jobs ! p)) 56 tab)
            else front_jobs now (Suc p) jobs tab)
      else (jobs, tab))"
  by pat_completeness auto

termination front_jobs
proof (relation "inv_image (less_than <*lex*> less_than)
    (\<lambda>(now, p, jobs, tab). (length (filter (wants_front now tab) jobs), length jobs - p))", goal_cases)
  case (2 now p jobs tab)
  show ?case using moved_wants_less[OF 2] by simp
qed auto

declare front_jobs.simps [simp del]

section \<open>The plan of a cluster\<close>

record plan_state =
  pst_sched :: sched
  pst_tab :: "job_info list"
  pst_values :: limit_values

record replan =
  rp_done :: "plan_job list"
  rp_slots :: "first_free_slot list"
  rp_limits :: "plan_limit list"
  rp_gaps :: "plan_gap list"
  rp_tab :: "job_info list"
  rp_queued :: int
  rp_max :: int

fun insert_gaps :: "world \<Rightarrow> plan_job list \<Rightarrow> plan_gap list \<Rightarrow> plan_gap list \<Rightarrow> plan_gap list option" where
  "insert_gaps w jobs [] gaps = Some gaps"
| "insert_gaps w jobs (g # gs) gaps =
     (case insert_new_gap w jobs gaps g of None \<Rightarrow> None | Some gaps1 \<Rightarrow> insert_gaps w jobs gs gaps1)"

definition finish_job :: "bool \<Rightarrow> plan_job \<Rightarrow> replan \<Rightarrow> replan" where
  "finish_job run_me job rp =
     rp\<lparr>rp_done := rp_done rp @ [job\<lparr>pj_run_me := run_me\<rparr>], rp_max := max (rp_max rp) (pj_completion_time job)\<rparr>"

text \<open>A queued job is planned, its processors are added to the limits and the gaps in front of it to the gaps.\<close>

definition replan_queued ::
  "plan_env \<Rightarrow> world \<Rightarrow> limit_values \<Rightarrow> plan_cluster \<Rightarrow> plan_job \<Rightarrow> plan_job list \<Rightarrow> replan \<Rightarrow> (replan + replan) option" where
  "replan_queued pe w v cl job rest rp0 =
     (let rp = rp0\<lparr>rp_queued := rp_queued rp0 + 1\<rparr>
      in case update_job pe w (rp_tab rp) v cl (rp_limits rp) (rp_slots rp) job of
           None \<Rightarrow> None
         | Some Failed \<Rightarrow> Some (Inl (rp\<lparr>rp_done := rp_done rp @ rest\<rparr>))
         | Some (Updated job1 slots gaps) \<Rightarrow>
             (case add_job_to_limits (pe_conf pe) cl job1 (rp_limits rp) of
                None \<Rightarrow> None
              | Some limits \<Rightarrow>
                  map_option (\<lambda>gs. Inr (finish_job True job1 (rp\<lparr>rp_slots := slots, rp_limits := limits, rp_gaps := gs\<rparr>)))
                    (insert_gaps w (rp_done rp @ job1 # rest) gaps (rp_gaps rp))))"

definition replan_job ::
  "plan_env \<Rightarrow> world \<Rightarrow> limit_values \<Rightarrow> plan_cluster \<Rightarrow> plan_job \<Rightarrow> plan_job list \<Rightarrow> replan \<Rightarrow> (replan + replan) option" where
  "replan_job pe w v cl job rest rp0 =
     (let j = pj_jinfo job;
          rp = (if ji_priority (rp_tab rp0 ! j) = 56 then rp0\<lparr>rp_tab := set_priority j 42 (rp_tab rp0)\<rparr> else rp0);
          state = ji_state (rp_tab rp ! j)
      in if state = JobRunning
         then map_option (\<lambda>l. Inr (finish_job False job (rp\<lparr>rp_limits := l\<rparr>))) (add_job_to_limits (pe_conf pe) cl job (rp_limits rp))
         else if state = JobQueued then replan_queued pe w v cl job rest rp
         else Some (Inr (finish_job False job rp)))"

fun replan_jobs ::
  "plan_env \<Rightarrow> world \<Rightarrow> limit_values \<Rightarrow> plan_cluster \<Rightarrow> plan_job list \<Rightarrow> replan \<Rightarrow> (replan + replan) option" where
  "replan_jobs pe w v cl [] rp = Some (Inr rp)"
| "replan_jobs pe w v cl (job # rest) rp =
     (case replan_job pe w v cl job rest rp of
        None \<Rightarrow> None | Some (Inl r) \<Rightarrow> Some (Inl r) | Some (Inr r) \<Rightarrow> replan_jobs pe w v cl rest r)"

text \<open>What a cluster keeps of a new plan.\<close>

definition store_plan :: "nat \<Rightarrow> plan_cluster \<Rightarrow> replan \<Rightarrow> plan_state \<Rightarrow> plan_state" where
  "store_plan k cl rp st =
     st\<lparr>pst_tab := rp_tab rp, pst_sched := (pst_sched st)
        \<lparr>sc_clusters := (sc_clusters (pst_sched st))[k := cl\<lparr>pc_num_queued_jobs := rp_queued rp\<rparr>],
         sc_jobs_list := (sc_jobs_list (pst_sched st))[k := rp_done rp],
         sc_gaps_list := (sc_gaps_list (pst_sched st))[k := rp_gaps rp],
         sc_limits_list := (sc_limits_list (pst_sched st))[k := rp_limits rp]\<rparr>\<rparr>"

text \<open>The gaps behind the jobs and the last gap.\<close>

definition close_plan :: "world \<Rightarrow> plan_cluster \<Rightarrow> replan \<Rightarrow> replan option" where
  "close_plan w cl rp =
     map_option (\<lambda>gs. rp\<lparr>rp_gaps := gs @ [gap_create_last w (rp_max rp) (Some cl)]\<rparr>)
       (if rp_done rp = [] then Some (rp_gaps rp)
        else insert_gaps w (rp_done rp) (gap_create_not_the_last w (rp_slots rp) (rp_max rp)) (rp_gaps rp))"

definition replan_cluster ::
  "plan_env \<Rightarrow> world \<Rightarrow> int \<Rightarrow> nat \<Rightarrow> plan_cluster \<Rightarrow> first_free_slot list \<Rightarrow> limit_values \<Rightarrow> plan_state \<Rightarrow> (int \<times> plan_state) option" where
  "replan_cluster pe w now k cl slots v st0 =
     (let st = st0\<lparr>pst_values := v\<rparr>; (jobs, tab) = front_jobs now 0 (sc_jobs_list (pst_sched st) ! k) (pst_tab st)
      in case replan_jobs pe w v cl jobs
                \<lparr>rp_done = [], rp_slots = slots, rp_limits = [], rp_gaps = [], rp_tab = tab, rp_queued = 0, rp_max = now\<rparr> of
           None \<Rightarrow> None
         | Some (Inl rp) \<Rightarrow> Some (2, store_plan k cl rp st)
         | Some (Inr rp) \<Rightarrow>
             (case close_plan w cl rp of None \<Rightarrow> None
              | Some rp1 \<Rightarrow> (let st1 = store_plan k cl rp1 st
                             in Some (0, st1\<lparr>pst_sched := (pst_sched st1)\<lparr>sc_updated := (sc_updated (pst_sched st1))[k := True]\<rparr>\<rparr>))))"

definition update_sched :: "plan_env \<Rightarrow> world \<Rightarrow> int \<Rightarrow> nat \<Rightarrow> plan_state \<Rightarrow> (int \<times> plan_state) option" where
  "update_sched pe w now k st =
     (let cl0 = sc_clusters (pst_sched st) ! k
      in case first_free_slots_create w cl0 of
           None \<Rightarrow> None
         | Some slots0 \<Rightarrow>
             (case first_free_slots_initialize (pe_env pe) (pe_badatval pe) w (pst_tab st) (pe_cpus pe) now cl0 slots0 of
                None \<Rightarrow> None
              | Some (cl, slots) \<Rightarrow>
                  (case update_limits_values (pe_conf pe) cl (pst_values st) of
                     None \<Rightarrow> None
                   | Some v \<Rightarrow> replan_cluster pe w now k cl slots v st)))"

section \<open>Processors in the order of their times\<close>

definition by_time :: "first_free_slot list \<Rightarrow> nat list \<Rightarrow> bool" where
  "by_time slots cpus = sorted_wrt (\<lambda>i k. slot_time slots i \<le> slot_time slots k) cpus"

lemma insert_cpu_by_time:
  assumes "by_time slots cpus"
  shows "by_time slots (insert_cpu slots i cpus)"
proof -
  let ?P = "\<lambda>k. slot_time slots i < slot_time slots k"
  let ?n = "length (dropWhile ?P (rev cpus))"
  have split: "rev (dropWhile ?P (rev cpus)) @ rev (takeWhile ?P (rev cpus)) = cpus"
    by (metis rev_append rev_rev_ident takeWhile_dropWhile_id)
  then have parts: "take ?n cpus = rev (dropWhile ?P (rev cpus))" "drop ?n cpus = rev (takeWhile ?P (rev cpus))"
    by (metis append_eq_conv_conj length_rev)+
  have late: "slot_time slots i \<le> slot_time slots k" if "k \<in> set (drop ?n cpus)" for k
    using that set_takeWhileD[of k ?P "rev cpus"] unfolding parts by auto
  have early: "slot_time slots k \<le> slot_time slots i" if k: "k \<in> set (take ?n cpus)" for k
  proof -
    have k': "k \<in> set (dropWhile ?P (rev cpus))" using k unfolding parts(1) by simp
    then obtain x xs where x: "dropWhile ?P (rev cpus) = x # xs" by (cases "dropWhile ?P (rev cpus)") auto
    then have "\<not> ?P x" using hd_dropWhile[of ?P "rev cpus"] by auto
    moreover have "by_time slots (rev xs @ [x])"
      using assms append_take_drop_id[of ?n cpus] parts x
      by (metis by_time_def rev.simps(2) sorted_wrt_append)
    ultimately show ?thesis using k' unfolding x by (auto simp: by_time_def sorted_wrt_append)
  qed
  have "by_time slots (take ?n cpus)" "by_time slots (drop ?n cpus)"
    using assms by (auto simp: by_time_def sorted_wrt_take sorted_wrt_drop)
  then show ?thesis using early late by (fastforce simp: insert_cpu_def Let_def by_time_def sorted_wrt_append)
qed

lemma finish_node_cpus [simp]: "se_cpus (finish_node w slots job st) = se_cpus st"
  by (simp add: finish_node_def Let_def split: option.splits)

lemma take_cpu_by_time:
  assumes "by_time slots (se_cpus st)"
  shows "by_time slots (se_cpus (take_cpu w slots job st i))"
proof -
  have "by_time slots (take n (se_cpus st))" for n using assms by (simp add: by_time_def sorted_wrt_take)
  then show ?thesis using assms by (simp add: take_cpu_def Let_def insert_cpu_by_time)
qed

lemma search_loop_by_time:
  "search_loop w slots job st = Some st' \<Longrightarrow> by_time slots (se_cpus st) \<Longrightarrow> by_time slots (se_cpus st')"
proof (induction w slots job st rule: search_loop.induct)
  case (1 w slots job st)
  note e = search_loop.simps[of w slots job st]
  show ?case
  proof (cases "int (length (se_cpus st)) < pj_usage job \<and> length (se_avail st) = length slots")
    case True
    then obtain i where i: "ith_smallest slots st = Some i" using 1(2) e by (auto split: option.splits)
    then have run: "search_loop w slots job (take_cpu w slots job st i) = Some st'" using 1(2) e True by simp
    show ?thesis by (rule "1.IH"[OF True i run take_cpu_by_time[OF 1(3)]])
  next
    case False
    then show ?thesis using 1(2,3) e by auto
  qed
qed

lemma fold_insert_by_time: "by_time slots cpus \<Longrightarrow> by_time slots (fold (insert_cpu slots) is cpus)"
  by (induction "is" arbitrary: cpus) (auto simp: insert_cpu_by_time)

section \<open>Gaps of a plan\<close>

lemma gap_ok_refs: "pj_ref ` set jobs = pj_ref ` set jobs' \<Longrightarrow> gap_ok jobs g = gap_ok jobs' g"
  by (simp add: gap_ok_def)

lemma gaps_ok_refs: "pj_ref ` set jobs = pj_ref ` set jobs' \<Longrightarrow> gaps_ok jobs gs = gaps_ok jobs' gs"
  unfolding gaps_ok_def using gap_ok_refs[of jobs jobs'] by blast

lemma gap_walk_ok:
  assumes "by_time slots cpus" "gap_start = -1 \<or> (\<forall>i \<in> set cpus. gap_start \<le> slot_time slots i)" "pj_ref job \<in> pj_ref ` set jobs"
    "g \<in> set (gap_walk job slots gap_start cpus)"
  shows "gap_ok jobs g"
  using assms
proof (induction cpus arbitrary: gap_start)
  case (Cons i "is")
  define t s where "t = slot_time slots i" and "s = (if gap_start = -1 then t else gap_start)"
  have le: "s \<le> t" using Cons.prems(2) by (auto simp: s_def t_def)
  have later: "by_time slots is" "\<forall>k \<in> set is. t \<le> slot_time slots k" using Cons.prems(1) by (auto simp: by_time_def t_def)
  have walk: "gap_walk job slots gap_start (i # is) =
      (if s \<noteq> t then gap_memory_create (gap_fillin s t (t - s) 0 (Some (pj_ref job))) job slots # gap_walk job slots t is
       else gap_walk job slots s is)"
    by (simp add: Let_def s_def t_def)
  have rest: "gap_ok jobs g" if "g \<in> set (gap_walk job slots t is)"
    by (rule Cons.IH[OF later(1) disjI2[OF later(2)] Cons.prems(3) that])
  show ?case
  proof (cases "s = t")
    case True
    then show ?thesis using Cons.prems(4) rest unfolding walk by simp
  next
    case False
    then have "g = gap_memory_create (gap_fillin s t (t - s) 0 (Some (pj_ref job))) job slots \<or> g \<in> set (gap_walk job slots t is)"
      using Cons.prems(4) unfolding walk by simp
    then show ?thesis
    proof
      assume "g = gap_memory_create (gap_fillin s t (t - s) 0 (Some (pj_ref job))) job slots"
      then show ?thesis using Cons.prems(3) False le by (simp add: gap_ok_def gap_memory_create_def gap_of_slots_def gap_fillin_def)
    qed (rule rest)
  qed
qed simp

lemma insert_gaps_ok:
  assumes "insert_gaps w jobs new gaps = Some gs" "gaps_ok jobs gaps" "\<forall>g \<in> set new. gap_ok jobs g"
  shows "gaps_ok jobs gs"
  using assms
proof (induction new arbitrary: gaps)
  case (Cons g new)
  obtain gs1 where g1: "insert_new_gap w jobs gaps g = Some gs1" "gaps_ok jobs gs1"
    using usage.insert_total[OF Cons.prems(2), of g w] Cons.prems(3) by auto
  then show ?case using Cons by auto
qed simp

lemma adjust_keeps_ref: "adjust_job_starttime_according_to_limits conf v cl limits job = Some job' \<Longrightarrow> pj_ref job' = pj_ref job"
  by (auto simp: adjust_job_starttime_according_to_limits_def split: option.splits if_splits)

lemma finish_update_ok:
  assumes "finish_update exclusive job0 cpus slots = Some (Updated job s gaps)" "by_time slots cpus"
    "pj_ref job0 \<in> pj_ref ` set jobs"
  shows "pj_ref job = pj_ref job0 \<and> (\<forall>g \<in> set gaps. gap_ok jobs g)"
proof -
  have "pj_ref job = pj_ref job0" "gaps = gap_walk job slots (-1) cpus"
    using assms(1) by (auto simp: finish_update_def Let_def)
  then show ?thesis using gap_walk_ok[OF assms(2), of "-1" job jobs] assms(3) by simp
qed

lemma update_job_ok:
  assumes "update_job pe w tab v cl limits slots job = Some (Updated job' s gaps)" "pj_ref job \<in> pj_ref ` set jobs"
  shows "pj_ref job' = pj_ref job \<and> (\<forall>g \<in> set gaps. gap_ok jobs g)"
proof -
  have "\<exists>exclusive job0 cpus slots0. finish_update exclusive job0 cpus slots0 = Some (Updated job' s gaps) \<and>
      by_time slots0 cpus \<and> pj_ref job0 = pj_ref job"
  proof (cases "is_exclusive (ev_parse_nodespec (pe_env pe)) (tab ! pj_jinfo job)")
    case True
    then show ?thesis using assms(1) fold_insert_by_time
      by (fastforce simp: update_job_def update_exclusive_def Let_def by_time_def dest: adjust_keeps_ref
          split: prod.splits if_splits option.splits)
  next
    case False
    then obtain avail st job1 job2 where
      st: "search_loop w slots job (start_search job avail) = Some st" "searched_job job st = Some job1"
      "adjust_job_starttime_according_to_limits (pe_conf pe) v cl limits job1 = Some job2"
      "finish_update False job2 (se_cpus st) slots = Some (Updated job' s gaps)"
      using assms(1) by (auto simp: update_job_def update_shared_def Let_def split: option.splits)
    have "by_time slots (se_cpus st)" by (rule search_loop_by_time[OF st(1)]) (simp add: start_search_def by_time_def)
    moreover have "pj_ref job2 = pj_ref job"
      using adjust_keeps_ref[OF st(3)] st(2) by (auto simp: searched_job_def Let_def split: if_splits)
    ultimately show ?thesis using st(4) by blast
  qed
  then show ?thesis using finish_update_ok assms(2) by metis
qed

text \<open>The jobs a plan is built from: those that are done and those that are still to come, by their references.\<close>

definition plan_ok :: "nat list \<Rightarrow> plan_job list \<Rightarrow> replan \<Rightarrow> bool" where
  "plan_ok refs rest rp \<longleftrightarrow> map pj_ref (rp_done rp @ rest) = refs \<and> gaps_ok (rp_done rp @ rest) (rp_gaps rp)"

lemma replan_job_ok:
  assumes "replan_job pe w v cl job rest rp = Some (Inr rp')" "plan_ok refs (job # rest) rp"
  shows "plan_ok refs rest rp'"
proof -
  have refs: "pj_ref ` set (rp_done rp @ job1 # rest) = pj_ref ` set (rp_done rp @ job # rest)" if "pj_ref job1 = pj_ref job" for job1
    using that by simp
  have fin: "plan_ok refs rest (finish_job b job1 (rp1\<lparr>rp_limits := l\<rparr>))" "plan_ok refs rest (finish_job b job1 rp1)"
    if "pj_ref job1 = pj_ref job" "rp_done rp1 = rp_done rp" "gaps_ok (rp_done rp @ job # rest) (rp_gaps rp1)" for b job1 rp1 l
    using that assms(2) gaps_ok_refs[of "rp_done rp @ job1\<lparr>pj_run_me := b\<rparr> # rest" "rp_done rp @ job # rest" "rp_gaps rp1"]
    by (auto simp: plan_ok_def finish_job_def)
  have queued: "plan_ok refs rest rp'" if q: "replan_queued pe w v cl job rest rp1 = Some (Inr rp')"
      and same: "rp_done rp1 = rp_done rp" "rp_gaps rp1 = rp_gaps rp" for rp1
  proof -
    obtain job1 slots gaps limits gs where
      u: "update_job pe w (rp_tab rp1) v cl (rp_limits rp1) (rp_slots rp1) job = Some (Updated job1 slots gaps)"
        "insert_gaps w (rp_done rp @ job1 # rest) gaps (rp_gaps rp) = Some gs"
        "rp' = finish_job True job1 (rp1\<lparr>rp_queued := rp_queued rp1 + 1, rp_slots := slots, rp_limits := limits, rp_gaps := gs\<rparr>)"
      using q same by (auto simp: replan_queued_def Let_def split: option.splits job_result.splits)
    have j: "pj_ref job1 = pj_ref job" "\<forall>g \<in> set gaps. gap_ok (rp_done rp @ job # rest) g"
      using update_job_ok[OF u(1), of "rp_done rp @ job # rest"] by auto
    then have "gaps_ok (rp_done rp @ job1 # rest) gs"
      using insert_gaps_ok[OF u(2)] assms(2) gap_ok_refs[OF refs[OF j(1)]] gaps_ok_refs[OF refs[OF j(1)]] by (simp add: plan_ok_def)
    then show ?thesis unfolding u(3) using j(1) same gaps_ok_refs[OF refs[OF j(1)]] by (intro fin(2)) auto
  qed
  show ?thesis using assms fin queued
    by (auto simp: replan_job_def Let_def plan_ok_def split: if_splits)
qed

lemma replan_jobs_ok:
  "replan_jobs pe w v cl jobs rp = Some (Inr rp') \<Longrightarrow> plan_ok refs jobs rp \<Longrightarrow> plan_ok refs [] rp'"
proof (induction jobs arbitrary: rp)
  case (Cons job rest)
  then obtain rp1 where r: "replan_job pe w v cl job rest rp = Some (Inr rp1)" "replan_jobs pe w v cl rest rp1 = Some (Inr rp')"
    by (auto split: option.splits sum.splits)
  show ?case by (rule Cons.IH[OF r(2) replan_job_ok[OF r(1) Cons.prems(2)]])
qed simp

lemma front_jobs_mset: "mset (fst (front_jobs now p jobs tab)) = mset jobs"
proof (induction now p jobs tab rule: front_jobs.induct)
  case (1 now p jobs tab)
  show ?case
  proof (cases "p < length jobs")
    case True
    then have "mset (jobs ! p # take p jobs @ drop (Suc p) jobs) = mset jobs"
      by (subst (4) id_take_nth_drop[OF True]) simp
    then show ?thesis using 1 True by (simp add: front_jobs.simps[of now p jobs tab])
  next
    case False
    then show ?thesis by (simp add: front_jobs.simps[of now p jobs tab])
  qed
qed

lemma next_gap_ok:
  assumes "\<forall>g \<in> set (snd (snd st)). gap_ok jobs g"
  shows "\<forall>g \<in> set (snd (snd (next_gap w slots mc st))). gap_ok jobs g"
proof -
  obtain gap_start taken gaps where st: "st = (gap_start, taken, gaps)" by (cases st) auto
  have "gap_ok jobs (gap_memory_create_last w (gap_fillin s e (e - s) 0 None) slots)" if "s < e" for s e
    using that by (simp add: gap_ok_def gap_memory_create_last_def gap_of_slots_def gap_fillin_def)
  then show ?thesis using assms by (auto simp: next_gap_def st Let_def split: prod.splits option.splits)
qed

lemma gaps_behind_ok: "\<forall>g \<in> set (gap_create_not_the_last w slots mc). gap_ok jobs g"
proof -
  have "\<forall>g \<in> set (snd (snd ((next_gap w slots mc ^^ n) (-1, map (\<lambda>s. fs_time s = -1) slots, [])))). gap_ok jobs g" for n
    by (induction n) (simp_all add: next_gap_ok)
  then show ?thesis unfolding gap_create_not_the_last_def by blast
qed

lemma close_plan_ok:
  assumes "close_plan w cl rp = Some rp'" "plan_ok refs [] rp"
  shows "rp_done rp' = rp_done rp \<and>
    (\<exists>gs. rp_gaps rp' = gs @ [gap_create_last w (rp_max rp) (Some cl)] \<and> gaps_ok (rp_done rp) gs)"
proof -
  obtain gs where gs: "rp' = rp\<lparr>rp_gaps := gs @ [gap_create_last w (rp_max rp) (Some cl)]\<rparr>"
    "rp_done rp = [] \<and> gs = rp_gaps rp \<or>
     insert_gaps w (rp_done rp) (gap_create_not_the_last w (rp_slots rp) (rp_max rp)) (rp_gaps rp) = Some gs"
    using assms(1) by (auto simp: close_plan_def split: if_splits)
  then have "gaps_ok (rp_done rp) gs"
    using assms(2) insert_gaps_ok[OF _ _ gaps_behind_ok] by (auto simp: plan_ok_def)
  then show ?thesis using gs(1) by simp
qed

text \<open>A plan that fails drops the job that has no place and no other.\<close>

lemma replan_job_drops:
  assumes "replan_job pe w v cl job rest rp = Some (Inl rp')" "plan_ok refs (job # rest) rp"
  shows "map pj_ref (rp_done rp') = map pj_ref (rp_done rp @ rest)"
  using assms by (auto simp: replan_job_def replan_queued_def Let_def plan_ok_def split: if_splits option.splits job_result.splits)

lemma replan_jobs_drops:
  "replan_jobs pe w v cl jobs rp = Some (Inl rp') \<Longrightarrow> plan_ok refs jobs rp \<Longrightarrow>
     \<exists>ref \<in> set refs. mset (map pj_ref (rp_done rp')) + {#ref#} = mset refs"
proof (induction jobs arbitrary: rp)
  case (Cons job rest)
  show ?case
  proof (cases "replan_job pe w v cl job rest rp")
    case (Some r)
    show ?thesis
    proof (cases r)
      case (Inl r1)
      then have "rp' = r1" using Cons.prems(1) Some by simp
      then have "mset (map pj_ref (rp_done rp')) + {#pj_ref job#} = mset refs"
        using replan_job_drops[of pe w v cl job rest rp rp' refs] Some Inl Cons.prems(2) by (auto simp: plan_ok_def)
      moreover have "pj_ref job \<in> set refs" using Cons.prems(2) by (auto simp: plan_ok_def)
      ultimately show ?thesis by blast
    next
      case (Inr r1)
      then show ?thesis using Cons.IH[of r1] Cons.prems Some replan_job_ok[of pe w v cl job rest rp r1 refs] by simp
    qed
  qed (use Cons.prems in simp)
qed simp

definition plan_jobs :: "plan_state \<Rightarrow> nat \<Rightarrow> plan_job list" where
  "plan_jobs st k = sc_jobs_list (pst_sched st) ! k"

definition plan_gaps :: "plan_state \<Rightarrow> nat \<Rightarrow> plan_gap list" where
  "plan_gaps st k = sc_gaps_list (pst_sched st) ! k"

lemma update_sched_cases:
  assumes "update_sched pe w now k st = Some (code, st')"
    and k: "k < length (sc_jobs_list (pst_sched st))" "k < length (sc_gaps_list (pst_sched st))"
  shows "code = 0 \<and> mset (map pj_ref (plan_jobs st' k)) = mset (map pj_ref (plan_jobs st k)) \<and>
      (\<exists>gs l. plan_gaps st' k = gs @ [l] \<and> gaps_ok (plan_jobs st' k) gs \<and> pg_end_time l = LONG_MAX) \<or>
    code = 2 \<and> (\<exists>ref. mset (map pj_ref (plan_jobs st' k)) + {#ref#} = mset (map pj_ref (plan_jobs st k)))"
proof -
  obtain cl slots v where r: "replan_cluster pe w now k cl slots v st = Some (code, st')"
    using assms(1) by (auto simp: update_sched_def Let_def split: option.splits)
  obtain jobs tab where f: "front_jobs now 0 (plan_jobs st k) (pst_tab st) = (jobs, tab)"
    by (cases "front_jobs now 0 (plan_jobs st k) (pst_tab st)") auto
  let ?rp = "\<lparr>rp_done = [], rp_slots = slots, rp_limits = [], rp_gaps = [], rp_tab = tab, rp_queued = 0, rp_max = now\<rparr>"
  have m: "mset (map pj_ref jobs) = mset (map pj_ref (plan_jobs st k))"
    using front_jobs_mset[of now 0 "plan_jobs st k" "pst_tab st"] f by simp
  have ok: "plan_ok (map pj_ref jobs) jobs ?rp" by (simp add: plan_ok_def)
  have stored: "plan_jobs (store_plan k cl rp1 (st\<lparr>pst_values := v\<rparr>)) k = rp_done rp1"
    "plan_gaps (store_plan k cl rp1 (st\<lparr>pst_values := v\<rparr>)) k = rp_gaps rp1" for rp1
    using k by (simp_all add: plan_jobs_def plan_gaps_def store_plan_def)
  consider rp where "replan_jobs pe w v cl jobs ?rp = Some (Inl rp)" "code = 2" "st' = store_plan k cl rp (st\<lparr>pst_values := v\<rparr>)"
    | rp rp1 where "replan_jobs pe w v cl jobs ?rp = Some (Inr rp)" "close_plan w cl rp = Some rp1" "code = 0"
        "plan_jobs st' k = rp_done rp1" "plan_gaps st' k = rp_gaps rp1"
    using r f stored by (auto simp: replan_cluster_def Let_def plan_jobs_def plan_gaps_def split: option.splits sum.splits)
  then show ?thesis
  proof cases
    case 1
    then show ?thesis using replan_jobs_drops[OF 1(1) ok] stored(1) m by auto
  next
    case 2
    have p: "plan_ok (map pj_ref jobs) [] rp" by (rule replan_jobs_ok[OF 2(1) ok])
    have "pg_end_time (gap_create_last w (rp_max rp) (Some cl)) = LONG_MAX" by (simp add: gap_create_last_def gap_fillin_def)
    then show ?thesis using close_plan_ok[OF 2(2) p] p m 2(3-5) by (auto simp: plan_ok_def)
  qed
qed

end
