(* ===== verification/PlanExamples.thy ===== *)
theory PlanExamples
  imports CycleExamples PlanOperations
begin

text \<open>
  Small plans on which the theorems about gaps, limits and slots are applied: a gap of one node, limits of one
  account, and a cluster of two nodes of which one is busy while the other runs a job.
\<close>

definition ex_gap :: "int \<Rightarrow> int \<Rightarrow> int \<Rightarrow> plan_gap" where
  "ex_gap s e n = \<lparr>pg_start_time = s, pg_end_time = e, pg_duration = e - s, pg_usage = n,
     pg_nodes_memory = [\<lparr>gm_ninfo = 0, gm_num_cpus = n, gm_available_mem = 100, gm_available_scratch_local = 0,
                         gm_updated = False\<rparr>],
     pg_following_job = None\<rparr>"

lemma ex_gap_ok: "s < e \<Longrightarrow> gap_ok jobs (ex_gap s e n)"
  by (simp add: gap_ok_def ex_gap_def)

definition ex_plan_conf :: config where
  "ex_plan_conf = init_config\<lparr>cf_limits_for_clusters :=
     [[] \<mapsto> [(0, \<lparr>cl_percentages = [3 / 4], cl_percentages_global = [3 / 4], cl_tresholds = [7200]\<rparr>)]]\<rparr>"

definition ex_cluster :: plan_cluster where
  "ex_cluster = \<lparr>pc_cluster_name = [], pc_properties = {}, pc_nodes = [0, 1], pc_nodes_name = [''n1'', ''n2''],
     pc_num_cpus = 8, pc_num_running_cpus = 4, pc_num_queued_jobs = 0, pc_available_ram = 2000\<rparr>"

definition ex_values :: limit_values where
  "ex_values = \<lparr>lv_values = [3], lv_values_global = [3]\<rparr>"

definition ex_plan_job :: plan_job where
  "ex_plan_job = (job_create 0)\<lparr>pj_start_time := 0, pj_completion_time := 40, pj_estimated_processing := 40,
     pj_req_ppn := 2, pj_req_num_nodes := 1, pj_usage := 2, pj_account_id := 0\<rparr>"

lemma ex_plan_job_fields [simp]:
  "pj_start_time ex_plan_job = 0" "pj_completion_time ex_plan_job = 40" "pj_estimated_processing ex_plan_job = 40"
  "pj_account_id ex_plan_job = 0" "job_cpus ex_plan_job = 2"
  by (simp_all add: ex_plan_job_def job_cpus_def)

lemma ex_walltime: "0 \<le> t \<Longrightarrow> t \<le> 7200 \<Longrightarrow> walltime_suits_to_limit ex_plan_conf t ex_cluster = Some 0"
  by (simp add: walltime_suits_to_limit_def cluster_limits_of_def find_limits_for_cluster_def ex_cluster_def ex_plan_conf_def
      to_sint_id)

text \<open>Two processors in use until 30 and one until 100.\<close>

definition ex_limits_list :: "plan_limit list" where
  "ex_limits_list =
     [\<lparr>lm_timestamp = 0, lm_accounts = [\<lparr>la_account_id = 1, la_num_cpus = [2, 0, 0, 0, 0, 0, 0, 0]\<rparr>]\<rparr>,
      \<lparr>lm_timestamp = 30, lm_accounts = [\<lparr>la_account_id = 1, la_num_cpus = [1, 0, 0, 0, 0, 0, 0, 0]\<rparr>]\<rparr>,
      \<lparr>lm_timestamp = 100, lm_accounts = []\<rparr>]"

lemma ex_limits_list_ok: "limits_ok ex_limits_list"
  by (simp add: limits_ok_def ex_limits_list_def limit_ok_def NUM_LIMITS_def)

text \<open>With two more processors the limit of three is exceeded until 30, so the job starts then.\<close>

lemma ex_adjusted:
  "adjust_job_starttime_according_to_limits ex_plan_conf ex_values ex_cluster ex_limits_list ex_plan_job =
     Some (ex_plan_job\<lparr>pj_start_time := 30, pj_completion_time := 70\<rparr>)"
  by (simp add: adjust_job_starttime_according_to_limits_def ex_walltime ex_values_def ex_limits_list_def concerns_job_def
      sum_limits_of_limit_def account_exceeds_def limit_find_account_def class_readable_def NUM_LIMITS_def Let_def)

section \<open>A cluster with a busy node\<close>

definition ex_busy_world :: world where
  "ex_busy_world = ex_world\<lparr>w_nodes := [(ex_node ''n1'' 0)\<lparr>ns_busy := True\<rparr>, ex_node ''n2'' 1]\<rparr>"

definition ex_running :: job_info where
  "ex_running = ex_job\<lparr>ji_state := JobRunning, ji_stime := 50, ji_nodespec := ''1:ppn=2'', ji_resreq :=
     [\<lparr>rq_name = ''walltime'', rq_amount = 100, rq_res_str = None\<rparr>, \<lparr>rq_name = ''mem'', rq_amount = 40, rq_res_str = None\<rparr>,
      \<lparr>rq_name = ''procs'', rq_amount = 2, rq_res_str = None\<rparr>]\<rparr>"

definition ex_cpus :: "nat \<Rightarrow> nat option list option" where
  "ex_cpus a = (if a = 1 then Some [Some 0, Some 0, None, None] else None)"

lemma ex_busy_nodes:
  "node_at ex_busy_world 0 = (ex_node ''n1'' 0)\<lparr>ns_busy := True\<rparr>" "node_at ex_busy_world (Suc 0) = ex_node ''n2'' 1"
  "node_cores ex_busy_world 0 = 4" "node_cores ex_busy_world (Suc 0) = 4"
  "nd_phys_props (ex_node n a) = {}" "ns_reserved (ex_node n a) = False" "ns_busy (ex_node n a) = False"
  by (simp_all add: node_cores_def node_at_def ex_busy_world_def)
    (simp_all add: ex_node_def new_node_info_def node_data.defs init_node_data_def)

definition ex_slot :: "nat \<Rightarrow> first_free_slot" where
  "ex_slot a = new_slot ex_busy_world a [4 * a..<4 * a + 4]"

definition ex_slots :: "first_free_slot list" where
  "ex_slots = replicate 4 (ex_slot 0) @ replicate 4 (ex_slot 1)"

lemma ex_create: "first_free_slots_create ex_busy_world ex_cluster = Some ex_slots"
  by (simp add: first_free_slots_create_def ex_cluster_def ex_busy_nodes ex_slots_def ex_slot_def Let_def)

definition ex_taken :: first_free_slot where
  "ex_taken = (ex_slot 1)\<lparr>fs_time := 150, fs_free_to_run := False, fs_mem_used_per_cpu := 20, fs_scratch_local_used_per_cpu := 0\<rparr>"

definition ex_node_ready :: "first_free_slot list" where
  "ex_node_ready = [ex_taken, ex_taken, free_slot 100 (ex_slot 1), free_slot 100 (ex_slot 1)]"

definition ex_ready :: "first_free_slot list" where
  "ex_ready = replicate 4 (unusable_slot (ex_slot 0)) @ map (available_when ex_node_ready) ex_node_ready"

lemma ex_used: "used_slot ex_env ex_running 100 (ex_slot (Suc 0)) = Some ex_taken"
  by (simp add: used_slot_def req_amount_def ex_running_def job_get_scratch_local_def ex_env_def ex_spec_def ex_taken_def
      to_sint_def to_sll_def c_div_def Let_def)

lemma ex_unusable: "slots_unusable ex_busy_world 0" "\<not> slots_unusable ex_busy_world (Suc 0)" "\<not> out_of_service ex_busy_world 0"
  "\<not> out_of_service ex_busy_world (Suc 0)"
  by (simp_all add: slots_unusable_def out_of_service_def ex_busy_nodes)

lemma ex_initialize:
  "first_free_slots_initialize ex_env 0 ex_busy_world [ex_running] ex_cpus 100 ex_cluster ex_slots =
     Some (ex_cluster\<lparr>pc_num_running_cpus := 4\<rparr>, ex_ready)"
proof -
  have "list_all (limits_readable 0 ex_busy_world) [0, 1]"
    by (simp add: limits_readable_def ex_busy_nodes get_walltime_limit_min_def get_walltime_limit_max_def walltime_limit_def
        filter_exclude_def)
  moreover have "running_cpus ex_busy_world ex_cluster = 4"
    by (simp add: running_cpus_def ex_cluster_def ex_unusable ex_busy_nodes)
  moreover have "slots_initialize ex_env ex_busy_world [ex_running] ex_cpus 100 [0, 1] ex_slots = Some ex_ready"
    by (simp add: node_initialize_def ex_unusable ex_busy_nodes ex_slots_def ex_cpus_def cpu_slot_def ex_used numeral_eq_Suc
        ex_ready_def ex_node_ready_def)
  ultimately show ?thesis by (simp add: first_free_slots_initialize_def) (simp add: ex_cluster_def)
qed

definition ex_tail_gap :: plan_gap where
  "ex_tail_gap = gap_memory_create_last ex_busy_world (gap_fillin 100 150 50 0 None) ex_ready"

lemma ex_times: "map fs_time ex_ready = [-1, -1, -1, -1, 150, 150, 100, 100]"
  by (simp add: ex_ready_def ex_node_ready_def unusable_slot_def available_when_def ex_taken_def free_slot_def numeral_eq_Suc Let_def)

lemma ex_tail_gaps: "gap_create_not_the_last ex_busy_world ex_ready 150 = [ex_tail_gap]"
proof -
  obtain s0 s1 s2 s3 s4 s5 s6 s7 where e: "ex_ready = [s0, s1, s2, s3, s4, s5, s6, s7]"
    and t: "fs_time s0 = -1" "fs_time s1 = -1" "fs_time s2 = -1" "fs_time s3 = -1" "fs_time s4 = 150" "fs_time s5 = 150"
      "fs_time s6 = 100" "fs_time s7 = 100"
    using ex_times by (auto simp: map_eq_Cons_conv)
  note step = next_gap_def gaps_ith_smallest_def t LONG_MAX_def Let_def
  let ?n = "next_gap ex_busy_world ex_ready 150"
  have 1: "?n (-1, [True, True, True, True, False, False, False, False], []) =
      (100, [True, True, True, True, False, False, True, False], [])" by (simp add: e step)
  have 2: "?n (100, [True, True, True, True, False, False, True, False], []) =
      (100, [True, True, True, True, False, False, True, True], [])" by (simp add: e step)
  have 3: "?n (100, [True, True, True, True, False, False, True, True], []) =
      (150, [True, True, True, True, True, False, True, True], [ex_tail_gap])" by (simp add: e step ex_tail_gap_def)
  have 4: "?n (150, [True, True, True, True, True, False, True, True], [ex_tail_gap]) =
      (150, [True, True, True, True, True, True, True, True], [ex_tail_gap])" by (simp add: e step)
  have 5: "?n (150, [True, True, True, True, True, True, True, True], [ex_tail_gap]) =
      (150, [True, True, True, True, True, True, True, True], [ex_tail_gap])" by (simp add: e step)
  have "map (\<lambda>s. fs_time s = -1) ex_ready = [True, True, True, True, False, False, False, False]" "length ex_ready = 8"
    by (simp_all add: e t)
  moreover have "(?n ^^ 8) (-1, [True, True, True, True, False, False, False, False], []) =
      (150, [True, True, True, True, True, True, True, True], [ex_tail_gap])"
    by (simp only: numeral_eq_Suc pred_numeral_simps BitM.simps funpow_Suc_right funpow.simps o_apply id_apply 1 2 3 4 5)
  ultimately show ?thesis unfolding gap_create_not_the_last_def by simp
qed

section \<open>The plan of a cluster\<close>

definition ex_plan_env :: plan_env where
  "ex_plan_env = \<lparr>pe_env = ex_env, pe_conf = ex_plan_conf, pe_cpus = ex_cpus, pe_badatval = 0\<rparr>"

definition ex_plan_state :: plan_state where
  "ex_plan_state = \<lparr>pst_sched = \<lparr>sc_clusters = [ex_cluster], sc_jobs_list = [[ex_plan_job\<lparr>pj_start_time := 50, pj_completion_time := 150\<rparr>]],
       sc_gaps_list = [[]], sc_limits_list = [[]], sc_updated = [False]\<rparr>,
     pst_tab = [ex_running], pst_values = ex_values\<rparr>"

lemma ex_front: "front_jobs 100 0 [job] [ex_running] = ([job], [ex_running])"
proof -
  have "\<not> wants_front 100 [ex_running] job" by (auto simp: wants_front_def ex_running_def Let_def)
  then show ?thesis by (simp add: front_jobs.simps)
qed

lemma ex_update: "\<exists>st. update_sched ex_plan_env ex_busy_world 100 0 ex_plan_state = Some (0, st)"
proof -
  let ?cl = "ex_cluster\<lparr>pc_num_running_cpus := 4\<rparr>" and ?job = "ex_plan_job\<lparr>pj_start_time := 50, pj_completion_time := 150\<rparr>"
  have cl: "?cl = ex_cluster" by (simp add: ex_cluster_def)
  have v: "update_limits_values ex_plan_conf ?cl ex_values = Some ex_values"
    by (simp add: update_limits_values_def cluster_limits_of_def find_limits_for_cluster_def ex_cluster_def ex_plan_conf_def
        to_int_def ex_values_def Let_def)
  have "walltime_suits_to_limit ex_plan_conf 100 ?cl = Some 0" unfolding cl by (rule ex_walltime) simp_all
  then obtain limits where l: "add_job_to_limits ex_plan_conf ?cl ?job [] = Some limits"
    using add_job_to_limits_use[of "[]" ?job ex_plan_conf ?cl 0] by (auto simp: limits_ok_def NUM_LIMITS_def)
  have j: "pj_jinfo ?job = 0" "ji_state ex_running = JobRunning" "ji_priority ex_running \<noteq> 56"
    by (simp_all add: ex_plan_job_def job_create_def ex_running_def ex_job_def init_job_info_def)
  let ?rp = "\<lparr>rp_done = [], rp_slots = ex_ready, rp_limits = [], rp_gaps = [], rp_tab = [ex_running], rp_queued = 0, rp_max = 100\<rparr>"
  have r: "replan_jobs ex_plan_env ex_busy_world ex_values ?cl [?job] ?rp =
      Some (Inr (finish_job False ?job (?rp\<lparr>rp_limits := limits\<rparr>)))"
    using l j by (simp add: replan_job_def ex_plan_env_def Let_def)
  have c: "\<exists>rp. close_plan ex_busy_world ?cl (finish_job False ?job (?rp\<lparr>rp_limits := limits\<rparr>)) = Some rp"
    by (simp add: close_plan_def finish_job_def ex_tail_gaps insert_new_gap_def)
  have "\<exists>st. replan_cluster ex_plan_env ex_busy_world 100 0 ?cl ex_ready ex_values ex_plan_state = Some (0, st)"
    using c r by (auto simp: replan_cluster_def ex_plan_state_def ex_front Let_def)
  moreover have "update_sched ex_plan_env ex_busy_world 100 0 ex_plan_state =
      replan_cluster ex_plan_env ex_busy_world 100 0 ?cl ex_ready ex_values ex_plan_state"
    using v by (simp add: update_sched_def ex_plan_state_def ex_plan_env_def ex_create ex_initialize)
  ultimately show ?thesis by simp
qed

end
