(* ===== verification/Spec2Isabelle.thy ===== *)
theory Spec2Isabelle
  imports PlanExamples
begin

text \<open>
  TorquePlanSched is the scheduler of the Torque batch system used by CESNET.  In every cycle it asks the
  server for queues, jobs and nodes, decides which queued jobs may start, assigns nodes to them and
  sends the assignment to the server; a plan of jobs is kept in doubly linked lists.

  The theories follow the parts of the program.

    \<^item> Prelude, CLib, MiscHelpers: maps kept as sorted association lists, vectors with range checks, machine
      integers written out on \<open>int\<close>, the C library functions the code calls, and
      \<open>base/MiscHelpers.cpp\<close> and \<open>misc.cpp\<close>.
    \<^item> Resource: \<open>base/Resource.cpp\<close>, \<open>base/ResourceSet.cpp\<close>, \<open>base/DynamicResource.cpp\<close>.  A set of resources maps
      names to cells of a heap, because \<open>join_resources\<close> shares cells between nodes.
    \<^item> PropRegistry, NodeData, NodeSpec, SiteCache: the property registry, the data the server reports of a node,
      node specifications, assignments and the table of resources, and the decoding of Magrathea states.
    \<^item> Ordering, JobInfo: sorting with the comparison functions of \<open>sort.cpp\<close>, the data of a job (\<open>JobInfo.cpp\<close>,
      \<open>job_info.cpp\<close>) and the counts of job states.
    \<^item> NodeLogic, NodeInfo, NodeFilters: whether a job fits on a node (\<open>logic/NodeLogic.cpp\<close>, \<open>NodeInfo.cpp\<close>,
      \<open>logic/NodeFilters.cpp\<close>).
    \<^item> Planning: booking a job on a node and releasing it, and the expansion of a node into virtual nodes.
    \<^item> Assign: the search for nodes in \<open>nodespec.cpp\<close>, from \<open>assign_node\<close> to \<open>check_nodespec\<close>.
    \<^item> FairshareTree, Fairshare: the tree of groups and the selection of the next job.
    \<^item> Config, Times: the configuration and its parser (\<open>parse.cpp\<close>), prime time, holidays and dedicated times
      (\<open>prime.cpp\<close>, \<open>dedtime.cpp\<close>) and the status of a cycle.
    \<^item> ServerInfo, RunChecks: the state of the server with its counts and caches (\<open>ServerInfo.cpp\<close>, \<open>queue_info.cpp\<close>) and
      the checks whether a queue or a job may run (\<open>check.cpp\<close>).
    \<^item> ExternalCache, JobQueries, ServerQuery: the refresh of nodes from the site cache (\<open>misc.cpp\<close>), and the jobs, queues,
      nodes and server built from the answers of the server (\<open>job_info.cpp\<close>, \<open>queue_info.cpp\<close>, \<open>node_info.cpp\<close>, \<open>server_info.cpp\<close>).
    \<^item> Cycle, CycleSafety, CycleEnd, CycleInit: the scheduling cycle of \<open>fifo.cpp\<close> and \<open>SchedulerRealm.cpp\<close>: choice of the next
      job, \<open>try_run_job\<close>, the main loop as a function and as a step relation with its reachable states, and
      \<open>fetch_servers\<close>, \<open>update_fairshare\<close>, \<open>init_scheduling_cycle\<close> and \<open>update_last_running\<close> around it.
    \<^item> PlanList: the lists of the plan on an explicit heap.
    \<^item> PlanGaps, PlanLimits: the gaps of a plan with their memory and processors (\<open>plan_gaps.cpp\<close>, \<open>plan_gaps_memory.cpp\<close>) and
      the limits on processors of accounts over time (\<open>plan_limits.cpp\<close>).  PlanList justifies that these theories write a
      linked list as a HOL list.
    \<^item> PlanSchedule, PlanSlots, PlanOperations: clusters and planned jobs (\<open>plan_schedule.cpp\<close>, \<open>plan_jobs.cpp\<close>), the times at which
      processors become free (\<open>plan_first_free_slot.cpp\<close>), the placement of a job and the update of the plan of a cluster
      (\<open>plan_operations.cpp\<close>).
    \<^item> Examples, CycleExamples, PlanExamples: concrete inputs on which the theorems below are applied.

  What is shown.  Booking a job on a node and releasing it are inverse, and a job that passed the checks does not overbook
  a node; the search for nodes takes the first that fit; selection and sorting pick the job the source
  means to pick.  In a cycle, limits on running jobs hold in every reachable state, a job is started at most once,
  every job is considered, and the loop ends; a server that was fetched satisfies the assumptions of these theorems.
  In the plan, inserting a gap adds its processors to what the list offers at every time and on every node, a job counts
  against the limits exactly while it runs, and an update leaves ordered disjoint gaps.  Some theorems state
  what the code does where that differs from its purpose, e.g. the search for accounts and the gaps that offer busy nodes.

  State.  A \<open>world\<close> holds the heap of resources, the nodes (a node is named by its index, which stands for the
  pointer of the code) and the dynamic resources; operations take it and return it.  Errors are values:
  an exception or an out-of-range access is \<open>None\<close> or the left side of a sum.  Values of type \<open>float\<close> and \<open>double\<close>
  are rational numbers, so rounding is not modelled.  Loops over the linked list of the plan take the
  number of items as fuel, and the theorems show that this is enough.  The main loop of a cycle takes fuel as well: one pass
  more than there are jobs to do is enough (theorem \<open>cycle_ends\<close>).  The loop that decays the usage may run forever and is a
  partial function; the loops that search processors and that move jobs of priority end by lexicographic measures.

  Parameters.  Code of the Torque library (the parser of node specifications and the lookup of accounts and boot
  images) enters through the record \<open>env\<close>; the membership test for lists of hosts and groups, the time zone, the clock,
  the error code of a bad attribute value, the metrics of the site cache, the replies of the server and the jobs the server
  reports for each processor are arguments.

  Not modelled: sockets, log files, signals and the freeing of memory; \<open>plan_run\<close> and \<open>try_run_plan\<close>, the daemon around
  the plan; \<open>find_first_gap\<close>, which reads an uninitialised variable, and the functions that bring new jobs into the plan through it;
  the optimisation and evaluation of plans, a random search until a time limit over sums of floating-point values.
\<close>

text \<open>
  C1: Releasing a job from a node with unplan_from_node undoes its booking by plan_on_node exactly: cores, memory, scratch (local, ssd and shared pool) and every named resource, in any world, for every job that does not create a cluster.
\<close>

theorem unplan_undoes_plan:
  assumes "ji_cluster_mode job \<noteq> ClusterCreate"
  shows "unplan_from_node ev job a spec (plan_on_node ev job a spec w) = w"
  using assms by (simp add: plan_on_node_bookings unplan_from_node_bookings booked.undo_all)

theorem unplan_undoes_plan_witness:
  "unplan_from_node ex_env ex_job 0 ex_spec (plan_on_node ex_env ex_job 0 ex_spec ex_world) = ex_world"
  by (rule unplan_undoes_plan) simp



text \<open>
  C3: When check_nodespec returns SUCCESS for physical nodes that carried no assignment, the schedule of the job lists as many different suitable nodes as the node specification asks for in total, and exactly those suitable nodes carry an assignment.
\<close>

theorem check_nodespec_success_schedules:
  assumes "\<forall>a \<in> set ninfo_arr. a < length (w_nodes w) \<and> ni_phys_node (node_at w a) = None \<and>
      \<not> has_assignment (ni_assign (node_at w a))"
    and "ji_schedule job = []"
    and "check_nodespec ev reg q now ninfo_arr w job = Some (w', job', SUCCESS)"
  shows "distinct (ji_schedule job') \<and> set (ji_schedule job') \<subseteq> set (filter_job ev w job ninfo_arr) \<and>
     length (ji_schedule job') = sum_list (map ps_node_count (sp_nodes (job_spec (ev_parse_nodespec ev) job'))) \<and>
     (\<forall>a \<in> set (filter_job ev w job ninfo_arr).
        has_assignment (ni_assign (node_at w' a)) \<longleftrightarrow> a \<in> set (ji_schedule job'))"
  using check_nodespec_success[of w ninfo_arr job ev reg q now w' job'] assms
  by (simp add: schedule_ok_def phys_nodes_def)

theorem check_nodespec_success_schedules_witness:
  "distinct (ji_schedule (snd ex_found)) \<and>
   length (ji_schedule (snd ex_found)) = sum_list (map ps_node_count (sp_nodes (job_spec (ev_parse_nodespec ex_env) (snd ex_found))))"
  using check_nodespec_success_schedules[of "[0]" ex_world ex_job ex_env empty_registry ex_queue 100 "fst ex_found" "snd ex_found"]
    ex_check by (simp add: new_job_assign_def has_assignment_def less_2_cases_iff)





text \<open>
  C6: assign_node gives the specification to the first node of the list that is not taken and passes the fit check for the job's mode, appends exactly that node to the schedule and changes no other node; when no node fits it returns 1 and changes nothing.
\<close>

theorem assign_node_takes_first_fit:
  assumes "\<forall>a \<in> set nodes. a < length (w_nodes w)"
  shows "case List.find (node_fits ev w q job spec) nodes of
     None \<Rightarrow> assign_node ev q spec scratch ra nodes w job = (w, job, 1)
   | Some a \<Rightarrow> (\<exists>w' job'. assign_node ev q spec scratch ra nodes w job = (w', job', 0) \<and>
       assigned w job w' job' [a] \<and>
       ja_nodespec (ni_assign (node_at w' a)) =
         Some (assigned_spec (is_exclusive (ev_parse_nodespec ev) job) (w_heap w) (node_at w a) spec))"
  by (rule assign_node_first[OF assms])

theorem assign_node_takes_first_fit_witness:
  "\<exists>w' job'. assign_node ex_env ex_queue ex_spec ScratchNone None [0, 1] ex_world ex_job = (w', job', 0) \<and>
     assigned ex_world ex_job w' job' [0]"
proof -
  have "node_fits ex_env ex_world ex_queue ex_job ex_spec 0"
    by (simp add: node_fits_def ex_can_fit node_taken_def physical_node_def new_job_assign_def has_assignment_def)
  then show ?thesis
    using assign_node_takes_first_fit[where nodes = "[0, 1]" and w = ex_world and ev = ex_env and q = ex_queue and job = ex_job and spec = ex_spec and scratch = ScratchNone and ra = None]
    by (auto simp: less_2_cases_iff simp del: assign_node.simps)
qed





text \<open>
  C9: list_adjust_job_position terminates within the number of items and moves the job to the place its start time and identifier belong: in a list sorted but for that job it leaves a well-formed doubly linked list of the same items, sorted by start time and then by identifier.
\<close>

theorem adjust_keeps_plan_sorted:
  assumes "list_rel h l (as @ j # bs)" and "jobs_sorted h (as @ bs)"
  shows "\<exists>l' h' ys. list_adjust_job_position l j h = Some (l', h') \<and> list_rel h' l' ys \<and>
     jobs_sorted h' ys \<and> mset ys = mset (as @ j # bs)"
  using list_adjust_sorted[OF assms] by blast

theorem adjust_keeps_plan_sorted_witness:
  "\<exists>l' h' ys. list_adjust_job_position (fst ex_plan) 0 (snd ex_plan) = Some (l', h') \<and> list_rel h' l' ys \<and>
     jobs_sorted h' ys \<and> mset ys = mset [0, 1]"
  using adjust_keeps_plan_sorted[of "snd ex_plan" "fst ex_plan" "[]" 0 "[1]"] ex_plan_rel by simp

text \<open>
  C10: The doubly linked lists refine sequences: adding loose items at the end appends them, list_get_item finds the item at every position whichever end it starts from, and list_remove_item takes out exactly one item and leaves it with null links.
\<close>

theorem plan_list_is_a_sequence:
  assumes "list_rel h l xs" and "distinct ys" and "set ys \<inter> set xs = {}" and "\<forall>y \<in> set ys. loose h y"
  shows "pl_rel (fold pl_add_end ys (l, h)) (xs @ ys) \<and>
    (\<forall>i < length xs. snd (list_get_item h l (int i)) = Some (xs ! i)) \<and>
    (\<forall>as y bs. xs = as @ y # bs \<longrightarrow> (\<exists>l' h'. list_remove_item l (Some y) False h = Some (l', h') \<and>
       list_rel h' l' (as @ bs) \<and> loose h' y))"
proof (intro conjI allI impI)
  show "pl_rel (fold pl_add_end ys (l, h)) (xs @ ys)"
    using assms by (intro plan.add_all) (simp_all add: pl_rel_def pl_free_def)
  show "snd (list_get_item h l (int i)) = Some (xs ! i)" if "i < length xs" for i
    using list_get_item_rel[OF assms(1), of "int i"] that by simp
  show "\<exists>l' h'. list_remove_item l (Some y) False h = Some (l', h') \<and> list_rel h' l' (as @ bs) \<and> loose h' y"
    if "xs = as @ y # bs" for as y bs
    using list_remove_item_rel[of h l as y bs False] assms(1) that by auto
qed

theorem plan_list_is_a_sequence_witness:
  "snd (list_get_item (snd ex_plan) (fst ex_plan) 1) = Some 1"
  using plan_list_is_a_sequence[OF ex_plan_rel(1), of "[]"] by (simp add: less_Suc_eq)

text \<open>
  C11: Whatever attributes the server reports, the constructor of a node leaves resources in separate cells and notes every string-valued resource in the property registry: comparing the registered identifiers with has_reg_prop decides equality of the strings (as long as value identifiers stay below the largest size_t).
\<close>

theorem node_strings_match_registry:
  assumes "reg_ok (e_reg env)" and "new_node_data raw env st = (env', Inr n)" and "reg_small (e_reg env')"
    and "nd_get_resource (e_heap env') n p = Some r" and "is_string r"
    and "name_id_of (e_reg env') p = Some i" and "value_id_of (e_reg env') i v = Some w"
  shows "rs_ok (e_heap env') (nd_resc n) \<and> (has_reg_prop n i w \<longleftrightarrow> r_str_val r = v)"
  using string_noted_decides[OF new_node_data_ok[OF assms(1-3)] assms(4-7)] new_node_data_ok[OF assms(1-3)]
  by (simp add: nd_ok_def)

theorem node_strings_match_registry_witness:
  "has_reg_prop ex_built_node 0 0"
proof -
  have small: "reg_small (e_reg ex_built_env)"
    by (auto simp: reg_small_def ex_built_env_def value_id_of_def get_value_id_def smap_find_def SIZE_T_MAX_def not_le
        split: if_splits option.splits)
  show ?thesis
    using node_strings_match_registry[OF _ ex_node_build small, of "''arch''" ex_arch 0 "''x86''" 0] reg_ok_empty
    by (simp add: ex_built_env_def nd_get_resource_def rs_lookup_def smap_find_def is_string_def
        name_id_of_def value_id_of_def get_property_id_def get_value_id_def ex_built_node_def ex_arch_fields)
qed

text \<open>
  C12: Two registrations give the same property identifier exactly when the names are equal, and then the same value identifier exactly when the values are equal, even when other registrations lie between them.
\<close>

theorem property_ids_identify:
  assumes "reg_ok g" and "register_property g p v = (g', i, w)"
    and "register_property g' q u = (g'', j, x)"
  shows "reg_ok g'' \<and> (i = j \<longleftrightarrow> p = q) \<and> (i = j \<longrightarrow> (w = x \<longleftrightarrow> v = u))"
  using props.register_same_iff[OF assms] props.register_inv[OF props.register_inv[OF assms(1,2)] assms(3)] by blast

theorem property_ids_identify_witness:
  "reg_ok (fst (register_property (fst (register_property empty_registry ''arch'' ''x86'')) ''arch'' ''arm'')) \<and>
   fst (snd (register_property (fst (register_property empty_registry ''arch'' ''x86'')) ''arch'' ''arm'')) =
   fst (snd (register_property empty_registry ''arch'' ''x86''))"
  using property_ids_identify[OF reg_ok_empty, of "''arch''" "''x86''"
      "fst (register_property empty_registry ''arch'' ''x86'')" "fst (snd (register_property empty_registry ''arch'' ''x86''))"
      "snd (snd (register_property empty_registry ''arch'' ''x86''))" "''arch''" "''arm''"]
  by (metis prod.collapse)









text \<open>
  C17: When can_fit_job_for_boot answers CheckAvailable, the node can boot the job, the specification fits, and the alternative it returns is one of the boot images of the node whose properties satisfy the specification.
\<close>

theorem boot_finds_an_image:
  assumes "can_fit_job_for_boot ev w q job spec n = (CheckAvailable, s, r)"
  shows "can_boot_job ev w job n = CheckAvailable \<and> has_spec ev w q job spec n = (CheckAvailable, s) \<and>
     (\<exists>ras a. ni_alternatives n = Some ras \<and> a \<in> set ras \<and> r = Some (Some a) \<and>
        has_props_boot (ev_db ev) (w_heap w) n spec a = CheckAvailable)"
  by (rule can_fit_boot_available[OF assms])

theorem boot_finds_an_image_witness:
  "has_props_boot (ev_db ex_env) (w_heap ex_boot_world) ex_boot_node ex_spec ex_image = CheckAvailable"
  using boot_finds_an_image[OF ex_can_boot] by (simp add: ex_boot_node_def)



text \<open>
  C19: Filtering the nodes for the job first and then for a specification gives the same nodes in the same order as filtering for the specification alone, in all four filter modes, so check_nodespec loses no candidate by filtering once per job.
\<close>

theorem filters_agree:
  "filter_nodes (filter_job ev w job nodes) (NodeSuitableForSpec mode ev w q job spec) =
     filter_nodes nodes (NodeSuitableForSpec mode ev w q job spec)"
  by (rule filter_spec_of_filter_job)



text \<open>
  C21: join_resources keeps every resource of the left set, raises its utilisation to the larger of both sides, adds the resources only the right side has as the same object (shared, not copied), and changes no other cell.
\<close>

theorem joined_resources_keep_maximum:
  assumes "rs_ok h s" and "rs_ok h right" and "rs_addrs s \<inter> rs_addrs right = {}"
    and "join_resources h s right = (h', s')"
  shows "length h' = length h \<and>
     (\<forall>k. smap_find s' k = (case smap_find s k of Some a \<Rightarrow> Some a | None \<Rightarrow> smap_find right k)) \<and>
     (\<forall>a. a \<notin> rs_addrs s \<longrightarrow> h' ! a = h ! a) \<and>
     (\<forall>k a b. smap_find s k = Some a \<longrightarrow> smap_find right k = Some b \<longrightarrow>
        h' ! a = set_utilization (h ! a) (max (r_assign (h ! a)) (r_assign (h ! b))))"
  using join_resources_spec[OF assms] unfolding joined_def joined_cell_def smap_find_def by simp

theorem joined_resources_keep_maximum_witness:
  "fst (join_resources [ex_mem, ex_mem\<lparr>r_assign := 30\<rparr>] [(''mem'', 0)] [(''mem'', 1)]) ! 0 = set_utilization ex_mem 30"
proof -
  let ?h = "[ex_mem, ex_mem\<lparr>r_assign := 30\<rparr>]"
  obtain h' s' where j: "join_resources ?h [(''mem'', 0)] [(''mem'', 1)] = (h', s')" by fastforce
  have ok: "rs_ok ?h [(''mem'', 0)]" "rs_ok ?h [(''mem'', 1)]" by (auto simp: rs_ok_def rs_addrs_def smap_ok_def)
  show ?thesis
    using joined_resources_keep_maximum[OF ok _ j] j by (auto simp: rs_addrs_def smap_find_def ex_mem_def)
qed

text \<open>
  C22: Copying a resource set allocates new cells only: the copy shows the same resources under the same names, shares no cell with anything that existed, and the old heap is unchanged.
\<close>

theorem copied_resources_are_fresh:
  assumes "rs_ok h src" and "copy_resource_set h src = (h', s')"
  shows "rs_ok h' s' \<and> take (length h) h' = h \<and> (\<forall>a \<in> rs_addrs s'. length h \<le> a) \<and>
     (\<forall>k. rs_lookup h' s' k = rs_lookup h src k)"
  by (rule copy_resource_set_spec[OF assms])

theorem copied_resources_are_fresh_witness:
  "rs_lookup (fst (copy_resource_set [ex_mem] [(''mem'', 0)])) (snd (copy_resource_set [ex_mem] [(''mem'', 0)])) ''mem'' = Some ex_mem"
proof -
  have "rs_ok [ex_mem] [(''mem'', 0)]" by (auto simp: rs_ok_def rs_addrs_def smap_ok_def)
  from copied_resources_are_fresh[OF this prod.collapse[symmetric]] show ?thesis
    by (simp add: rs_lookup_def smap_find_def)
qed

text \<open>
  C23: add_reg_props writes out of range exactly when the identifier is fifty or more beyond the present size; in range it sets this identifier and no other.
\<close>

theorem register_out_of_range:
  assumes "v' \<noteq> SIZE_T_MAX"
  shows "if i < length (nd_reg_props n) + 50
     then \<exists>n'. add_reg_props n i v = Inr n' \<and> (\<forall>j. has_reg_prop n' j v' = (if j = i then v = v' else has_reg_prop n j v'))
     else add_reg_props n i v = Inl (Reg_Prop_Out_Of_Range i i)"
  using assms has_reg_prop_add[of n i v _ v'] by (simp add: add_reg_props_cases)

theorem register_out_of_range_witness:
  "add_reg_props (ex_node ''n1'' 0) 150 3 = Inl (Reg_Prop_Out_Of_Range 150 150)"
  using register_out_of_range[of 3 150 "ex_node ''n1'' 0" 3]
  by (simp add: ex_node_def new_node_info_def node_data.defs init_node_data_def SIZE_T_MAX_def)







text \<open>
  C27: The main loop of a cycle ends: every pass takes a job that no earlier pass took, so one pass more than there are jobs to take is always enough (the model's fuel is never used up), for every policy and every sequence of answers.
\<close>

theorem cycle_ends:
  assumes "cy_inv (cs_policy (ce_status ce)) cy" and "todo (cs_policy (ce_status ce)) cy < fuel"
  shows "main_loop ce start inputs fuel n cy \<noteq> Out_Of_Fuel"
  by (rule main_loop_ends[OF assms])

theorem cycle_ends_witness:
  "main_loop ex_cycle_env 100 (\<lambda>_. ex_input) 3 0 ex_cycle \<noteq> Out_Of_Fuel"
  using cycle_ends[OF ex_cycle_inv, of 3 100 "\<lambda>_. ex_input" 0] ex_todo by simp

text \<open>
  C28: With the whole server as one queue and no fairshare, when the selection answers that no job is left, every job of the server has been started or is marked as one that cannot run: none is forgotten.
\<close>

theorem cycle_considers_every_job:
  assumes "cycle_reach ce start cy cy'" and "cy_inv (cs_policy (ce_status ce)) cy"
    and "\<not> po_fair_share (cs_policy (ce_status ce))" and "\<not> po_by_queue (cs_policy (ce_status ce))" and "settled_upto cy"
    and "next_job (ce_conf ce) (cs_policy (ce_status ce)) cy' = Some (None, cy'')"
  shows "\<forall>j \<in> set (si_jobs (cy_server cy)). ji_can_not_run (job_at (cy_server cy') j) \<or> j \<in> set (si_running_jobs (cy_server cy'))"
  using all_settled[OF assms] by (simp add: settled_def)

theorem cycle_considers_every_job_witness:
  "list_all (\<lambda>j. settled ex_marked j) (si_jobs ex_marked)"
  using cycle_considers_every_job[OF cycle_reach.begin_cycle ex_marked_inv ex_plain ex_marked_settled ex_marked_next]
  by (simp add: list_all_iff settled_def)

text \<open>
  C29: When is_ok_to_run_job answers SUCCESS, every limit on running jobs of the server and of the queue (total, per user, per group) and every limit on used processors of the queue leaves room for the job, and the user is below the limit of starts of the cycle; and the check itself starts nothing.
\<close>

theorem run_check_enforces_limits:
  assumes "server_ok s" and "q = si_job_queue s ! j" and "q < length (si_queues s)"
    and "is_ok_to_run_job ce j s = Some (SUCCESS, s')"
  shows "within_limits s q (job_at s j) \<and> within_procs (ev_parse_nodespec (ce_env ce)) s q (job_at s j) \<and>
     si_exec_count s (ji_account (job_at s j)) < cf_max_user_run (ce_conf ce) \<and> si_running_jobs s' = si_running_jobs s"
  using is_ok_to_run_job_spec[OF assms] same_shell_quiet[THEN quietD(2), THEN runs_queue(1)] by blast

theorem run_check_enforces_limits_witness:
  "within_limits ex_server 0 ex_job"
proof -
  have "server_ok ex_server" "0 = si_job_queue ex_server ! 0" "0 < length (si_queues ex_server)" "job_at ex_server 0 = ex_job"
    using ex_server_ok by (simp_all add: cy_ok_def) (simp_all add: ex_server_def job_at_def)
  then show ?thesis using run_check_enforces_limits[OF _ _ _ ex_ok_to_run, of 0] by simp
qed

text \<open>
  C30: Every refusal of is_ok_to_run_job, from whichever check it comes, has an entry in the table of comments, and the comment with its terminating zero fits the buffer of MAX_COMMENT_SIZE characters.
\<close>

theorem refusals_are_explained:
  assumes "is_ok_to_run_job ce j s = Some (rc, s')" and "rc \<noteq> SUCCESS"
  shows "\<exists>c. translate_job_fail_code rc = Some (Some c) \<and> c \<noteq> [] \<and> length c < MAX_COMMENT_SIZE"
  using refusal_explained[OF assms] comment_fits[of rc] by (auto simp: explained_def split: option.splits)

theorem refusals_are_explained_witness:
  "\<exists>c. translate_job_fail_code SCHEDULER_LOOP_RUN_LIMIT_REACHED = Some (Some c) \<and> length c < MAX_COMMENT_SIZE"
proof -
  let ?ce = "ex_cycle_env\<lparr>ce_conf := init_config\<lparr>cf_max_user_run := 0\<rparr>\<rparr>"
  have "is_ok_to_run_job ?ce 0 ex_server = Some (SCHEDULER_LOOP_RUN_LIMIT_REACHED, ex_server)"
    by (simp add: is_ok_to_run_job_def ex_server_def)
  from refusals_are_explained[OF this] show ?thesis by (auto simp: code_defs)
qed



text \<open>
  C32: A value of the metric scratch_priority with fewer than two semicolons makes the refresh follow a null pointer, whichever words it has.
\<close>

theorem short_scratch_priority_crashes:
  assumes "count_list v (CHR '';'') < 2"
  shows "set_priority_on a v st = None"
  using short_priority_fails[OF assms] by (simp add: set_priority_on_def)

theorem short_scratch_priority_crashes_witness:
  "set_priority_on 0 ''ssd;local'' \<lparr>qc_world = ex_world, qc_reg = empty_registry, qc_db = []\<rparr> = None"
  using short_scratch_priority_crashes[of "''ssd;local''"] by simp



text \<open>
  C34: With a positive half-life the loop of update_fairshare ends and halves the usage once for every half-life that has passed in full, and the recorded time is moved by whole half-lives; when the time passed is an exact multiple of the half-life, one halving is lost. With a half-life that is not positive the loop never ends once it is entered.
\<close>

theorem decay_follows_half_lives:
  assumes "us_last_decay u < now"
  shows "decay_usage conf now u =
     (if 0 < cf_half_life conf then
        Some (u\<lparr>us_trees := (decay_fairshare_trees ^^ nat ((now - us_last_decay u) div cf_half_life conf -
                   (if cf_half_life conf dvd now - us_last_decay u then 1 else 0))) (us_trees u),
              us_last_decay := (if now - us_last_decay u > cf_half_life conf
                then us_last_decay u + (now - us_last_decay u) div cf_half_life conf * cf_half_life conf else us_last_decay u)\<rparr>)
      else None)"
  by (rule decay_usage_spec[OF assms])

theorem decay_follows_half_lives_witness:
  "decay_usage (init_config\<lparr>cf_half_life := 10\<rparr>) 20 ex_usage =
     Some (ex_usage\<lparr>us_trees := decay_fairshare_trees (us_trees ex_usage), us_last_decay := 20\<rparr>)"
  using decay_follows_half_lives[of ex_usage 20 "init_config\<lparr>cf_half_life := 10\<rparr>"] by (simp add: ex_usage_def)

text \<open>
  C35: Inserting a gap into a list of ordered, disjoint gaps always succeeds and keeps the gaps ordered, disjoint and of the right durations; at every time, all together and on every node, the list then offers the processors it offered before plus those of the new gap, however the new gap overlaps the old ones.
\<close>

theorem gap_insertion_adds_processors:
  assumes "gaps_ok jobs gaps" and "gap_ok jobs new"
  shows "\<exists>gaps'. insert_new_gap w jobs gaps new = Some gaps' \<and> gaps_ok jobs gaps' \<and>
    (\<forall>t. offered gaps' t = offered gaps t + offered [new] t) \<and>
    (\<forall>a t. offered_on a gaps' t = offered_on a gaps t + offered_on a [new] t)"
  by (rule insert_offers[OF assms])

theorem gap_insertion_adds_processors_witness:
  "\<exists>gaps'. insert_new_gap ex_world [] [ex_gap 0 10 2] (ex_gap 5 15 1) = Some gaps' \<and>
     offered gaps' 3 = 2 \<and> offered gaps' 7 = 3 \<and> offered_on 0 gaps' 12 = 1"
proof -
  have "gaps_ok [] [ex_gap 0 10 2]" "gap_ok [] (ex_gap 5 15 1)" by (simp_all add: gaps_ok_Cons ex_gap_ok)
  from gap_insertion_adds_processors[OF this, of ex_world]
  obtain gaps' where g: "insert_new_gap ex_world [] [ex_gap 0 10 2] (ex_gap 5 15 1) = Some gaps'"
    "\<forall>t. offered gaps' t = offered [ex_gap 0 10 2] t + offered [ex_gap 5 15 1] t"
    "\<forall>a t. offered_on a gaps' t = offered_on a [ex_gap 0 10 2] t + offered_on a [ex_gap 5 15 1] t" by blast
  then have "offered gaps' 3 = 2" "offered gaps' 7 = 3" "offered_on 0 gaps' 12 = 1"
    by (simp_all add: offered_def offered_on_def gap_cpus_def ex_gap_def)
  then show ?thesis using g(1) by blast
qed

text \<open>
  C36: Adding a job to the limits of a cluster never fails when its class of walltime exists; the entries stay ordered in time, and for every group of accounts the processors in use rise by those of the job exactly from its start to before its completion, in its class, and at no other time and in no other class.
\<close>

theorem job_counts_against_limits:
  assumes "limits_ok limits" and "pj_start_time job < pj_completion_time job"
    and "walltime_suits_to_limit conf (pj_completion_time job - pj_start_time job) cl = Some c" and "c < NUM_LIMITS"
  shows "\<exists>limits'. add_job_to_limits conf cl job limits = Some limits' \<and> limits_ok limits' \<and>
    (\<forall>P t. \<forall>d < NUM_LIMITS. used_at P limits' t d = used_at P limits t d +
       (if P (pj_account_id job) \<and> d = c \<and> pj_start_time job \<le> t \<and> t < pj_completion_time job then job_cpus job else 0))"
  by (rule add_job_to_limits_use[OF assms])

theorem job_counts_against_limits_witness:
  "\<exists>limits'. add_job_to_limits ex_plan_conf ex_cluster ex_plan_job ex_limits_list = Some limits' \<and>
     used_at (\<lambda>_. True) limits' 35 0 = 3 \<and> used_at (\<lambda>_. True) limits' 50 0 = 1"
proof -
  have "walltime_suits_to_limit ex_plan_conf (pj_completion_time ex_plan_job - pj_start_time ex_plan_job) ex_cluster = Some 0"
    by (simp add: ex_walltime)
  from job_counts_against_limits[OF ex_limits_list_ok _ this] obtain limits' where
    l: "add_job_to_limits ex_plan_conf ex_cluster ex_plan_job ex_limits_list = Some limits'"
    and u: "\<forall>P t. \<forall>d < NUM_LIMITS. used_at P limits' t d = used_at P ex_limits_list t d +
      (if P (pj_account_id ex_plan_job) \<and> d = 0 \<and> pj_start_time ex_plan_job \<le> t \<and> t < pj_completion_time ex_plan_job
       then job_cpus ex_plan_job else 0)" by (auto simp: NUM_LIMITS_def)
  have "used_at (\<lambda>_. True) ex_limits_list 35 0 = 1" "used_at (\<lambda>_. True) ex_limits_list 50 0 = 1"
    by (simp_all add: used_at_def ex_limits_list_def in_use_def)
  moreover have "0 < NUM_LIMITS" by (simp add: NUM_LIMITS_def)
  ultimately have "used_at (\<lambda>_. True) limits' 35 0 = 3" "used_at (\<lambda>_. True) limits' 50 0 = 1" using u by simp_all
  then show ?thesis using l by blast
qed



text \<open>
  C38: When the accounts of a limit are in ascending order, the binary search decides whether an account is among them. But the insertion never moves the first account: of two accounts added to a new limit in descending order the second is not found, so its processors are not held against the limit of its account.
\<close>

theorem account_search_needs_order:
  "(accounts_sorted l \<longrightarrow> (limit_find_account l x \<noteq> -1 \<longleftrightarrow> x \<in> la_account_id ` set (lm_accounts l))) \<and>
   (b < a \<longrightarrow> limit_find_account (fst (limit_add_account (fst (limit_add_account (limit_create t) a)) b)) b = -1)"
  using limit_find_iff second_account_lost by blast

theorem account_search_needs_order_witness:
  "limit_find_account (hd ex_limits_list) 1 \<noteq> -1 \<and>
   limit_find_account (fst (limit_add_account (fst (limit_add_account (limit_create 0) 2)) 1)) 1 = -1"
  using account_search_needs_order[of "hd ex_limits_list" 1 1 2 0] by (simp add: accounts_sorted_def ex_limits_list_def)

text \<open>
  C39: Whatever jobs, nodes and limits a cluster has, an update of its plan that returns 0 has kept all its jobs and left a list of ordered, disjoint gaps of the right durations followed by the endless last gap; an update that returns 2 has dropped exactly one job, so the loop that repeats the update on 2 ends.
\<close>

theorem updated_plan_is_ordered:
  assumes "update_sched pe w now k st = Some (code, st')"
    and "k < length (sc_jobs_list (pst_sched st))" and "k < length (sc_gaps_list (pst_sched st))"
  shows "code = 0 \<and> mset (map pj_ref (plan_jobs st' k)) = mset (map pj_ref (plan_jobs st k)) \<and>
      (\<exists>gs l. plan_gaps st' k = gs @ [l] \<and> gaps_ok (plan_jobs st' k) gs \<and> pg_end_time l = LONG_MAX) \<or>
    code = 2 \<and> (\<exists>ref. mset (map pj_ref (plan_jobs st' k)) + {#ref#} = mset (map pj_ref (plan_jobs st k)))"
  by (rule update_sched_cases[OF assms])

theorem updated_plan_is_ordered_witness:
  "\<exists>st' gs l. update_sched ex_plan_env ex_busy_world 100 0 ex_plan_state = Some (0, st') \<and>
     plan_gaps st' 0 = gs @ [l] \<and> gaps_ok (plan_jobs st' 0) gs"
proof -
  obtain st' where u: "update_sched ex_plan_env ex_busy_world 100 0 ex_plan_state = Some (0, st')" using ex_update by blast
  have "0 < length (sc_jobs_list (pst_sched ex_plan_state))" "0 < length (sc_gaps_list (pst_sched ex_plan_state))"
    by (simp_all add: ex_plan_state_def)
  from updated_plan_is_ordered[OF u this] u show ?thesis by auto
qed



end
